(* ===== verification/Hexa_Prelude.thy ===== *)
theory Hexa_Prelude
  imports Main "HOL-Library.Sublist" "HOL-Library.Code_Target_Nat"
begin

text \<open>
  The part of the Rust language and standard library that the modelled code uses, and the
  lemmas about it that every component shares.

  A Rust \<open>str\<close> or \<open>String\<close> is the list of its Unicode scalar values (type \<open>rstr\<close>); a
  literal of the source is \<open>lit ''...''\<close>. A \<open>Result<T, E>\<close> is the sum \<open>'e + 'a\<close> with \<open>Inl\<close>
  for \<open>Err\<close>, and the \<open>?\<close> operator is \<open>res_bind\<close>. The functions below carry the names of the
  methods of \<open>str\<close> they stand for.

  The collection \<open>str_simps\<close> holds the rewrite rules for evaluating string methods on closed
  arguments.
\<close>

section \<open>Collections of facts\<close>

named_theorems str_simps "evaluation of the string methods on closed arguments"

section \<open>Results\<close>

definition res_bind :: "'e + 'a \<Rightarrow> ('a \<Rightarrow> 'e + 'b) \<Rightarrow> 'e + 'b" where
  "res_bind r f = (case r of Inl e \<Rightarrow> Inl e | Inr a \<Rightarrow> f a)"

definition map_err :: "('e \<Rightarrow> 'f) \<Rightarrow> 'e + 'a \<Rightarrow> 'f + 'a" where
  "map_err f r = (case r of Inl e \<Rightarrow> Inl (f e) | Inr a \<Rightarrow> Inr a)"

definition res_ok :: "'e + 'a \<Rightarrow> bool" where
  "res_ok r = (case r of Inl _ \<Rightarrow> False | Inr _ \<Rightarrow> True)"

text \<open>\<open>iter().map(f).collect::<Result<Vec<_>, _>>()\<close>: the first error wins.\<close>

fun collect_res :: "('a \<Rightarrow> 'e + 'b) \<Rightarrow> 'a list \<Rightarrow> 'e + 'b list" where
  "collect_res f [] = Inr []"
| "collect_res f (x # xs) = res_bind (f x) (\<lambda>y. res_bind (collect_res f xs) (\<lambda>ys. Inr (y # ys)))"

lemma res_bind_simps [simp]:
  "res_bind (Inl e) f = Inl e"
  "res_bind (Inr a) f = f a"
  by (simp_all add: res_bind_def)

lemma map_err_simps [simp]:
  "map_err g (Inl e) = Inl (g e)"
  "map_err g (Inr a) = Inr a"
  by (simp_all add: map_err_def)

lemma res_ok_simps [simp]: "\<not> res_ok (Inl e)" "res_ok (Inr a)"
  by (simp_all add: res_ok_def)

lemma res_bind_eq_Inr_iff: "res_bind r f = Inr b \<longleftrightarrow> (\<exists>a. r = Inr a \<and> f a = Inr b)"
  by (cases r) auto

lemma res_bind_eq_Inl_iff:
  "res_bind r f = Inl e \<longleftrightarrow> r = Inl e \<or> (\<exists>a. r = Inr a \<and> f a = Inl e)"
  by (cases r) auto

lemma map_err_eq_Inr_iff: "map_err g r = Inr b \<longleftrightarrow> r = Inr b"
  by (cases r) auto

lemmas res_iffs = res_bind_eq_Inr_iff res_bind_eq_Inl_iff map_err_eq_Inr_iff

lemma res_ok_iff: "res_ok r \<longleftrightarrow> (\<exists>a. r = Inr a)"
  by (cases r) auto

lemma collect_res_eq_Inr_iff:
  "collect_res f xs = Inr ys \<longleftrightarrow> list_all2 (\<lambda>x y. f x = Inr y) xs ys"
  by (induction xs arbitrary: ys) (auto simp: res_iffs list_all2_Cons1)

lemma list_all2_member: "list_all2 P xs ys \<Longrightarrow> y \<in> set ys \<Longrightarrow> \<exists>x\<in>set xs. P x y"
  by (induction rule: list_all2_induct) auto

text \<open>\<open>iter().last()\<close> and its kin: the last element, if any.\<close>

definition last_opt :: "'a list \<Rightarrow> 'a option" where
  "last_opt xs = (if xs = [] then None else Some (last xs))"

lemma last_opt_simps [simp]:
  "last_opt [] = None"
  "last_opt (xs @ [x]) = Some x"
  by (simp_all add: last_opt_def)

lemma last_opt_eq_Some_iff: "last_opt xs = Some x \<longleftrightarrow> xs \<noteq> [] \<and> last xs = x"
  by (auto simp: last_opt_def)

lemma last_opt_eq_None_iff: "last_opt xs = None \<longleftrightarrow> xs = []"
  by (auto simp: last_opt_def)

text \<open>\<open>Iterator::find_map\<close>\<close>

fun find_map :: "('a \<Rightarrow> 'b option) \<Rightarrow> 'a list \<Rightarrow> 'b option" where
  "find_map f [] = None"
| "find_map f (x # xs) = (case f x of None \<Rightarrow> find_map f xs | Some y \<Rightarrow> Some y)"

lemma find_map_cong [fundef_cong]:
  "xs = ys \<Longrightarrow> (\<And>x. x \<in> set ys \<Longrightarrow> f x = g x) \<Longrightarrow> find_map f xs = find_map g ys"
  by (induction ys arbitrary: xs) (auto split: option.splits)

lemma find_map_eq_None_iff: "find_map f xs = None \<longleftrightarrow> (\<forall>x\<in>set xs. f x = None)"
  by (induction xs) (auto split: option.splits)

lemma find_map_SomeD: "find_map f xs = Some y \<Longrightarrow> \<exists>x\<in>set xs. f x = Some y"
  by (induction xs) (auto split: option.splits)

lemma list_all_butlast_last: "xs \<noteq> [] \<Longrightarrow> list_all P xs \<longleftrightarrow> list_all P (butlast xs) \<and> P (last xs)"
  by (induction xs) auto

lemma list_all_butlast: "list_all P xs \<Longrightarrow> list_all P (butlast xs)"
  by (auto simp: list_all_iff dest: in_set_butlastD)

section \<open>Machines that consume their input one symbol at a time\<close>

text \<open>
  A component that is fed a stream in pieces of any size: \<open>step\<close> consumes one symbol and may
  fail, \<open>run\<close> consumes a piece and stops at the first failure, keeping the state it had then.
  The client's view does not depend on how the stream was cut (\<open>run_append\<close>), and what every
  step keeps, every run keeps.
\<close>

locale symbol_machine =
  fixes step :: "'s \<Rightarrow> 'c \<Rightarrow> 's \<times> ('e + unit)"
    and run :: "'s \<Rightarrow> 'c list \<Rightarrow> 's \<times> ('e + unit)"
  assumes run_Nil: "run s [] = (s, Inr ())"
    and run_Cons: "run s (c # cs) =
      (case step s c of (s', Inl e) \<Rightarrow> (s', Inl e) | (s', Inr _) \<Rightarrow> run s' cs)"
begin

lemma run_append:
  "run s (xs @ ys) = (case run s xs of (s', Inl e) \<Rightarrow> (s', Inl e) | (s', Inr _) \<Rightarrow> run s' ys)"
  by (induction xs arbitrary: s) (auto simp: run_Nil run_Cons split: prod.splits sum.splits)

lemma run_invariant:
  assumes "\<And>s c. I s \<Longrightarrow> I (fst (step s c))"
  shows "I s \<Longrightarrow> I (fst (run s cs))"
proof (induction cs arbitrary: s)
  case Nil
  then show ?case by (simp add: run_Nil)
next
  case (Cons c cs)
  then show ?case using assms [OF Cons.prems, of c]
    by (auto simp: run_Cons split: prod.splits sum.splits)
qed

lemma run_concat:
  "run s (concat xss) =
     foldl (\<lambda>(s, r) xs. case r of Inl e \<Rightarrow> (s, Inl e) | Inr _ \<Rightarrow> run s xs) (s, Inr ()) xss"
proof (induction xss arbitrary: s)
  case Nil
  then show ?case by (simp add: run_Nil)
next
  case (Cons xs xss)
  have stuck: "foldl (\<lambda>(s, r) xs. case r of Inl e \<Rightarrow> (s, Inl e) | Inr _ \<Rightarrow> run s xs) (t, Inl e) yss
      = (t, Inl e)" for t e yss
    by (induction yss) simp_all
  show ?case
    by (auto simp: run_append Cons.IH stuck split: prod.splits sum.splits)
qed

end

section \<open>Strings\<close>

type_synonym rchar = nat
type_synonym rstr = "nat list"

definition lit :: "string \<Rightarrow> rstr" where
  "lit s = map of_char s"

abbreviation (input) NL :: rchar where "NL \<equiv> 10"
abbreviation (input) CR :: rchar where "CR \<equiv> 13"
abbreviation (input) SP :: rchar where "SP \<equiv> 32"

text \<open>\<open>'{s}'\<close> in a format string.\<close>

definition quoted :: "rstr \<Rightarrow> rstr" where
  "quoted s = 39 # s @ [39]"

text \<open>\<open>char::is_whitespace\<close>: the Unicode property \<open>White_Space\<close>.\<close>

definition is_whitespace :: "rchar \<Rightarrow> bool" where
  "is_whitespace c \<longleftrightarrow>
     (9 \<le> c \<and> c \<le> 13) \<or> c = 32 \<or> c = 133 \<or> c = 160 \<or> c = 5760 \<or> (8192 \<le> c \<and> c \<le> 8202)
     \<or> c = 8232 \<or> c = 8233 \<or> c = 8239 \<or> c = 8287 \<or> c = 12288"

definition trim_start_matches :: "(rchar \<Rightarrow> bool) \<Rightarrow> rstr \<Rightarrow> rstr" where
  "trim_start_matches P s = dropWhile P s"

definition trim_end_matches :: "(rchar \<Rightarrow> bool) \<Rightarrow> rstr \<Rightarrow> rstr" where
  "trim_end_matches P s = rev (dropWhile P (rev s))"

definition trim_start :: "rstr \<Rightarrow> rstr" where
  "trim_start = trim_start_matches is_whitespace"

definition trim_end :: "rstr \<Rightarrow> rstr" where
  "trim_end = trim_end_matches is_whitespace"

definition trim :: "rstr \<Rightarrow> rstr" where
  "trim s = trim_end (trim_start s)"

definition starts_with :: "rstr \<Rightarrow> rstr \<Rightarrow> bool" where
  "starts_with s p \<longleftrightarrow> take (length p) s = p"

definition ends_with :: "rstr \<Rightarrow> rstr \<Rightarrow> bool" where
  "ends_with s p \<longleftrightarrow> length p \<le> length s \<and> drop (length s - length p) s = p"

definition strip_prefix :: "rstr \<Rightarrow> rstr \<Rightarrow> rstr option" where
  "strip_prefix s p = (if starts_with s p then Some (drop (length p) s) else None)"

definition strip_suffix :: "rstr \<Rightarrow> rstr \<Rightarrow> rstr option" where
  "strip_suffix s p = (if ends_with s p then Some (take (length s - length p) s) else None)"

text \<open>\<open>split(c)\<close> on a single character: one more piece than separators.\<close>

fun split_char :: "rchar \<Rightarrow> rstr \<Rightarrow> rstr list" where
  "split_char c [] = [[]]"
| "split_char c (x # xs) =
     (if x = c then [] # split_char c xs
      else case split_char c xs of [] \<Rightarrow> [[x]] | l # ls \<Rightarrow> (x # l) # ls)"

definition join :: "rstr \<Rightarrow> rstr list \<Rightarrow> rstr" where
  "join sep ls = (case ls of [] \<Rightarrow> [] | l # ls' \<Rightarrow> l @ concat (map (\<lambda>x. sep @ x) ls'))"

text \<open>
  \<open>str::lines\<close>: the pieces between line feeds, a final empty piece dropped, and one carriage
  return taken off each piece that a line feed ended.
\<close>

definition strip_cr :: "rstr \<Rightarrow> rstr" where
  "strip_cr s = (case strip_suffix s [CR] of Some t \<Rightarrow> t | None \<Rightarrow> s)"

definition str_lines :: "rstr \<Rightarrow> rstr list" where
  "str_lines s = (let ps = split_char NL s; body = map strip_cr (butlast ps) in
     if last ps = [] then body else body @ [last ps])"

text \<open>Further operations of \<open>str\<close> and \<open>char\<close>.\<close>

fun str_contains :: "rstr \<Rightarrow> rstr \<Rightarrow> bool" where
  "str_contains [] sub \<longleftrightarrow> sub = []"
| "str_contains (c # s) sub \<longleftrightarrow> starts_with (c # s) sub \<or> str_contains s sub"

definition split_once :: "rchar \<Rightarrow> rstr \<Rightarrow> (rstr \<times> rstr) option" where
  "split_once c s =
     (if c \<in> set s then Some (takeWhile (\<lambda>x. x \<noteq> c) s, tl (dropWhile (\<lambda>x. x \<noteq> c) s)) else None)"

definition rsplit_once :: "rchar \<Rightarrow> rstr \<Rightarrow> (rstr \<times> rstr) option" where
  "rsplit_once c s = map_option (\<lambda>(a, b). (rev b, rev a)) (split_once c (rev s))"

definition is_ascii_digit :: "rchar \<Rightarrow> bool" where
  "is_ascii_digit c \<longleftrightarrow> 48 \<le> c \<and> c \<le> 57"

definition ascii_lower_char :: "rchar \<Rightarrow> rchar" where
  "ascii_lower_char c = (if 65 \<le> c \<and> c \<le> 90 then c + 32 else c)"

text \<open>The decimal digits of a number.\<close>

fun nat_string :: "nat \<Rightarrow> rstr" where
  "nat_string n = (if n < 10 then [48 + n] else nat_string (n div 10) @ [48 + n mod 10])"

declare nat_string.simps [simp del]

definition to_ascii_lowercase :: "rstr \<Rightarrow> rstr" where
  "to_ascii_lowercase s = map ascii_lower_char s"

lemmas [str_simps] =
  lit_def trim_def trim_start_def trim_end_def trim_start_matches_def trim_end_matches_def
  is_whitespace_def strip_prefix_def strip_suffix_def starts_with_def ends_with_def join_def
  strip_cr_def str_lines_def

subsection \<open>Trimming\<close>

lemma rev_dropWhile_rev_Cons:
  "rev (dropWhile P (rev (x # xs))) =
     (if (\<forall>y\<in>set xs. P y) \<and> P x then [] else x # rev (dropWhile P (rev xs)))"
proof (cases "\<forall>y\<in>set xs. P y")
  case True
  then show ?thesis by (simp add: dropWhile_append)
next
  case False
  then obtain y where "y \<in> set (rev xs)" "\<not> P y" by auto
  then show ?thesis using False by (simp add: dropWhile_append1)
qed

lemma dropWhile_rev_commute:
  "rev (dropWhile P (rev (dropWhile P xs))) = dropWhile P (rev (dropWhile P (rev xs)))"
proof (induction xs)
  case Nil
  show ?case by simp
next
  case (Cons x xs)
  show ?case
  proof (cases "P x")
    case True
    then have "dropWhile P (x # xs) = dropWhile P xs" by simp
    moreover have "dropWhile P (rev (dropWhile P (rev (x # xs)))) = dropWhile P (rev (dropWhile P (rev xs)))"
    proof (cases "\<forall>y\<in>set xs. P y")
      case all: True
      then have "dropWhile P (rev xs) = []" by simp
      then show ?thesis using True all by (simp only: rev_dropWhile_rev_Cons) simp
    next
      case False
      then show ?thesis using True by (simp only: rev_dropWhile_rev_Cons) simp
    qed
    ultimately show ?thesis using Cons.IH by simp
  next
    case False
    then show ?thesis by (simp only: rev_dropWhile_rev_Cons) (simp add: dropWhile_append3)
  qed
qed

lemma trim_alt: "trim s = trim_start (trim_end s)"
  unfolding trim_def trim_start_def trim_end_def trim_start_matches_def trim_end_matches_def
  by (rule dropWhile_rev_commute)

lemma trim_end_eq_imp_trim_eq: "trim_end s = trim_end t \<Longrightarrow> trim s = trim t"
  by (simp add: trim_alt)

lemma strip_prefix_append [simp]: "strip_prefix (p @ s) p = Some s"
  by (simp add: strip_prefix_def starts_with_def)

lemma trim_end_last: "s \<noteq> [] \<Longrightarrow> \<not> is_whitespace (last s) \<Longrightarrow> trim_end s = s"
  by (induction s rule: rev_induct) (simp_all add: trim_end_def trim_end_matches_def)

lemma trim_start_hd: "s \<noteq> [] \<Longrightarrow> \<not> is_whitespace (hd s) \<Longrightarrow> trim_start s = s"
  by (cases s) (simp_all add: trim_start_def trim_start_matches_def)

lemma trim_both: "s \<noteq> [] \<Longrightarrow> \<not> is_whitespace (hd s) \<Longrightarrow> \<not> is_whitespace (last s) \<Longrightarrow> trim s = s"
  by (simp add: trim_def trim_start_hd trim_end_last)

lemma trim_end_Cons: "\<not> is_whitespace c \<Longrightarrow> \<exists>r. trim_end (c # s) = c # r"
  unfolding trim_end_def trim_end_matches_def by (simp only: rev_dropWhile_rev_Cons) auto

lemma trim_Cons: "\<not> is_whitespace c \<Longrightarrow> \<exists>r. trim (c # s) = c # r"
  using trim_end_Cons by (simp add: trim_def trim_start_hd)

lemma trim_end_SP_Cons: "trim_end (SP # s) = [] \<or> (\<exists>r. trim_end (SP # s) = SP # r)"
  unfolding trim_end_def trim_end_matches_def by (simp only: rev_dropWhile_rev_Cons) auto

lemma trim_idem: "trim (trim s) = trim s"
proof -
  have drop: "dropWhile P (dropWhile P xs) = dropWhile P xs" for P and xs :: rstr
    by (induction xs) auto
  have "trim_start (trim_start s) = trim_start s" "trim_end (trim_end t) = trim_end t" for t
    by (simp_all add: trim_start_def trim_start_matches_def trim_end_def trim_end_matches_def drop)
  then show ?thesis
    by (metis trim_alt trim_def)
qed

subsection \<open>Lines\<close>

lemma join_snoc: "join [NL] (ls @ [l]) = concat (map (\<lambda>l. l @ [NL]) ls) @ l"
proof (induction ls)
  case (Cons x xs)
  then show ?case by (cases xs) (simp_all add: join_def)
qed (simp add: join_def)

lemma split_char_nonempty [simp]: "split_char c s \<noteq> []"
  by (induction s) (auto split: list.splits)

lemma split_char_no_sep: "c \<notin> set s \<Longrightarrow> split_char c s = [s]"
  by (induction s) auto

lemma split_char_sep: "c \<notin> set s \<Longrightarrow> split_char c (s @ c # t) = s # split_char c t"
  by (induction s) auto

lemma split_char_members: "seg \<in> set (split_char c s) \<Longrightarrow> c \<notin> set seg"
  by (induction s arbitrary: seg) (auto split: list.splits if_splits)

lemma split_char_join_sep:
  "list_all (\<lambda>s. c \<notin> set s) ls \<Longrightarrow> ls \<noteq> [] \<Longrightarrow> split_char c (join [c] ls) = ls"
proof (induction ls)
  case (Cons l ls)
  then show ?case by (cases ls) (auto simp: join_def split_char_no_sep split_char_sep)
qed simp

lemma set_join: "set (join sep ls) \<subseteq> set sep \<union> \<Union> (set ` set ls)"
  by (cases ls) (auto simp: join_def)

lemma join_split_char: "join [c] (split_char c s) = s"
proof (induction s)
  case (Cons x s)
  then show ?case
    by (cases "split_char c s") (auto simp: join_def)
qed (simp add: join_def)

lemma split_char_subset: "seg \<in> set (split_char c s) \<Longrightarrow> set seg \<subseteq> set s"
  by (induction s arbitrary: seg) (fastforce split: list.splits if_splits)+

section \<open>Machine integers\<close>

text \<open>
  A \<open>usize\<close> is a natural number up to \<open>usize_max\<close>, the largest on a 64-bit target, where it
  is also \<open>u64::MAX\<close>. \<open>saturating_sub\<close> is subtraction on natural numbers.
\<close>

definition usize_max :: nat where
  "usize_max = 2 ^ 64 - 1"

definition saturating_add :: "nat \<Rightarrow> nat \<Rightarrow> nat" where
  "saturating_add a b = min usize_max (a + b)"

definition saturating_mul :: "nat \<Rightarrow> nat \<Rightarrow> nat" where
  "saturating_mul a b = min usize_max (a * b)"

lemma saturating_add_0_min [simp]: "saturating_add (min usize_max a) 0 = min usize_max a"
  by (simp add: saturating_add_def)

lemma saturating_add_min [simp]:
  "saturating_add (min usize_max a) b = min usize_max (a + b)"
  "saturating_add a (min usize_max b) = min usize_max (a + b)"
  by (auto simp: saturating_add_def min_def)

section \<open>The length of a string in bytes\<close>

type_synonym byte = nat

definition len_utf8 :: "rchar \<Rightarrow> nat" where
  "len_utf8 c = (if c < 128 then 1 else if c < 2048 then 2 else if c < 65536 then 3 else 4)"

definition str_len :: "rstr \<Rightarrow> nat" where
  "str_len s = sum_list (map len_utf8 s)"

text \<open>
  The two slices \<open>&s[..n]\<close> and \<open>&s[n..]\<close>, taken at a byte offset; the slice panics when the
  offset is past the end or inside a character.
\<close>

fun byte_split :: "rstr \<Rightarrow> nat \<Rightarrow> (rstr \<times> rstr) option" where
  "byte_split [] n = (if n = 0 then Some ([], []) else None)"
| "byte_split (c # s) n =
     (if n = 0 then Some ([], c # s)
      else if n < len_utf8 c then None
      else map_option (\<lambda>(a, b). (c # a, b)) (byte_split s (n - len_utf8 c)))"

lemma len_utf8_pos [simp]: "0 < len_utf8 c"
  by (simp add: len_utf8_def)

lemma str_len_simps [simp]:
  "str_len [] = 0"
  "str_len (c # s) = len_utf8 c + str_len s"
  "str_len (s @ t) = str_len s + str_len t"
  by (simp_all add: str_len_def)

lemma str_len_eq_0_iff [simp]: "str_len s = 0 \<longleftrightarrow> s = []"
  by (cases s) (simp_all add: len_utf8_def)

lemma byte_split_append [simp]: "byte_split (s @ t) (str_len s) = Some (s, t)"
proof (induction s)
  case Nil
  show ?case by (cases t) simp_all
next
  case (Cons c s)
  then show ?case using len_utf8_pos [of c] by simp
qed

lemma byte_split_all [simp]: "byte_split s (str_len s) = Some (s, [])"
  using byte_split_append [of s "[]"] by simp

end
