(* ===== verification/Patch_Parser.thy ===== *)
theory Patch_Parser
  imports Hexa_Prelude
begin

text \<open>
  Model of \<open>engine/apply-patch/src/parser.rs\<close> and \<open>engine/apply-patch/src/streaming_parser.rs\<close>:
  the data of a patch, the incremental parser with its state, and the entry points that check the
  boundaries of a patch text. Paths are the strings of the patch; the fields of the nested Rust
  struct \<open>StreamingParserState\<close> are fields of the parser record itself. An operation on
  \<open>&mut self\<close> that returns a \<open>Result\<close> gives the pair of the new state and the result.
\<close>

section \<open>Data\<close>

datatype parse_error = InvalidPatchError rstr | InvalidHunkError rstr nat

record update_file_chunk =
  change_context :: "rstr option"
  old_lines :: "rstr list"
  new_lines :: "rstr list"
  context_line_indices :: "(nat \<times> nat) list"
  is_end_of_file :: bool

datatype hunk =
    AddFile rstr rstr
  | DeleteFile rstr
  | UpdateFile rstr "rstr option" "update_file_chunk list"

fun hunk_path :: "hunk \<Rightarrow> rstr" where
  "hunk_path (AddFile path _) = path"
| "hunk_path (DeleteFile path) = path"
| "hunk_path (UpdateFile path (Some move_path) _) = move_path"
| "hunk_path (UpdateFile path None _) = path"

definition default_chunk :: update_file_chunk where
  "default_chunk = \<lparr>change_context = None, old_lines = [], new_lines = [],
     context_line_indices = [], is_end_of_file = False\<rparr>"

definition push_context_line :: "update_file_chunk \<Rightarrow> rstr \<Rightarrow> update_file_chunk" where
  "push_context_line c line = c\<lparr>
     context_line_indices := context_line_indices c @ [(length (old_lines c), length (new_lines c))],
     old_lines := old_lines c @ [line],
     new_lines := new_lines c @ [line]\<rparr>"

definition BEGIN_PATCH_MARKER :: rstr where "BEGIN_PATCH_MARKER = lit ''*** Begin Patch''"
definition END_PATCH_MARKER :: rstr where "END_PATCH_MARKER = lit ''*** End Patch''"
definition ADD_FILE_MARKER :: rstr where "ADD_FILE_MARKER = lit ''*** Add File: ''"
definition DELETE_FILE_MARKER :: rstr where "DELETE_FILE_MARKER = lit ''*** Delete File: ''"
definition UPDATE_FILE_MARKER :: rstr where "UPDATE_FILE_MARKER = lit ''*** Update File: ''"
definition MOVE_TO_MARKER :: rstr where "MOVE_TO_MARKER = lit ''*** Move to: ''"
definition EOF_MARKER :: rstr where "EOF_MARKER = lit ''*** End of File''"
definition CHANGE_CONTEXT_MARKER :: rstr where "CHANGE_CONTEXT_MARKER = lit ''@@ ''"
definition EMPTY_CHANGE_CONTEXT_MARKER :: rstr where "EMPTY_CHANGE_CONTEXT_MARKER = lit ''@@''"
definition ENVIRONMENT_ID_MARKER :: rstr where "ENVIRONMENT_ID_MARKER = lit ''*** Environment ID:''"

lemmas marker_defs =
  BEGIN_PATCH_MARKER_def END_PATCH_MARKER_def ADD_FILE_MARKER_def DELETE_FILE_MARKER_def
  UPDATE_FILE_MARKER_def MOVE_TO_MARKER_def EOF_MARKER_def CHANGE_CONTEXT_MARKER_def
  EMPTY_CHANGE_CONTEXT_MARKER_def ENVIRONMENT_ID_MARKER_def

datatype parser_mode =
    ModeNotStarted
  | ModeStartedPatch
  | ModeAddFile
  | ModeDeleteFile
  | ModeUpdateFile nat
  | ModeEndedPatch

record streaming_patch_parser =
  line_buffer :: rstr
  pmode :: parser_mode
  hunks :: "hunk list"
  environment_id :: "rstr option"
  line_number :: nat

definition new_parser :: streaming_patch_parser where
  "new_parser = \<lparr>line_buffer = [], pmode = ModeNotStarted, hunks = [], environment_id = None,
     line_number = 0\<rparr>"

section \<open>Error messages\<close>

definition first_line_message :: rstr where
  "first_line_message = lit ''The first line of the patch must be '' @ quoted BEGIN_PATCH_MARKER"

definition last_line_message :: rstr where
  "last_line_message = lit ''The last line of the patch must be '' @ quoted END_PATCH_MARKER"

definition invalid_header_message :: "rstr \<Rightarrow> rstr" where
  "invalid_header_message trimmed = quoted trimmed
     @ lit '' is not a valid hunk header. Valid hunk headers: ''
     @ quoted (lit ''*** Add File: {path}'') @ lit '', ''
     @ quoted (lit ''*** Delete File: {path}'') @ lit '', ''
     @ quoted (lit ''*** Update File: {path}'')"

definition unexpected_line_message :: "rstr \<Rightarrow> rstr" where
  "unexpected_line_message line =
     lit ''Unexpected line found in update hunk: '' @ quoted line
     @ lit ''. Every line should start with '' @ quoted [SP] @ lit '' (context line), ''
     @ quoted (lit ''+'') @ lit '' (added line), or '' @ quoted (lit ''-'') @ lit '' (removed line)''"

definition expected_context_message :: "rstr \<Rightarrow> rstr" where
  "expected_context_message line =
     lit ''Expected update hunk to start with a @@ context marker, got: '' @ quoted line"

definition no_lines_message :: rstr where
  "no_lines_message = lit ''Update hunk does not contain any lines''"

definition empty_update_message :: "rstr \<Rightarrow> rstr" where
  "empty_update_message path = lit ''Update file hunk for path '' @ quoted path @ lit '' is empty''"

section \<open>The incremental parser\<close>

text \<open>\<open>chunks.last().is_some_and(|chunk| chunk.old_lines.is_empty() && chunk.new_lines.is_empty())\<close>\<close>

definition last_chunk_empty :: "update_file_chunk list \<Rightarrow> bool" where
  "last_chunk_empty chunks \<longleftrightarrow>
     chunks \<noteq> [] \<and> old_lines (last chunks) = [] \<and> new_lines (last chunks) = []"

definition ensure_update_hunk_is_not_empty :: "streaming_patch_parser \<Rightarrow> rstr \<Rightarrow> parse_error + unit" where
  "ensure_update_hunk_is_not_empty p line =
     (case last_opt (hunks p) of
        Some (UpdateFile path _ chunks) \<Rightarrow>
          (case (chunks, pmode p) of
             ([], ModeUpdateFile hunk_line_number) \<Rightarrow>
               Inl (InvalidHunkError (empty_update_message path) hunk_line_number)
           | _ \<Rightarrow>
             if last_chunk_empty chunks then
               if line = END_PATCH_MARKER then Inl (InvalidHunkError no_lines_message (line_number p))
               else Inl (InvalidHunkError (unexpected_line_message line) (line_number p))
             else Inr ())
      | _ \<Rightarrow> Inr ())"

text \<open>
  \<open>self.ensure_update_hunk_is_not_empty(trimmed)?\<close>, then the rest of the branch, which ends in
  \<open>return Ok(true)\<close>.
\<close>

definition after_ensure ::
    "streaming_patch_parser \<Rightarrow> rstr \<Rightarrow> streaming_patch_parser \<Rightarrow> streaming_patch_parser \<times> (parse_error + bool)" where
  "after_ensure p trimmed p' =
     (case ensure_update_hunk_is_not_empty p trimmed of
        Inl e \<Rightarrow> (p, Inl e)
      | Inr _ \<Rightarrow> (p', Inr True))"

definition handle_environment_id ::
    "streaming_patch_parser \<Rightarrow> rstr \<Rightarrow> streaming_patch_parser \<times> (parse_error + bool)" where
  "handle_environment_id p rest =
     (if environment_id p \<noteq> None then
        (p, Inl (InvalidPatchError (lit ''apply_patch environment_id cannot be specified more than once'')))
      else if trim rest = [] then
        (p, Inl (InvalidPatchError (lit ''apply_patch environment_id cannot be empty'')))
      else (p\<lparr>environment_id := Some (trim rest)\<rparr>, Inr True))"

definition handle_hunk_headers_and_end_patch ::
    "streaming_patch_parser \<Rightarrow> rstr \<Rightarrow> streaming_patch_parser \<times> (parse_error + bool)" where
  "handle_hunk_headers_and_end_patch p trimmed =
     (case (if pmode p = ModeStartedPatch then strip_prefix trimmed ENVIRONMENT_ID_MARKER else None) of
        Some rest \<Rightarrow> handle_environment_id p rest
      | None \<Rightarrow>
        if trimmed = END_PATCH_MARKER then after_ensure p trimmed (p\<lparr>pmode := ModeEndedPatch\<rparr>)
        else case strip_prefix trimmed ADD_FILE_MARKER of
          Some path \<Rightarrow> after_ensure p trimmed
            (p\<lparr>hunks := hunks p @ [AddFile path []], pmode := ModeAddFile\<rparr>)
        | None \<Rightarrow>
        case strip_prefix trimmed DELETE_FILE_MARKER of
          Some path \<Rightarrow> after_ensure p trimmed
            (p\<lparr>hunks := hunks p @ [DeleteFile path], pmode := ModeDeleteFile\<rparr>)
        | None \<Rightarrow>
        case strip_prefix trimmed UPDATE_FILE_MARKER of
          Some path \<Rightarrow> after_ensure p trimmed
            (p\<lparr>hunks := hunks p @ [UpdateFile path None []], pmode := ModeUpdateFile (line_number p)\<rparr>)
        | None \<Rightarrow> (p, Inr False))"

text \<open>
  The chunk to extend: a fresh one when there is none (\<open>if chunks.is_empty() { chunks.push(...) }\<close>),
  then \<open>chunks.last_mut()\<close>.
\<close>

definition with_last_chunk ::
    "(update_file_chunk \<Rightarrow> update_file_chunk) \<Rightarrow> update_file_chunk list \<Rightarrow> update_file_chunk list" where
  "with_last_chunk f chunks =
     (let cs = (if chunks = [] then [default_chunk] else chunks) in butlast cs @ [f (last cs)])"

definition is_context_marker :: "rstr \<Rightarrow> bool" where
  "is_context_marker update_line \<longleftrightarrow>
     update_line = EMPTY_CHANGE_CONTEXT_MARKER \<or> starts_with update_line CHANGE_CONTEXT_MARKER"

text \<open>The lines of a chunk: blank, context, added and removed lines, and the two final errors.\<close>

definition chunk_line ::
    "nat \<Rightarrow> rstr \<Rightarrow> update_file_chunk list \<Rightarrow> parse_error + update_file_chunk list" where
  "chunk_line n line chunks =
     (if line = [] then Inr (with_last_chunk (\<lambda>c. push_context_line c []) chunks)
      else case strip_prefix line [SP] of
        Some l \<Rightarrow> Inr (with_last_chunk (\<lambda>c. push_context_line c l) chunks)
      | None \<Rightarrow>
      case strip_prefix line (lit ''+'') of
        Some l \<Rightarrow> Inr (with_last_chunk (\<lambda>c. c\<lparr>new_lines := new_lines c @ [l]\<rparr>) chunks)
      | None \<Rightarrow>
      case strip_prefix line (lit ''-'') of
        Some l \<Rightarrow> Inr (with_last_chunk (\<lambda>c. c\<lparr>old_lines := old_lines c @ [l]\<rparr>) chunks)
      | None \<Rightarrow>
        if chunks \<noteq> [] \<and> (old_lines (last chunks) \<noteq> [] \<or> new_lines (last chunks) \<noteq> [])
        then Inl (InvalidHunkError (expected_context_message line) n)
        else Inl (InvalidHunkError (unexpected_line_message line) n))"

text \<open>A line inside an update hunk: its effect on the hunk's destination and chunks.\<close>

definition update_hunk_line ::
    "nat \<Rightarrow> rstr \<Rightarrow> rstr option \<Rightarrow> update_file_chunk list
     \<Rightarrow> parse_error + (rstr option \<times> update_file_chunk list)" where
  "update_hunk_line n line move_path chunks =
     (let update_line = trim_end line; at_eof = (chunks \<noteq> [] \<and> is_end_of_file (last chunks)) in
      if at_eof \<and> update_line = [] then Inr (move_path, chunks)
      else if at_eof \<and> \<not> is_context_marker update_line then
        Inl (InvalidHunkError (expected_context_message line) n)
      else case (if chunks = [] \<and> move_path = None then strip_prefix update_line MOVE_TO_MARKER else None) of
        Some to \<Rightarrow> Inr (Some to, chunks)
      | None \<Rightarrow>
        if is_context_marker update_line \<and> last_chunk_empty chunks then
          Inl (InvalidHunkError (unexpected_line_message line) n)
        else if update_line = EMPTY_CHANGE_CONTEXT_MARKER then Inr (move_path, chunks @ [default_chunk])
        else case strip_prefix update_line CHANGE_CONTEXT_MARKER of
          Some ctx \<Rightarrow> Inr (move_path, chunks @ [default_chunk\<lparr>change_context := Some ctx\<rparr>])
        | None \<Rightarrow>
          if update_line = EOF_MARKER then
            if last_chunk_empty chunks then Inl (InvalidHunkError no_lines_message n)
            else if chunks = [] then Inr (move_path, chunks)
            else Inr (move_path, butlast chunks @ [(last chunks)\<lparr>is_end_of_file := True\<rparr>])
          else res_bind (chunk_line n line chunks) (\<lambda>cs. Inr (move_path, cs)))"

definition process_update_line ::
    "streaming_patch_parser \<Rightarrow> rstr \<Rightarrow> streaming_patch_parser \<times> (parse_error + unit)" where
  "process_update_line p line =
     (case handle_hunk_headers_and_end_patch p (trim_end line) of
        (p', Inl e) \<Rightarrow> (p', Inl e)
      | (p', Inr True) \<Rightarrow> (p', Inr ())
      | (p', Inr False) \<Rightarrow>
        (case last_opt (hunks p') of
           Some (UpdateFile path move_path chunks) \<Rightarrow>
             (case update_hunk_line (line_number p') line move_path chunks of
                Inl e \<Rightarrow> (p', Inl e)
              | Inr (move_path', chunks') \<Rightarrow>
                (p'\<lparr>hunks := butlast (hunks p') @ [UpdateFile path move_path' chunks']\<rparr>, Inr ()))
         | _ \<Rightarrow> (p', Inl (InvalidHunkError (unexpected_line_message line) (line_number p')))))"

text \<open>The modes that accept a header, \<open>fallback\<close> being what the mode does with any other line.\<close>

definition header_or ::
    "streaming_patch_parser \<Rightarrow> rstr \<Rightarrow> (streaming_patch_parser \<Rightarrow> streaming_patch_parser \<times> (parse_error + unit))
     \<Rightarrow> streaming_patch_parser \<times> (parse_error + unit)" where
  "header_or p trimmed fallback =
     (case handle_hunk_headers_and_end_patch p trimmed of
        (p', Inl e) \<Rightarrow> (p', Inl e)
      | (p', Inr True) \<Rightarrow> (p', Inr ())
      | (p', Inr False) \<Rightarrow> fallback p')"

definition invalid_header ::
    "rstr \<Rightarrow> streaming_patch_parser \<Rightarrow> streaming_patch_parser \<times> (parse_error + unit)" where
  "invalid_header trimmed p = (p, Inl (InvalidHunkError (invalid_header_message trimmed) (line_number p)))"

definition add_file_line ::
    "rstr \<Rightarrow> streaming_patch_parser \<Rightarrow> streaming_patch_parser \<times> (parse_error + unit)" where
  "add_file_line line p =
     (case (strip_prefix line (lit ''+''), last_opt (hunks p)) of
        (Some l, Some (AddFile path contents)) \<Rightarrow>
          (p\<lparr>hunks := butlast (hunks p) @ [AddFile path (contents @ l @ [NL])]\<rparr>, Inr ())
      | _ \<Rightarrow> invalid_header (trim line) p)"

definition process_line ::
    "streaming_patch_parser \<Rightarrow> rstr \<Rightarrow> streaming_patch_parser \<times> (parse_error + unit)" where
  "process_line p line =
     (let trimmed = trim line in
      case pmode p of
        ModeNotStarted \<Rightarrow>
          if trimmed = BEGIN_PATCH_MARKER then (p\<lparr>pmode := ModeStartedPatch\<rparr>, Inr ())
          else (p, Inl (InvalidPatchError first_line_message))
      | ModeStartedPatch \<Rightarrow> header_or p trimmed (invalid_header trimmed)
      | ModeAddFile \<Rightarrow> header_or p trimmed (add_file_line line)
      | ModeDeleteFile \<Rightarrow> header_or p trimmed (invalid_header trimmed)
      | ModeUpdateFile _ \<Rightarrow> process_update_line p line
      | ModeEndedPatch \<Rightarrow>
          if trimmed = [] then (p, Inr ()) else (p, Inl (InvalidPatchError last_line_message)))"

definition push_char ::
    "streaming_patch_parser \<Rightarrow> rchar \<Rightarrow> streaming_patch_parser \<times> (parse_error + unit)" where
  "push_char p ch =
     (if ch = NL then
        process_line (p\<lparr>line_buffer := [], line_number := line_number p + 1\<rparr>) (strip_cr (line_buffer p))
      else (p\<lparr>line_buffer := line_buffer p @ [ch]\<rparr>, Inr ()))"

fun push_chars ::
    "streaming_patch_parser \<Rightarrow> rstr \<Rightarrow> streaming_patch_parser \<times> (parse_error + unit)" where
  "push_chars p [] = (p, Inr ())"
| "push_chars p (ch # chs) =
     (case push_char p ch of (p', Inl e) \<Rightarrow> (p', Inl e) | (p', Inr _) \<Rightarrow> push_chars p' chs)"

definition push_delta ::
    "streaming_patch_parser \<Rightarrow> rstr \<Rightarrow> streaming_patch_parser \<times> (parse_error + hunk list)" where
  "push_delta p delta =
     (case push_chars p delta of (p', Inl e) \<Rightarrow> (p', Inl e) | (p', Inr _) \<Rightarrow> (p', Inr (hunks p')))"

text \<open>The last line when the text does not end in a line feed.\<close>

definition finish_line ::
    "streaming_patch_parser \<Rightarrow> streaming_patch_parser \<times> (parse_error + unit)" where
  "finish_line p =
     (if line_buffer p = [] then (p, Inr ())
      else
        let line = line_buffer p; p1 = p\<lparr>line_buffer := [], line_number := line_number p + 1\<rparr> in
        if trim line = END_PATCH_MARKER then
          (case ensure_update_hunk_is_not_empty p1 (trim line) of
             Inl e \<Rightarrow> (p1, Inl e)
           | Inr _ \<Rightarrow> (p1\<lparr>pmode := ModeEndedPatch\<rparr>, Inr ()))
        else process_line p1 line)"

definition finish ::
    "streaming_patch_parser \<Rightarrow> streaming_patch_parser \<times> (parse_error + hunk list)" where
  "finish p =
     (case finish_line p of
        (p', Inl e) \<Rightarrow> (p', Inl e)
      | (p', Inr _) \<Rightarrow>
        if pmode p' = ModeEndedPatch then (p', Inr (hunks p'))
        else (p', Inl (InvalidPatchError last_line_message)))"

section \<open>Whole patch texts\<close>

record apply_patch_args =
  patch :: rstr
  args_hunks :: "hunk list"
  workdir :: "rstr option"
  args_environment_id :: "rstr option"

definition check_start_and_end_lines_strict :: "rstr option \<Rightarrow> rstr option \<Rightarrow> parse_error + unit" where
  "check_start_and_end_lines_strict first_line last_line =
     (case (map_option trim first_line, map_option trim last_line) of
        (Some f, l) \<Rightarrow>
          if f = BEGIN_PATCH_MARKER \<and> l = Some END_PATCH_MARKER then Inr ()
          else if f \<noteq> BEGIN_PATCH_MARKER then Inl (InvalidPatchError first_line_message)
          else Inl (InvalidPatchError last_line_message)
      | (None, _) \<Rightarrow> Inl (InvalidPatchError last_line_message))"

definition check_patch_boundaries_strict :: "rstr list \<Rightarrow> parse_error + rstr list" where
  "check_patch_boundaries_strict ls =
     res_bind (check_start_and_end_lines_strict
        (case ls of [] \<Rightarrow> None | l # _ \<Rightarrow> Some l) (last_opt ls)) (\<lambda>_. Inr ls)"

definition check_patch_boundaries_lenient :: "rstr list \<Rightarrow> parse_error + rstr list" where
  "check_patch_boundaries_lenient original_lines =
     (case check_patch_boundaries_strict original_lines of
        Inr ls \<Rightarrow> Inr ls
      | Inl original_parse_error \<Rightarrow>
        (case original_lines of
           first # l # rest \<Rightarrow>
             if (first = lit ''<<EOF'' \<or> first = lit ''<<'' @ quoted (lit ''EOF'')
                 \<or> first = lit ''<<'' @ [34] @ lit ''EOF'' @ [34])
               \<and> ends_with (last original_lines) (lit ''EOF'') \<and> 4 \<le> length original_lines
             then check_patch_boundaries_strict (butlast (tl original_lines))
             else Inl original_parse_error
         | _ \<Rightarrow> Inl original_parse_error))"

datatype parse_mode = Strict | Lenient

definition parse_patch_text :: "rstr \<Rightarrow> parse_mode \<Rightarrow> parse_error + apply_patch_args" where
  "parse_patch_text txt mode =
     (let ls = str_lines (trim txt) in
      res_bind (case mode of Strict \<Rightarrow> check_patch_boundaries_strict ls
                           | Lenient \<Rightarrow> check_patch_boundaries_lenient ls) (\<lambda>patch_lines.
      let body = join [NL] patch_lines in
      case push_delta new_parser body of
        (p1, Inl e) \<Rightarrow> Inl e
      | (p1, Inr _) \<Rightarrow>
        (case finish p1 of
           (p2, Inl e) \<Rightarrow> Inl e
         | (p2, Inr hs) \<Rightarrow>
           Inr \<lparr>patch = body, args_hunks = hs, workdir = None, args_environment_id = environment_id p2\<rparr>)))"

definition parse_patch :: "rstr \<Rightarrow> parse_error + apply_patch_args" where
  "parse_patch txt = parse_patch_text txt Lenient"

section \<open>The stream of characters\<close>

interpretation patch_stream: symbol_machine push_char push_chars
  by unfold_locales simp_all

section \<open>Well-formed patches\<close>

text \<open>
  The context positions of a chunk increase strictly on both sides, stay in range, and name equal
  lines.
\<close>

definition wf_chunk :: "update_file_chunk \<Rightarrow> bool" where
  "wf_chunk c \<longleftrightarrow>
     sorted_wrt (\<lambda>(a, b) (a', b'). a < a' \<and> b < b') (context_line_indices c)
     \<and> list_all (\<lambda>(a, b). a < length (old_lines c) \<and> b < length (new_lines c)
          \<and> old_lines c ! a = new_lines c ! b) (context_line_indices c)"

definition chunk_nonempty :: "update_file_chunk \<Rightarrow> bool" where
  "chunk_nonempty c \<longleftrightarrow> old_lines c \<noteq> [] \<or> new_lines c \<noteq> []"

fun wf_hunk :: "hunk \<Rightarrow> bool" where
  "wf_hunk (UpdateFile _ _ cs) \<longleftrightarrow> cs \<noteq> [] \<and> list_all wf_chunk cs \<and> list_all chunk_nonempty cs"
| "wf_hunk _ \<longleftrightarrow> True"

text \<open>The hunk being read may still have no chunk, or an empty last chunk.\<close>

fun open_hunk :: "hunk \<Rightarrow> bool" where
  "open_hunk (UpdateFile _ _ cs) \<longleftrightarrow> list_all wf_chunk cs \<and> list_all chunk_nonempty (butlast cs)"
| "open_hunk _ \<longleftrightarrow> True"

fun mode_agrees :: "parser_mode \<Rightarrow> hunk list \<Rightarrow> bool" where
  "mode_agrees (ModeUpdateFile _) hs \<longleftrightarrow> (\<exists>path mv cs. last_opt hs = Some (UpdateFile path mv cs))"
| "mode_agrees ModeAddFile hs \<longleftrightarrow> (\<exists>path contents. last_opt hs = Some (AddFile path contents)) \<and> list_all wf_hunk hs"
| "mode_agrees _ hs \<longleftrightarrow> list_all wf_hunk hs"

definition parser_inv :: "streaming_patch_parser \<Rightarrow> bool" where
  "parser_inv p \<longleftrightarrow>
     list_all wf_hunk (butlast (hunks p)) \<and> list_all open_hunk (hunks p)
     \<and> mode_agrees (pmode p) (hunks p)"

lemma wf_hunk_open: "wf_hunk h \<Longrightarrow> open_hunk h"
  by (cases h) (auto simp: list_all_iff dest: in_set_butlastD)

lemma wf_chunk_default [simp]: "wf_chunk default_chunk" "wf_chunk (default_chunk\<lparr>change_context := ctx\<rparr>)"
  by (simp_all add: wf_chunk_def default_chunk_def)

lemma wf_chunk_push_context: "wf_chunk c \<Longrightarrow> wf_chunk (push_context_line c l)"
  by (auto simp: wf_chunk_def push_context_line_def sorted_wrt_append list_all_iff nth_append)

lemma wf_chunk_push_new: "wf_chunk c \<Longrightarrow> wf_chunk (c\<lparr>new_lines := new_lines c @ [l]\<rparr>)"
  by (auto simp: wf_chunk_def list_all_iff nth_append)

lemma wf_chunk_push_old: "wf_chunk c \<Longrightarrow> wf_chunk (c\<lparr>old_lines := old_lines c @ [l]\<rparr>)"
  by (auto simp: wf_chunk_def list_all_iff nth_append)

lemma wf_chunk_eof: "wf_chunk c \<Longrightarrow> wf_chunk (c\<lparr>is_end_of_file := b\<rparr>)"
  by (simp add: wf_chunk_def)

lemmas wf_chunk_intros = wf_chunk_push_context wf_chunk_push_new wf_chunk_push_old wf_chunk_eof

lemma all_chunks_nonempty:
  assumes "list_all chunk_nonempty (butlast chunks)" "\<not> last_chunk_empty chunks"
  shows "list_all chunk_nonempty chunks"
  using assms list_all_butlast_last [of chunks chunk_nonempty]
  by (cases "chunks = []") (auto simp: last_chunk_empty_def chunk_nonempty_def)

lemma with_last_chunk_open:
  assumes "list_all wf_chunk chunks" "list_all chunk_nonempty (butlast chunks)"
    and "\<And>c. wf_chunk c \<Longrightarrow> wf_chunk (f c)"
  shows "list_all wf_chunk (with_last_chunk f chunks)"
    "list_all chunk_nonempty (butlast (with_last_chunk f chunks))"
  using assms by (auto simp: with_last_chunk_def Let_def list_all_iff dest: in_set_butlastD)

lemma chunk_line_open:
  assumes "chunk_line n line chunks = Inr cs"
    and "list_all wf_chunk chunks" "list_all chunk_nonempty (butlast chunks)"
  shows "list_all wf_chunk cs \<and> list_all chunk_nonempty (butlast cs)"
  using assms by (auto simp: chunk_line_def wf_chunk_intros with_last_chunk_open
      split: if_splits option.splits)

lemma update_hunk_line_open:
  assumes "update_hunk_line n line mv chunks = Inr (mv', cs)"
    and "list_all wf_chunk chunks" "list_all chunk_nonempty (butlast chunks)"
  shows "list_all wf_chunk cs \<and> list_all chunk_nonempty (butlast cs)"
proof -
  have nonempty: "list_all chunk_nonempty chunks" if "\<not> last_chunk_empty chunks"
    using assms(3) that by (rule all_chunks_nonempty)
  have last_wf: "wf_chunk (last chunks)" "list_all wf_chunk (butlast chunks)" if "chunks \<noteq> []"
    using that assms(2) by (auto simp: list_all_iff dest: in_set_butlastD)
  show ?thesis
    using assms nonempty last_wf
    by (auto simp: update_hunk_line_def Let_def is_context_marker_def strip_prefix_def wf_chunk_eof
        res_iffs dest: chunk_line_open split: if_splits option.splits)
qed

lemma mode_agrees_wf: "mode_agrees m hs \<Longrightarrow> (\<And>n. m \<noteq> ModeUpdateFile n) \<Longrightarrow> list_all wf_hunk hs"
  by (cases m) auto

lemma ensure_wf:
  assumes "parser_inv p" "ensure_update_hunk_is_not_empty p line = Inr ()"
  shows "list_all wf_hunk (hunks p)"
proof (cases "\<exists>n. pmode p = ModeUpdateFile n")
  case True
  then obtain n path mv cs where m: "pmode p = ModeUpdateFile n"
    and l: "hunks p \<noteq> []" "last (hunks p) = UpdateFile path mv cs"
    using assms(1) by (auto simp: parser_inv_def last_opt_eq_Some_iff)
  have "cs \<noteq> []" "\<not> last_chunk_empty cs"
    using assms(2) m l
    by (auto simp: ensure_update_hunk_is_not_empty_def last_opt_def split: list.splits if_splits)
  moreover have "open_hunk (last (hunks p))" "list_all wf_hunk (butlast (hunks p))"
    using assms(1) list_all_butlast_last [OF l(1), of open_hunk] by (auto simp: parser_inv_def)
  ultimately show ?thesis
    using l by (simp add: list_all_butlast_last [OF l(1)] all_chunks_nonempty)
next
  case False
  then show ?thesis using assms(1) mode_agrees_wf by (auto simp: parser_inv_def)
qed

lemma parser_invI:
  assumes "list_all wf_hunk hs" "hunks p = hs" "mode_agrees (pmode p) hs"
  shows "parser_inv p"
  using assms by (auto simp: parser_inv_def list_all_iff wf_hunk_open dest: in_set_butlastD)

lemma parser_inv_new_hunk:
  assumes "list_all wf_hunk (hunks p)" "open_hunk h" "mode_agrees m (hunks p @ [h])"
  shows "parser_inv (p\<lparr>hunks := hunks p @ [h], pmode := m\<rparr>)"
  using assms by (auto simp: parser_inv_def list_all_iff wf_hunk_open)

lemma handle_environment_id_inv:
  "parser_inv p \<Longrightarrow> parser_inv (fst (handle_environment_id p rest))"
  by (simp add: handle_environment_id_def parser_inv_def)

lemma after_ensure_inv:
  assumes "parser_inv p" "list_all wf_hunk (hunks p) \<Longrightarrow> parser_inv p'"
  shows "parser_inv (fst (after_ensure p t p'))"
  using assms ensure_wf [OF assms(1), of t] by (auto simp: after_ensure_def split: sum.splits)

lemma handle_hunk_headers_inv:
  assumes "parser_inv p"
  shows "parser_inv (fst (handle_hunk_headers_and_end_patch p t))"
  unfolding handle_hunk_headers_and_end_patch_def
  by (auto intro!: after_ensure_inv handle_environment_id_inv parser_inv_new_hunk assms
      intro: parser_invI split: option.splits)

lemma handle_hunk_headers_False:
  "handle_hunk_headers_and_end_patch p t = (p', Inr False) \<Longrightarrow> p' = p"
  by (auto simp: handle_hunk_headers_and_end_patch_def after_ensure_def handle_environment_id_def
      split: option.splits if_splits sum.splits)

lemma header_or_inv:
  assumes "parser_inv p" "parser_inv (fst (f p))"
  shows "parser_inv (fst (header_or p t f))"
  using handle_hunk_headers_inv [OF assms(1), of t] handle_hunk_headers_False [of p t] assms(2)
  by (fastforce simp: header_or_def split: prod.splits sum.splits bool.splits)

lemma parser_inv_replace_last:
  assumes "parser_inv p" "hunks p \<noteq> []" "open_hunk h" "mode_agrees (pmode p) (butlast (hunks p) @ [h])"
  shows "parser_inv (p\<lparr>hunks := butlast (hunks p) @ [h]\<rparr>)"
  using assms by (auto simp: parser_inv_def list_all_iff dest: in_set_butlastD)

lemma add_file_line_inv:
  assumes "parser_inv p" "pmode p = ModeAddFile"
  shows "parser_inv (fst (add_file_line line p))"
proof -
  have "list_all wf_hunk (butlast (hunks p))" using assms by (simp add: parser_inv_def)
  then show ?thesis
    using assms by (auto simp: add_file_line_def invalid_header_def last_opt_eq_Some_iff
        intro!: parser_inv_replace_last split: option.splits hunk.splits)
qed

lemma process_update_line_inv:
  assumes "parser_inv p" "pmode p = ModeUpdateFile n"
  shows "parser_inv (fst (process_update_line p line))"
proof (cases "handle_hunk_headers_and_end_patch p (trim_end line)")
  case (Pair p' r)
  then have inv: "parser_inv p'" using handle_hunk_headers_inv [OF assms(1)] by (metis fst_conv)
  show ?thesis
  proof (cases "r = Inr False")
    case False
    then show ?thesis using Pair inv
      by (auto simp: process_update_line_def split: sum.splits bool.splits)
  next
    case True
    then have p': "p' = p" using Pair handle_hunk_headers_False by simp
    obtain path mv cs where l: "hunks p \<noteq> []" "last (hunks p) = UpdateFile path mv cs"
      using assms by (auto simp: parser_inv_def last_opt_eq_Some_iff)
    then have "open_hunk (UpdateFile path mv cs)"
      using assms(1) by (metis last_in_set list_all_iff parser_inv_def)
    then show ?thesis
      using Pair True p' l assms
      by (auto simp: process_update_line_def last_opt_def dest: update_hunk_line_open
          intro!: parser_inv_replace_last split: sum.splits)
  qed
qed

lemma process_line_inv:
  assumes "parser_inv p"
  shows "parser_inv (fst (process_line p line))"
proof (cases "pmode p")
  case ModeNotStarted
  then show ?thesis using assms by (auto simp: process_line_def Let_def parser_inv_def)
next
  case ModeAddFile
  then show ?thesis using assms by (simp add: process_line_def Let_def header_or_inv add_file_line_inv)
next
  case (ModeUpdateFile n)
  then show ?thesis using assms by (simp add: process_line_def Let_def process_update_line_inv)
qed (use assms in \<open>simp_all add: process_line_def Let_def header_or_inv invalid_header_def\<close>)

lemma parser_inv_cong: "parser_inv (p\<lparr>line_buffer := b, line_number := n\<rparr>) = parser_inv p"
  "parser_inv (p\<lparr>line_buffer := b\<rparr>) = parser_inv p"
  by (simp_all add: parser_inv_def)

lemma push_char_inv: "parser_inv p \<Longrightarrow> parser_inv (fst (push_char p ch))"
  by (simp add: push_char_def process_line_inv parser_inv_cong)

lemma push_chars_inv: "parser_inv p \<Longrightarrow> parser_inv (fst (push_chars p s))"
  by (rule patch_stream.run_invariant [where I = parser_inv]) (rule push_char_inv)

lemma finish_line_inv:
  assumes "parser_inv p"
  shows "parser_inv (fst (finish_line p))"
proof -
  have inv: "parser_inv (p\<lparr>line_buffer := [], line_number := line_number p + 1\<rparr>)"
    using assms by (simp add: parser_inv_cong)
  have "parser_inv (p\<lparr>line_buffer := [], line_number := line_number p + 1, pmode := ModeEndedPatch\<rparr>)"
    if "ensure_update_hunk_is_not_empty (p\<lparr>line_buffer := [], line_number := line_number p + 1\<rparr>) l = Inr ()" for l
    using ensure_wf [OF inv that] by (auto intro: parser_invI)
  then show ?thesis
    using assms process_line_inv [OF inv] inv
    by (auto simp: finish_line_def Let_def split: sum.splits)
qed

lemma finish_wf:
  assumes "parser_inv p" "finish p = (p', Inr hs)"
  shows "list_all wf_hunk hs"
  using assms finish_line_inv [OF assms(1)]
  by (auto simp: finish_def parser_inv_def split: prod.splits sum.splits if_splits)

lemma new_parser_inv: "parser_inv new_parser"
  by (simp add: parser_inv_def new_parser_def)

lemma parsed_hunks_wf:
  assumes "parse_patch_text txt mode = Inr args"
  shows "list_all wf_hunk (args_hunks args)"
proof -
  obtain ls where ls: "(case push_delta new_parser (join [NL] ls) of (p1, Inl e) \<Rightarrow> Inl e
      | (p1, Inr _) \<Rightarrow> (case finish p1 of (p2, Inl e) \<Rightarrow> Inl e
        | (p2, Inr hs) \<Rightarrow> Inr \<lparr>patch = join [NL] ls, args_hunks = hs, workdir = None,
            args_environment_id = environment_id p2\<rparr>)) = Inr args"
    using assms by (auto simp: parse_patch_text_def Let_def res_iffs)
  obtain p1 r1 where run: "push_chars new_parser (join [NL] ls) = (p1, r1)" by fastforce
  obtain p2 r2 where fin: "finish p1 = (p2, r2)" by fastforce
  obtain hs where "r2 = Inr hs" "args_hunks args = hs"
    using ls run fin by (cases r1; cases r2) (auto simp: push_delta_def)
  moreover have "parser_inv p1"
    using run push_chars_inv [OF new_parser_inv, of "join [NL] ls"] by simp
  ultimately show ?thesis using finish_wf fin by blast
qed

section \<open>A sample\<close>

definition sample_patch :: rstr where
  "sample_patch = join [NL] [lit ''*** Begin Patch'', lit ''*** Update File: f'', lit ''@@'',
     lit '' a'', lit ''-b'', lit ''+c'', lit ''*** End Patch'']"

definition sample_chunk :: update_file_chunk where
  "sample_chunk = \<lparr>change_context = None, old_lines = [lit ''a'', lit ''b''],
     new_lines = [lit ''a'', lit ''c''], context_line_indices = [(0, 0)], is_end_of_file = False\<rparr>"

lemma parse_sample_patch:
  "parse_patch_text sample_patch Lenient = Inr \<lparr>patch = sample_patch,
     args_hunks = [UpdateFile (lit ''f'') None [sample_chunk]], workdir = None, args_environment_id = None\<rparr>"
  by code_simp

section \<open>Properties\<close>

text \<open>
  The streaming parser does not depend on how the patch text is cut into deltas: feeding one
  piece and then the next gives the state and the result of feeding both at once, and an error in
  the first piece is the error of the whole.
\<close>

lemma push_delta_append:
  "push_delta p (xs @ ys) =
     (case push_delta p xs of (p1, Inl e) \<Rightarrow> (p1, Inl e) | (p1, Inr _) \<Rightarrow> push_delta p1 ys)"
  by (auto simp: push_delta_def patch_stream.run_append split: prod.splits sum.splits)

text \<open>
  C6. Every hunk that the parser returns is well formed: an update has at least one chunk, no
  chunk is empty, and the context positions recorded for a chunk increase strictly in the old and
  the new lines and name equal lines of both.
\<close>

theorem parse_patch_text_wf:
  assumes "parse_patch_text txt mode = Inr args"
  shows "list_all wf_hunk (args_hunks args)"
  using assms by (rule parsed_hunks_wf)

theorem parse_patch_text_wf_witness: "list_all wf_hunk [UpdateFile (lit ''f'') None [sample_chunk]]"
  using parse_patch_text_wf [OF parse_sample_patch] by simp

end
