(* ===== verification/Patch_Grammar.thy ===== *)
theory Patch_Grammar
  imports Patch_Parser
begin

text \<open>
  The patch language that \<open>engine/apply-patch/src/parser.rs\<close> documents, as an abstract syntax with a
  rendering into lines and a meaning in terms of hunks, and the proof that the parser recovers the
  meaning of every rendered patch. The parser is followed line by line: reading the characters of
  a line and its line feed is one step \<open>push_line\<close>.
\<close>

section \<open>The grammar\<close>

datatype change_line = Ctx rstr | Ins rstr | Del rstr

record change_section =
  section_context :: "rstr option"
  section_lines :: "change_line list"
  section_eof :: bool

datatype patch_item =
    Add rstr "rstr list"
  | Delete rstr
  | Update rstr "rstr option" "change_section list"

record patch_ast =
  ast_environment :: "rstr option"
  ast_items :: "patch_item list"

fun render_change :: "change_line \<Rightarrow> rstr" where
  "render_change (Ctx l) = SP # l"
| "render_change (Ins l) = lit ''+'' @ l"
| "render_change (Del l) = lit ''-'' @ l"

definition render_section :: "change_section \<Rightarrow> rstr list" where
  "render_section s =
     [case section_context s of None \<Rightarrow> EMPTY_CHANGE_CONTEXT_MARKER | Some c \<Rightarrow> CHANGE_CONTEXT_MARKER @ c]
     @ map render_change (section_lines s)
     @ (if section_eof s then [EOF_MARKER] else [])"

fun render_item :: "patch_item \<Rightarrow> rstr list" where
  "render_item (Add path ls) = (ADD_FILE_MARKER @ path) # map (\<lambda>l. lit ''+'' @ l) ls"
| "render_item (Delete path) = [DELETE_FILE_MARKER @ path]"
| "render_item (Update path move_path ss) =
     (UPDATE_FILE_MARKER @ path)
     # (case move_path of None \<Rightarrow> [] | Some to \<Rightarrow> [MOVE_TO_MARKER @ to])
     @ concat (map render_section ss)"

definition render_body :: "patch_ast \<Rightarrow> rstr list" where
  "render_body a = BEGIN_PATCH_MARKER
     # (case ast_environment a of None \<Rightarrow> [] | Some i \<Rightarrow> [ENVIRONMENT_ID_MARKER @ SP # i])
     @ concat (map render_item (ast_items a))"

definition render_patch :: "patch_ast \<Rightarrow> rstr" where
  "render_patch a = join [NL] (render_body a @ [END_PATCH_MARKER])"

text \<open>What a patch means, without the parser.\<close>

definition old_side :: "change_line list \<Rightarrow> rstr list" where
  "old_side ls = concat (map (\<lambda>l. case l of Ctx t \<Rightarrow> [t] | Ins t \<Rightarrow> [] | Del t \<Rightarrow> [t]) ls)"

definition new_side :: "change_line list \<Rightarrow> rstr list" where
  "new_side ls = concat (map (\<lambda>l. case l of Ctx t \<Rightarrow> [t] | Ins t \<Rightarrow> [t] | Del t \<Rightarrow> []) ls)"

fun context_positions :: "nat \<Rightarrow> nat \<Rightarrow> change_line list \<Rightarrow> (nat \<times> nat) list" where
  "context_positions i j [] = []"
| "context_positions i j (Ctx t # ls) = (i, j) # context_positions (Suc i) (Suc j) ls"
| "context_positions i j (Ins t # ls) = context_positions i (Suc j) ls"
| "context_positions i j (Del t # ls) = context_positions (Suc i) j ls"

definition section_chunk :: "change_section \<Rightarrow> update_file_chunk" where
  "section_chunk s = \<lparr>change_context = section_context s,
     old_lines = old_side (section_lines s), new_lines = new_side (section_lines s),
     context_line_indices = context_positions 0 0 (section_lines s),
     is_end_of_file = section_eof s\<rparr>"

fun item_hunk :: "patch_item \<Rightarrow> hunk" where
  "item_hunk (Add path ls) = AddFile path (concat (map (\<lambda>l. l @ [NL]) ls))"
| "item_hunk (Delete path) = DeleteFile path"
| "item_hunk (Update path move_path ss) = UpdateFile path move_path (map section_chunk ss)"

text \<open>The texts that a line can carry, and the names that trimming leaves alone.\<close>

definition line_ok :: "rstr \<Rightarrow> bool" where
  "line_ok l \<longleftrightarrow> NL \<notin> set l \<and> (l = [] \<or> last l \<noteq> CR)"

definition name_ok :: "rstr \<Rightarrow> bool" where
  "name_ok s \<longleftrightarrow> s \<noteq> [] \<and> NL \<notin> set s \<and> \<not> is_whitespace (last s)"

fun change_ok :: "change_line \<Rightarrow> bool" where
  "change_ok (Ctx l) = line_ok l"
| "change_ok (Ins l) = line_ok l"
| "change_ok (Del l) = line_ok l"

definition section_ok :: "change_section \<Rightarrow> bool" where
  "section_ok s \<longleftrightarrow> section_lines s \<noteq> [] \<and> list_all change_ok (section_lines s)
     \<and> (case section_context s of None \<Rightarrow> True | Some c \<Rightarrow> name_ok c)"

fun item_ok :: "patch_item \<Rightarrow> bool" where
  "item_ok (Add path ls) \<longleftrightarrow> name_ok path \<and> list_all line_ok ls"
| "item_ok (Delete path) \<longleftrightarrow> name_ok path"
| "item_ok (Update path move_path ss) \<longleftrightarrow> name_ok path \<and> ss \<noteq> [] \<and> list_all section_ok ss
     \<and> (case move_path of None \<Rightarrow> True | Some to \<Rightarrow> name_ok to)"

definition ast_ok :: "patch_ast \<Rightarrow> bool" where
  "ast_ok a \<longleftrightarrow> list_all item_ok (ast_items a)
     \<and> (case ast_environment a of None \<Rightarrow> True | Some i \<Rightarrow> name_ok i \<and> \<not> is_whitespace (hd i))"

section \<open>The parser, line by line\<close>

definition push_line :: "streaming_patch_parser \<Rightarrow> rstr \<Rightarrow> streaming_patch_parser \<times> (parse_error + unit)" where
  "push_line p l = process_line (p\<lparr>line_number := line_number p + 1\<rparr>) l"

fun push_lines :: "streaming_patch_parser \<Rightarrow> rstr list \<Rightarrow> streaming_patch_parser \<times> (parse_error + unit)" where
  "push_lines p [] = (p, Inr ())"
| "push_lines p (l # ls) =
     (case push_line p l of (p', Inl e) \<Rightarrow> (p', Inl e) | (p', Inr _) \<Rightarrow> push_lines p' ls)"

interpretation patch_lines: symbol_machine push_line push_lines
  by unfold_locales simp_all

lemma push_lines_append_ok:
  "push_lines p xs = (p', Inr ()) \<Longrightarrow> push_lines p (xs @ ys) = push_lines p' ys"
  by (simp add: patch_lines.run_append)

lemma line_buffer_headers: "line_buffer (fst (handle_hunk_headers_and_end_patch p l)) = line_buffer p"
  by (auto simp: handle_hunk_headers_and_end_patch_def handle_environment_id_def after_ensure_def
      split: option.splits sum.splits)

lemma line_buffer_process_line: "line_buffer (fst (process_line p l)) = line_buffer p"
proof -
  have header: "line_buffer (fst (header_or p l' f)) = line_buffer p"
    if "\<And>p. line_buffer (fst (f p)) = line_buffer p" for l' f
    using that line_buffer_headers [of p l']
    by (auto simp: header_or_def split: prod.splits sum.splits bool.splits)
  have "line_buffer (fst (add_file_line l p)) = line_buffer p" for p
    by (auto simp: add_file_line_def invalid_header_def split: option.splits hunk.splits)
  moreover have "line_buffer (fst (process_update_line p l)) = line_buffer p"
    using line_buffer_headers [of p "trim_end l"]
    by (auto simp: process_update_line_def split: prod.splits sum.splits bool.splits option.splits hunk.splits)
  ultimately show ?thesis
    by (simp add: process_line_def Let_def header invalid_header_def split: parser_mode.splits)
qed

lemma push_chars_line:
  assumes "NL \<notin> set l"
  shows "push_chars p l = (p\<lparr>line_buffer := line_buffer p @ l\<rparr>, Inr ())"
  using assms by (induction l arbitrary: p) (simp_all add: push_char_def)

lemma strip_cr_ok: "l = [] \<or> last l \<noteq> CR \<Longrightarrow> strip_cr l = l"
  by (induction l rule: rev_induct) (simp_all add: strip_cr_def strip_suffix_def ends_with_def)

lemma line_buffer_reset: "line_buffer p = [] \<Longrightarrow> p\<lparr>line_buffer := [], line_number := n\<rparr> = p\<lparr>line_number := n\<rparr>"
  by (cases p) simp

lemma push_chars_terminated_line:
  assumes "line_ok l" "line_buffer p = []"
  shows "push_chars p (l @ NL # cs) = (case push_line p l of (p', Inl e) \<Rightarrow> (p', Inl e) | (p', Inr _) \<Rightarrow> push_chars p' cs)"
proof -
  have "push_char (p\<lparr>line_buffer := l\<rparr>) NL = push_line p l"
    using assms by (simp add: line_ok_def push_char_def push_line_def strip_cr_ok line_buffer_reset)
  then show ?thesis
    using assms by (simp add: patch_stream.run_append line_ok_def push_chars_line)
qed

lemma push_chars_lines:
  assumes "list_all line_ok ls" "line_buffer p = []"
  shows "push_chars p (concat (map (\<lambda>l. l @ [NL]) ls)) = push_lines p ls"
  using assms
proof (induction ls arbitrary: p)
  case (Cons l ls)
  have "line_buffer (fst (push_line p l)) = []"
    using Cons.prems line_buffer_process_line by (simp add: push_line_def)
  then show ?case
    using Cons by (auto simp: push_chars_terminated_line split: prod.splits sum.splits)
qed simp


section \<open>One line at a time\<close>

text \<open>The states between lines, and when a header is accepted.\<close>

definition pstate :: "parser_mode \<Rightarrow> hunk list \<Rightarrow> rstr option \<Rightarrow> nat \<Rightarrow> streaming_patch_parser" where
  "pstate md hs env n = \<lparr>line_buffer = [], pmode = md, hunks = hs, environment_id = env, line_number = n\<rparr>"

lemma pstate_simps [simp]:
  "line_buffer (pstate md hs env n) = []" "pmode (pstate md hs env n) = md"
  "hunks (pstate md hs env n) = hs" "environment_id (pstate md hs env n) = env"
  "line_number (pstate md hs env n) = n"
  "(pstate md hs env n)\<lparr>line_number := m\<rparr> = pstate md hs env m"
  "(pstate md hs env n)\<lparr>pmode := md'\<rparr> = pstate md' hs env n"
  "(pstate md hs env n)\<lparr>hunks := hs'\<rparr> = pstate md hs' env n"
  "(pstate md hs env n)\<lparr>environment_id := env'\<rparr> = pstate md hs env' n"
  by (simp_all add: pstate_def)

definition ready :: "parser_mode \<Rightarrow> hunk list \<Rightarrow> bool" where
  "ready md hs \<longleftrightarrow> md \<noteq> ModeNotStarted \<and> md \<noteq> ModeEndedPatch \<and> list_all wf_hunk hs"

lemma ready_ensure:
  assumes "ready md hs"
  shows "ensure_update_hunk_is_not_empty (pstate md hs env n) l = Inr ()"
proof (cases "last_opt hs")
  case (Some h)
  then have "wf_hunk h" using assms by (auto simp: ready_def list_all_iff last_opt_eq_Some_iff)
  then show ?thesis using Some
    by (auto simp: ensure_update_hunk_is_not_empty_def last_chunk_empty_def chunk_nonempty_def list_all_iff
        split: hunk.splits list.splits parser_mode.splits)
qed (simp add: ensure_update_hunk_is_not_empty_def)

lemma name_ok_header:
  assumes "name_ok s" "m \<noteq> []" "\<not> is_whitespace (hd m)"
  shows "trim (m @ s) = m @ s" "trim_end (m @ s) = m @ s"
  using assms by (auto simp: name_ok_def intro: trim_both trim_end_last)

lemma header_step:
  assumes "ready md hs" "trim l = l" "trim_end l = l"
    and "handle_hunk_headers_and_end_patch (pstate md hs env (n + 1)) l = (p', Inr True)"
  shows "push_line (pstate md hs env n) l = (p', Inr ())"
  using assms by (cases md) (simp_all add: push_line_def process_line_def process_update_line_def header_or_def ready_def)

lemma ready_after_ensure: "ready md hs \<Longrightarrow> after_ensure (pstate md hs env n) l p' = (p', Inr True)"
  by (simp add: after_ensure_def ready_ensure)

text \<open>No rendered header is taken for another.\<close>

lemma marker_distinct:
  "strip_prefix (ADD_FILE_MARKER @ s) ENVIRONMENT_ID_MARKER = None"
  "strip_prefix (DELETE_FILE_MARKER @ s) ENVIRONMENT_ID_MARKER = None"
  "strip_prefix (UPDATE_FILE_MARKER @ s) ENVIRONMENT_ID_MARKER = None"
  "strip_prefix END_PATCH_MARKER ENVIRONMENT_ID_MARKER = None"
  "ADD_FILE_MARKER @ s \<noteq> END_PATCH_MARKER"
  "DELETE_FILE_MARKER @ s \<noteq> END_PATCH_MARKER"
  "UPDATE_FILE_MARKER @ s \<noteq> END_PATCH_MARKER"
  "strip_prefix (DELETE_FILE_MARKER @ s) ADD_FILE_MARKER = None"
  "strip_prefix (UPDATE_FILE_MARKER @ s) ADD_FILE_MARKER = None"
  "strip_prefix (UPDATE_FILE_MARKER @ s) DELETE_FILE_MARKER = None"
  by (simp_all add: marker_defs str_simps)

lemma marker_start:
  "ADD_FILE_MARKER \<noteq> []" "DELETE_FILE_MARKER \<noteq> []" "UPDATE_FILE_MARKER \<noteq> []" "MOVE_TO_MARKER \<noteq> []"
  "CHANGE_CONTEXT_MARKER \<noteq> []" "ENVIRONMENT_ID_MARKER \<noteq> []"
  "\<not> is_whitespace (hd ADD_FILE_MARKER)" "\<not> is_whitespace (hd DELETE_FILE_MARKER)"
  "\<not> is_whitespace (hd UPDATE_FILE_MARKER)" "\<not> is_whitespace (hd MOVE_TO_MARKER)"
  "\<not> is_whitespace (hd CHANGE_CONTEXT_MARKER)" "\<not> is_whitespace (hd ENVIRONMENT_ID_MARKER)"
  by (simp_all add: marker_defs str_simps)

lemma add_header:
  assumes "ready md hs" "name_ok path"
  shows "push_line (pstate md hs env n) (ADD_FILE_MARKER @ path)
    = (pstate ModeAddFile (hs @ [AddFile path []]) env (n + 1), Inr ())"
  by (rule header_step [OF assms(1) name_ok_header [OF assms(2)]])
    (use assms(1) in \<open>auto simp: marker_start handle_hunk_headers_and_end_patch_def marker_distinct ready_after_ensure\<close>)

lemma delete_header:
  assumes "ready md hs" "name_ok path"
  shows "push_line (pstate md hs env n) (DELETE_FILE_MARKER @ path)
    = (pstate ModeDeleteFile (hs @ [DeleteFile path]) env (n + 1), Inr ())"
  by (rule header_step [OF assms(1) name_ok_header [OF assms(2)]])
    (use assms(1) in \<open>auto simp: marker_start handle_hunk_headers_and_end_patch_def marker_distinct ready_after_ensure\<close>)

lemma update_header:
  assumes "ready md hs" "name_ok path"
  shows "push_line (pstate md hs env n) (UPDATE_FILE_MARKER @ path)
    = (pstate (ModeUpdateFile (n + 1)) (hs @ [UpdateFile path None []]) env (n + 1), Inr ())"
  by (rule header_step [OF assms(1) name_ok_header [OF assms(2)]])
    (use assms(1) in \<open>auto simp: marker_start handle_hunk_headers_and_end_patch_def marker_distinct ready_after_ensure\<close>)

text \<open>Added lines.\<close>

lemma plus_no_header:
  "handle_hunk_headers_and_end_patch p (lit ''+'' @ s) = (p, Inr False)"
  by (simp add: handle_hunk_headers_and_end_patch_def marker_defs str_simps)

lemma add_line_step:
  "push_line (pstate ModeAddFile (hs @ [AddFile path c]) env n) (lit ''+'' @ l)
   = (pstate ModeAddFile (hs @ [AddFile path (c @ l @ [NL])]) env (n + 1), Inr ())"
proof -
  obtain r where "trim (lit ''+'' @ l) = lit ''+'' @ r"
    using trim_Cons [of 43 l] by (auto simp: str_simps)
  then show ?thesis
    by (simp add: push_line_def process_line_def header_or_def plus_no_header add_file_line_def)
qed

lemma add_lines_run:
  "push_lines (pstate ModeAddFile (hs @ [AddFile path c]) env n) (map (\<lambda>l. lit ''+'' @ l) ls)
   = (pstate ModeAddFile (hs @ [AddFile path (c @ concat (map (\<lambda>l. l @ [NL]) ls))]) env (n + length ls), Inr ())"
  by (induction ls arbitrary: c n) (simp_all add: add_line_step)

text \<open>Lines of an update hunk that are no header.\<close>

definition no_header :: "rstr \<Rightarrow> bool" where
  "no_header l \<longleftrightarrow> (\<forall>p. pmode p \<noteq> ModeStartedPatch \<longrightarrow> handle_hunk_headers_and_end_patch p l = (p, Inr False))"

lemma update_line_step:
  assumes "no_header (trim_end l)" "update_hunk_line (n + 1) l mv cs = Inr (mv', cs')"
  shows "push_line (pstate (ModeUpdateFile k) (hs @ [UpdateFile path mv cs]) env n) l
    = (pstate (ModeUpdateFile k) (hs @ [UpdateFile path mv' cs']) env (n + 1), Inr ())"
  using assms by (simp add: no_header_def push_line_def process_line_def process_update_line_def)

lemma no_header_simps:
  "no_header []" "no_header (SP # s)" "no_header (lit ''+'' @ s)" "no_header (lit ''-'' @ s)"
  "no_header EMPTY_CHANGE_CONTEXT_MARKER" "no_header (CHANGE_CONTEXT_MARKER @ s)" "no_header EOF_MARKER"
  "no_header (MOVE_TO_MARKER @ s)"
  by (simp_all add: no_header_def handle_hunk_headers_and_end_patch_def marker_defs str_simps)

section \<open>Update hunks\<close>

definition partial_chunk :: "rstr option \<Rightarrow> change_line list \<Rightarrow> update_file_chunk" where
  "partial_chunk ctx ls = \<lparr>change_context = ctx, old_lines = old_side ls, new_lines = new_side ls,
     context_line_indices = context_positions 0 0 ls, is_end_of_file = False\<rparr>"

lemma side_simps [simp]:
  "old_side [] = []" "new_side [] = []"
  "old_side (xs @ ys) = old_side xs @ old_side ys" "new_side (xs @ ys) = new_side xs @ new_side ys"
  "old_side [Ctx t] = [t]" "old_side [Ins t] = []" "old_side [Del t] = [t]"
  "new_side [Ctx t] = [t]" "new_side [Ins t] = [t]" "new_side [Del t] = []"
  by (simp_all add: old_side_def new_side_def)

lemma side_Cons:
  "old_side (l # ls) = old_side [l] @ old_side ls" "new_side (l # ls) = new_side [l] @ new_side ls"
  by (simp_all add: old_side_def new_side_def)

lemma context_positions_snoc:
  "context_positions i j (ls @ [l]) = context_positions i j ls
     @ (case l of Ctx t \<Rightarrow> [(i + length (old_side ls), j + length (new_side ls))] | _ \<Rightarrow> [])"
proof (induction i j ls rule: context_positions.induct)
  case (1 i j)
  then show ?case by (cases l) simp_all
next
  case (2 i j t ls)
  then show ?case by (cases l) (simp_all add: side_Cons [of "Ctx t"])
next
  case (3 i j t ls)
  then show ?case by (cases l) (simp_all add: side_Cons [of "Ins t"])
next
  case (4 i j t ls)
  then show ?case by (cases l) (simp_all add: side_Cons [of "Del t"])
qed

lemma partial_chunk_snoc:
  "push_context_line (partial_chunk ctx ls) t = partial_chunk ctx (ls @ [Ctx t])"
  "(partial_chunk ctx ls)\<lparr>new_lines := new_lines (partial_chunk ctx ls) @ [t]\<rparr> = partial_chunk ctx (ls @ [Ins t])"
  "(partial_chunk ctx ls)\<lparr>old_lines := old_lines (partial_chunk ctx ls) @ [t]\<rparr> = partial_chunk ctx (ls @ [Del t])"
  by (simp_all add: partial_chunk_def push_context_line_def context_positions_snoc)

lemma with_last_chunk_snoc [simp]: "with_last_chunk f (cs @ [c]) = cs @ [f c]"
  by (simp add: with_last_chunk_def)

text \<open>A line that starts with a space, a plus or a minus sign is neither a marker nor blank for good.\<close>

definition change_start :: "rstr \<Rightarrow> bool" where
  "change_start u \<longleftrightarrow> u = [] \<or> hd u = SP \<or> hd u = 43 \<or> hd u = 45"

lemma change_start_facts:
  assumes "change_start u"
  shows "no_header u" "\<not> is_context_marker u" "u \<noteq> EMPTY_CHANGE_CONTEXT_MARKER"
    "strip_prefix u CHANGE_CONTEXT_MARKER = None" "u \<noteq> EOF_MARKER"
  using assms
  by (cases u; auto simp: change_start_def no_header_def handle_hunk_headers_and_end_patch_def
      is_context_marker_def marker_defs str_simps)+

lemma change_start_render: "change_start (trim_end (render_change l))"
proof (cases l)
  case (Ctx t)
  then show ?thesis using trim_end_SP_Cons [of t] by (auto simp: change_start_def)
next
  case (Ins t)
  then show ?thesis using trim_end_Cons [of 43 t] by (auto simp: change_start_def str_simps)
next
  case (Del t)
  then show ?thesis using trim_end_Cons [of 45 t] by (auto simp: change_start_def str_simps)
qed

lemma chunk_line_render:
  "chunk_line n (render_change l) (cs @ [partial_chunk ctx ls]) = Inr (cs @ [partial_chunk ctx (ls @ [l])])"
proof -
  have "strip_prefix (SP # t) [SP] = Some t" "strip_prefix (lit ''+'' @ t) [SP] = None"
    "strip_prefix (lit ''-'' @ t) [SP] = None" "strip_prefix (lit ''-'' @ t) (lit ''+'') = None"
    "lit ''+'' @ t \<noteq> []" "lit ''-'' @ t \<noteq> []" for t
    by (simp_all add: str_simps)
  then show ?thesis by (cases l) (simp_all add: chunk_line_def partial_chunk_snoc del: append_is_Nil_conv)
qed

lemma update_hunk_line_render:
  "update_hunk_line n (render_change l) mv (cs @ [partial_chunk ctx ls])
     = Inr (mv, cs @ [partial_chunk ctx (ls @ [l])])"
proof -
  have "\<not> is_end_of_file (partial_chunk ctx ls)" by (simp add: partial_chunk_def)
  then show ?thesis
    using change_start_facts [OF change_start_render [of l]]
    by (simp add: update_hunk_line_def Let_def chunk_line_render)
qed

lemma change_lines_run:
  "push_lines (pstate (ModeUpdateFile k) (hs @ [UpdateFile path mv (cs @ [partial_chunk ctx ls])]) env n)
     (map render_change ls')
   = (pstate (ModeUpdateFile k) (hs @ [UpdateFile path mv (cs @ [partial_chunk ctx (ls @ ls')])]) env
       (n + length ls'), Inr ())"
proof (induction ls' arbitrary: ls n)
  case (Cons l ls')
  have "push_line (pstate (ModeUpdateFile k) (hs @ [UpdateFile path mv (cs @ [partial_chunk ctx ls])]) env n) (render_change l)
      = (pstate (ModeUpdateFile k) (hs @ [UpdateFile path mv (cs @ [partial_chunk ctx (ls @ [l])])]) env (n + 1), Inr ())"
    by (rule update_line_step) (simp_all add: change_start_facts change_start_render update_hunk_line_render)
  then show ?case using Cons.IH [of "ls @ [l]" "n + 1"] by simp
qed simp

lemma section_header_step:
  assumes "list_all chunk_nonempty cs" "case ctx of None \<Rightarrow> True | Some c \<Rightarrow> name_ok c"
    and l: "l = (case ctx of None \<Rightarrow> EMPTY_CHANGE_CONTEXT_MARKER | Some c \<Rightarrow> CHANGE_CONTEXT_MARKER @ c)"
  shows "push_line (pstate (ModeUpdateFile k) (hs @ [UpdateFile path mv cs]) env n) l
    = (pstate (ModeUpdateFile k) (hs @ [UpdateFile path mv (cs @ [partial_chunk ctx []])]) env (n + 1), Inr ())"
proof (rule update_line_step)
  have trim: "trim_end l = l"
    using assms(2) name_ok_header(2) [of _ CHANGE_CONTEXT_MARKER] marker_start
    by (cases ctx) (simp_all add: l, simp add: marker_defs str_simps)
  then show "no_header (trim_end l)" using no_header_simps by (simp add: l split: option.splits)
  have ne: "\<not> last_chunk_empty cs"
    using assms(1) by (auto simp: last_chunk_empty_def list_all_iff chunk_nonempty_def)
  have mark: "is_context_marker l" "l \<noteq> []" "strip_prefix l MOVE_TO_MARKER = None"
    by (auto simp: l is_context_marker_def marker_defs str_simps split: option.splits)
  have nil: "\<not> last_chunk_empty []" by (simp add: last_chunk_empty_def)
  show "update_hunk_line (n + 1) l mv cs = Inr (mv, cs @ [partial_chunk ctx []])"
  proof (cases ctx)
    case None
    then show ?thesis using trim ne nil mark
      by (simp add: update_hunk_line_def Let_def l partial_chunk_def default_chunk_def)
  next
    case (Some c)
    have "CHANGE_CONTEXT_MARKER @ c \<noteq> EMPTY_CHANGE_CONTEXT_MARKER" by (simp add: marker_defs str_simps)
    then show ?thesis using trim ne nil mark Some
      by (simp add: update_hunk_line_def Let_def l partial_chunk_def default_chunk_def)
  qed
qed

lemma eof_step:
  assumes "ls \<noteq> []"
  shows "push_line (pstate (ModeUpdateFile k) (hs @ [UpdateFile path mv (cs @ [partial_chunk ctx ls])]) env n) EOF_MARKER
    = (pstate (ModeUpdateFile k) (hs @ [UpdateFile path mv (cs @ [(partial_chunk ctx ls)\<lparr>is_end_of_file := True\<rparr>])]) env (n + 1), Inr ())"
proof (rule update_line_step)
  have trim: "trim_end EOF_MARKER = EOF_MARKER" by (simp add: marker_defs str_simps)
  then show "no_header (trim_end EOF_MARKER)" by (simp add: no_header_simps)
  obtain l ls' where "ls = l # ls'" using assms by (cases ls) auto
  then have "\<not> last_chunk_empty (cs @ [partial_chunk ctx ls])"
    by (cases l) (simp_all add: last_chunk_empty_def partial_chunk_def old_side_def new_side_def)
  moreover have "\<not> is_context_marker EOF_MARKER" "EOF_MARKER \<noteq> EMPTY_CHANGE_CONTEXT_MARKER"
    "strip_prefix EOF_MARKER CHANGE_CONTEXT_MARKER = None"
    by (simp_all add: is_context_marker_def marker_defs str_simps)
  moreover have "\<not> is_end_of_file (partial_chunk ctx ls)" by (simp add: partial_chunk_def)
  ultimately show "update_hunk_line (n + 1) EOF_MARKER mv (cs @ [partial_chunk ctx ls])
      = Inr (mv, cs @ [(partial_chunk ctx ls)\<lparr>is_end_of_file := True\<rparr>])"
    by (simp add: update_hunk_line_def Let_def trim)
qed

lemma section_run:
  assumes "list_all chunk_nonempty cs" "section_ok s"
  shows "push_lines (pstate (ModeUpdateFile k) (hs @ [UpdateFile path mv cs]) env n) (render_section s)
    = (pstate (ModeUpdateFile k) (hs @ [UpdateFile path mv (cs @ [section_chunk s])]) env
        (n + length (render_section s)), Inr ())"
proof -
  have head: "push_line (pstate (ModeUpdateFile k) (hs @ [UpdateFile path mv cs]) env n)
      (case section_context s of None \<Rightarrow> EMPTY_CHANGE_CONTEXT_MARKER | Some c \<Rightarrow> CHANGE_CONTEXT_MARKER @ c)
    = (pstate (ModeUpdateFile k) (hs @ [UpdateFile path mv (cs @ [partial_chunk (section_context s) []])]) env (n + 1), Inr ())"
    using assms by (intro section_header_step) (simp_all add: section_ok_def)
  have ne: "section_lines s \<noteq> []" using assms(2) by (simp add: section_ok_def)
  have full: "section_chunk s = (partial_chunk (section_context s) (section_lines s))\<lparr>is_end_of_file := section_eof s\<rparr>"
    by (simp add: section_chunk_def partial_chunk_def)
  show ?thesis
    using head eof_step [OF ne] change_lines_run [where ls = "[]"]
    by (cases "section_eof s") (simp_all add: render_section_def patch_lines.run_append full, simp add: partial_chunk_def)
qed

lemma section_chunk_nonempty: "section_ok s \<Longrightarrow> chunk_nonempty (section_chunk s)"
proof -
  assume "section_ok s"
  then obtain l ls where "section_lines s = l # ls" by (cases "section_lines s") (auto simp: section_ok_def)
  then show ?thesis
    by (cases l) (simp_all add: chunk_nonempty_def section_chunk_def old_side_def new_side_def)
qed

lemma sections_run:
  assumes "list_all chunk_nonempty cs" "list_all section_ok ss"
  shows "push_lines (pstate (ModeUpdateFile k) (hs @ [UpdateFile path mv cs]) env n) (concat (map render_section ss))
    = (pstate (ModeUpdateFile k) (hs @ [UpdateFile path mv (cs @ map section_chunk ss)]) env
        (n + length (concat (map render_section ss))), Inr ())"
  using assms
proof (induction ss arbitrary: cs n)
  case (Cons s ss)
  then show ?case
    using section_run [of cs s k hs path mv env n] Cons.IH [of "cs @ [section_chunk s]" "n + length (render_section s)"]
    by (simp add: patch_lines.run_append section_chunk_nonempty add.assoc)
qed simp

lemma move_step:
  assumes "name_ok to"
  shows "push_line (pstate (ModeUpdateFile k) (hs @ [UpdateFile path None []]) env n) (MOVE_TO_MARKER @ to)
    = (pstate (ModeUpdateFile k) (hs @ [UpdateFile path (Some to) []]) env (n + 1), Inr ())"
  by (rule update_line_step)
    (use name_ok_header(2) [OF assms, of MOVE_TO_MARKER] marker_start in
      \<open>simp_all add: no_header_simps update_hunk_line_def Let_def\<close>)

section \<open>Whole patches\<close>

lemma wf_partial_chunk: "wf_chunk (partial_chunk ctx ls)"
proof (induction ls rule: rev_induct)
  case Nil
  then show ?case by (simp add: partial_chunk_def wf_chunk_def)
next
  case (snoc l ls)
  then show ?case using wf_chunk_intros(1-3) [OF snoc]
    by (cases l) (simp_all only: partial_chunk_snoc)
qed

lemma wf_section_chunk: "wf_chunk (section_chunk s)"
  using wf_chunk_eof [OF wf_partial_chunk [of "section_context s" "section_lines s"], of "section_eof s"]
  by (simp add: section_chunk_def partial_chunk_def)

lemma wf_item_hunk: "item_ok it \<Longrightarrow> wf_hunk (item_hunk it)"
  by (cases it) (auto simp: list_all_iff wf_section_chunk section_chunk_nonempty)

lemma item_run:
  assumes "ready md hs" "item_ok it"
  shows "\<exists>md'. push_lines (pstate md hs env n) (render_item it)
      = (pstate md' (hs @ [item_hunk it]) env (n + length (render_item it)), Inr ())
    \<and> ready md' (hs @ [item_hunk it])"
proof -
  have wf: "list_all wf_hunk (hs @ [item_hunk it])" using assms wf_item_hunk by (simp add: ready_def)
  show ?thesis
  proof (cases it)
    case (Add path ls)
    then have "push_lines (pstate md hs env n) (render_item it)
        = (pstate ModeAddFile (hs @ [item_hunk it]) env (n + length (render_item it)), Inr ())"
      using assms add_lines_run [of hs path "[]"] by (simp add: add_header)
    then show ?thesis using wf by (auto simp: ready_def)
  next
    case (Delete path)
    then have "push_lines (pstate md hs env n) (render_item it)
        = (pstate ModeDeleteFile (hs @ [item_hunk it]) env (n + length (render_item it)), Inr ())"
      using assms by (simp add: delete_header)
    then show ?thesis using wf by (auto simp: ready_def)
  next
    case (Update path mv ss)
    then have ok: "name_ok path" "list_all section_ok ss" using assms(2) by auto
    have "push_lines (pstate md hs env n) (render_item it)
        = (pstate (ModeUpdateFile (n + 1)) (hs @ [item_hunk it]) env (n + length (render_item it)), Inr ())"
      using assms ok sections_run [OF _ ok(2), of "[]"]
      by (cases mv) (simp_all add: Update update_header move_step)
    then show ?thesis using wf by (auto simp: ready_def)
  qed
qed

lemma items_run:
  assumes "ready md hs" "list_all item_ok its"
  shows "\<exists>md'. push_lines (pstate md hs env n) (concat (map render_item its))
      = (pstate md' (hs @ map item_hunk its) env (n + length (concat (map render_item its))), Inr ())
    \<and> ready md' (hs @ map item_hunk its)"
  using assms
proof (induction its arbitrary: md hs n)
  case (Cons it its)
  then obtain md1 where one: "push_lines (pstate md hs env n) (render_item it)
      = (pstate md1 (hs @ [item_hunk it]) env (n + length (render_item it)), Inr ())" "ready md1 (hs @ [item_hunk it])"
    using item_run by force
  then show ?case
    using Cons.IH [OF one(2), of "n + length (render_item it)"] Cons.prems
    by (simp add: push_lines_append_ok [OF one(1)] add.assoc)
qed auto

lemma environment_step:
  assumes "name_ok i" "\<not> is_whitespace (hd i)"
  shows "push_line (pstate ModeStartedPatch hs None n) (ENVIRONMENT_ID_MARKER @ SP # i)
    = (pstate ModeStartedPatch hs (Some i) (n + 1), Inr ())"
proof -
  have "name_ok (SP # i)" using assms by (auto simp: name_ok_def)
  then have "trim (ENVIRONMENT_ID_MARKER @ SP # i) = ENVIRONMENT_ID_MARKER @ SP # i"
    by (rule name_ok_header) (simp_all add: marker_start)
  moreover have "trim (SP # i) = i"
  proof -
    have "trim_start (SP # i) = i"
      using assms by (cases i) (auto simp: name_ok_def trim_start_def trim_start_matches_def is_whitespace_def)
    then show ?thesis using assms by (simp add: trim_def trim_end_last name_ok_def)
  qed
  moreover have "i \<noteq> []" using assms by (simp add: name_ok_def)
  ultimately show ?thesis
    by (simp add: push_line_def process_line_def header_or_def handle_hunk_headers_and_end_patch_def
        handle_environment_id_def)
qed

lemma body_run:
  assumes "ast_ok a"
  shows "\<exists>md n. push_lines new_parser (render_body a)
      = (pstate md (map item_hunk (ast_items a)) (ast_environment a) n, Inr ())
    \<and> ready md (map item_hunk (ast_items a))"
proof -
  have new: "new_parser = pstate ModeNotStarted [] None 0" by (simp add: new_parser_def pstate_def)
  have begun: "push_line (pstate ModeNotStarted [] None 0) BEGIN_PATCH_MARKER = (pstate ModeStartedPatch [] None 1, Inr ())"
    by (simp add: push_line_def process_line_def) (simp add: marker_defs str_simps)
  have rdy: "ready ModeStartedPatch []" by (simp add: ready_def)
  have its: "list_all item_ok (ast_items a)" using assms by (simp add: ast_ok_def)
  show ?thesis
  proof (cases "ast_environment a")
    case None
    then show ?thesis using items_run [OF rdy its, of None 1] begun
      by (auto simp: render_body_def new)
  next
    case (Some i)
    then have "push_line (pstate ModeStartedPatch [] None 1) (ENVIRONMENT_ID_MARKER @ SP # i)
        = (pstate ModeStartedPatch [] (Some i) 2, Inr ())"
      using assms environment_step [of i "[]" 1] by (simp add: ast_ok_def numeral_2_eq_2)
    then show ?thesis using Some items_run [OF rdy its, of "Some i" 2] begun
      by (auto simp: render_body_def new)
  qed
qed

section \<open>Rendered lines\<close>

lemma is_whitespace_NL_CR: "is_whitespace NL" "is_whitespace CR"
  by (simp_all add: is_whitespace_def)

lemma line_ok_name: "name_ok s \<Longrightarrow> NL \<notin> set m \<Longrightarrow> line_ok (m @ s)"
  using is_whitespace_NL_CR by (auto simp: line_ok_def name_ok_def)

lemma line_ok_prefix: "line_ok l \<Longrightarrow> NL \<notin> set m \<Longrightarrow> m \<noteq> [] \<Longrightarrow> last m \<noteq> CR \<Longrightarrow> line_ok (m @ l)"
  by (auto simp: line_ok_def last_append)

lemma markers_line_ok:
  "line_ok BEGIN_PATCH_MARKER" "line_ok END_PATCH_MARKER" "line_ok EOF_MARKER" "line_ok EMPTY_CHANGE_CONTEXT_MARKER"
  "NL \<notin> set ADD_FILE_MARKER" "NL \<notin> set DELETE_FILE_MARKER" "NL \<notin> set UPDATE_FILE_MARKER"
  "NL \<notin> set MOVE_TO_MARKER" "NL \<notin> set CHANGE_CONTEXT_MARKER" "NL \<notin> set ENVIRONMENT_ID_MARKER"
  by (simp_all add: line_ok_def marker_defs str_simps)

lemma render_change_ok: "change_ok l \<Longrightarrow> line_ok (render_change l)"
  using line_ok_prefix [of _ "[SP]"] line_ok_prefix [of _ "lit ''+''"] line_ok_prefix [of _ "lit ''-''"]
  by (cases l) (auto simp: str_simps)

lemma render_section_ok: "section_ok s \<Longrightarrow> list_all line_ok (render_section s)"
  using markers_line_ok line_ok_name [of _ CHANGE_CONTEXT_MARKER]
  by (auto simp: render_section_def section_ok_def list_all_iff render_change_ok split: option.splits)

lemma render_item_ok: "item_ok it \<Longrightarrow> list_all line_ok (render_item it)"
proof (cases it)
  case (Add path ls)
  moreover have "line_ok l \<Longrightarrow> line_ok (lit ''+'' @ l)" for l by (rule line_ok_prefix) (simp_all add: str_simps)
  moreover assume "item_ok it"
  ultimately show ?thesis using markers_line_ok by (auto simp: list_all_iff line_ok_name)
next
  case (Delete path)
  moreover assume "item_ok it"
  ultimately show ?thesis using markers_line_ok by (simp add: line_ok_name)
next
  case (Update path mv ss)
  moreover assume "item_ok it"
  ultimately show ?thesis using markers_line_ok render_section_ok
    by (cases mv) (fastforce simp: list_all_iff line_ok_name)+
qed

lemma render_body_ok: "ast_ok a \<Longrightarrow> list_all line_ok (render_body a)"
proof -
  assume ok: "ast_ok a"
  have "name_ok i \<Longrightarrow> line_ok (ENVIRONMENT_ID_MARKER @ SP # i)" for i
    using line_ok_name [of i "ENVIRONMENT_ID_MARKER @ [SP]"] markers_line_ok by simp
  then show ?thesis using ok markers_line_ok render_item_ok
    by (cases "ast_environment a") (fastforce simp: render_body_def ast_ok_def list_all_iff)+
qed

section \<open>Splitting and joining lines\<close>

lemma split_char_join:
  "list_all line_ok (ls @ [l]) \<Longrightarrow> split_char NL (join [NL] (ls @ [l])) = ls @ [l]"
  unfolding join_snoc
  by (induction ls) (auto simp: line_ok_def split_char_sep split_char_no_sep)

lemma str_lines_join:
  assumes "list_all line_ok (ls @ [l])" "l \<noteq> []"
  shows "str_lines (join [NL] (ls @ [l])) = ls @ [l]"
proof -
  have "map strip_cr ls = ls"
    using assms(1) by (auto simp: line_ok_def list_all_iff strip_cr_ok intro!: map_idI)
  then show ?thesis using assms(2) by (simp add: str_lines_def Let_def split_char_join [OF assms(1)])
qed

section \<open>Properties\<close>

text \<open>
  C4. Every patch of the grammar is parsed to what it means: for an environment id, file names and
  sections that fit on their lines, parsing the rendered patch returns exactly the added, deleted
  and updated files, each section with its context, its old and its new lines, the positions of
  its context lines and its end-of-file mark.
\<close>

theorem parse_render_patch:
  assumes "ast_ok a"
  shows "parse_patch (render_patch a) = Inr \<lparr>patch = render_patch a,
    args_hunks = map item_hunk (ast_items a), workdir = None, args_environment_id = ast_environment a\<rparr>"
proof -
  let ?ls = "render_body a" let ?hs = "map item_hunk (ast_items a)"
  have ok: "list_all line_ok (?ls @ [END_PATCH_MARKER])"
    using render_body_ok [OF assms] markers_line_ok by simp
  obtain rest where first: "?ls = BEGIN_PATCH_MARKER # rest" by (simp add: render_body_def)
  have end_ne: "END_PATCH_MARKER \<noteq> []" "trim END_PATCH_MARKER = END_PATCH_MARKER"
      "trim BEGIN_PATCH_MARKER = BEGIN_PATCH_MARKER" "NL \<notin> set END_PATCH_MARKER"
    by (simp_all add: marker_defs str_simps)
  have trim: "trim (render_patch a) = render_patch a"
  proof (rule trim_both)
    show "render_patch a \<noteq> []" "\<not> is_whitespace (hd (render_patch a))"
      by (simp_all add: render_patch_def join_snoc first) (simp add: marker_defs str_simps)+
    show "\<not> is_whitespace (last (render_patch a))"
      by (simp add: render_patch_def join_snoc end_ne) (simp add: marker_defs str_simps)
  qed
  have lines: "str_lines (render_patch a) = ?ls @ [END_PATCH_MARKER]"
    unfolding render_patch_def by (rule str_lines_join [OF ok end_ne(1)])
  have bounds: "check_patch_boundaries_lenient (?ls @ [END_PATCH_MARKER]) = Inr (?ls @ [END_PATCH_MARKER])"
    by (simp add: check_patch_boundaries_lenient_def check_patch_boundaries_strict_def
        check_start_and_end_lines_strict_def first end_ne last_opt_def)
  obtain md n where run: "push_lines new_parser ?ls = (pstate md ?hs (ast_environment a) n, Inr ())" "ready md ?hs"
    using body_run [OF assms] by blast
  have pushed: "push_delta new_parser (render_patch a)
      = ((pstate md ?hs (ast_environment a) n)\<lparr>line_buffer := END_PATCH_MARKER\<rparr>, Inr ?hs)"
    using render_body_ok [OF assms] run(1) end_ne
    by (simp add: push_delta_def render_patch_def join_snoc patch_stream.run_append push_chars_lines
        new_parser_def [THEN arg_cong [of _ _ line_buffer]] push_chars_line)
  have finished: "finish ((pstate md ?hs (ast_environment a) n)\<lparr>line_buffer := END_PATCH_MARKER\<rparr>)
      = (pstate ModeEndedPatch ?hs (ast_environment a) (n + 1), Inr ?hs)"
    using ready_ensure [OF run(2), of "ast_environment a" "n + 1"] end_ne
    by (simp add: finish_def finish_line_def Let_def pstate_def)
  show ?thesis
    using trim lines bounds pushed finished
    by (simp add: parse_patch_def parse_patch_text_def Let_def render_patch_def)
qed

definition sample_ast :: patch_ast where
  "sample_ast = \<lparr>ast_environment = Some (lit ''remote''), ast_items =
     [Add (lit ''new.txt'') [lit ''x'', []],
      Update (lit ''f'') (Some (lit ''g''))
        [\<lparr>section_context = Some (lit ''fn main''), section_lines = [Ctx (lit ''a''), Del (lit ''b''), Ins (lit ''c'')],
          section_eof = True\<rparr>],
      Delete (lit ''old.txt'')]\<rparr>"

theorem parse_render_patch_witness:
  "parse_patch (render_patch sample_ast) = Inr \<lparr>patch = render_patch sample_ast,
    args_hunks = map item_hunk (ast_items sample_ast), workdir = None, args_environment_id = ast_environment sample_ast\<rparr>"
  by (rule parse_render_patch) code_simp

end
