(* ===== verification/Absolute_Path.thy ===== *)
theory Absolute_Path
  imports Hexa_Prelude
begin

text \<open>
  Model of \<open>engine/utils/absolute-path\<close> on Unix: \<open>AbsolutePathBuf\<close>, the lexical normalisation of
  \<open>absolutize.rs\<close>, home expansion, canonicalisation that preserves nested symbolic links, and the
  thread-local base used by deserialisation. A \<open>Path\<close> is the list of its components, which is
  what the standard library compares; \<open>path_of\<close> is \<open>Path::new(raw).components()\<close>. The home
  directory, the current directory, the file system's \<open>canonicalize\<close> and \<open>symlink_metadata\<close> are
  parameters.
\<close>

section \<open>Paths of the standard library\<close>

datatype component = RootDir | CurDir | ParentDir | Normal rstr

type_synonym path = "component list"

abbreviation (input) SLASH :: rchar where "SLASH \<equiv> 47"

definition segment_components :: "rstr \<Rightarrow> component list" where
  "segment_components s =
     (if s = [] \<or> s = lit ''.'' then [] else if s = lit ''..'' then [ParentDir] else [Normal s])"

definition path_of :: "rstr \<Rightarrow> path" where
  "path_of raw =
     (let segs = split_char SLASH raw in
      (if starts_with raw [SLASH] then [RootDir] else if hd segs = lit ''.'' then [CurDir] else [])
      @ concat (map segment_components segs))"

definition is_absolute :: "path \<Rightarrow> bool" where
  "is_absolute p \<longleftrightarrow> p \<noteq> [] \<and> hd p = RootDir"

definition parent :: "path \<Rightarrow> path option" where
  "parent p = (if p = [] \<or> last p = RootDir then None else Some (butlast p))"

definition pop_path :: "path \<Rightarrow> path" where
  "pop_path p = (case parent p of None \<Rightarrow> p | Some q \<Rightarrow> q)"

definition push_component :: "path \<Rightarrow> component \<Rightarrow> path" where
  "push_component p c = (if c = RootDir then [RootDir] else p @ [c])"

definition path_join :: "path \<Rightarrow> path \<Rightarrow> path" where
  "path_join base p =
     (if is_absolute p then p
      else if base = [] then p
      else base @ (if p \<noteq> [] \<and> hd p = CurDir then tl p else p))"

definition file_name :: "path \<Rightarrow> rstr option" where
  "file_name p = (case last_opt p of Some (Normal n) \<Rightarrow> Some n | _ \<Rightarrow> None)"

fun ancestors_upto :: "nat \<Rightarrow> path \<Rightarrow> path list" where
  "ancestors_upto 0 p = [p]"
| "ancestors_upto (Suc n) p = p # (case parent p of None \<Rightarrow> [] | Some q \<Rightarrow> ancestors_upto n q)"

text \<open>Each parent is one component shorter, so the length of the path bounds the chain.\<close>

definition ancestors :: "path \<Rightarrow> path list" where
  "ancestors p = ancestors_upto (length p) p"

fun component_str :: "component \<Rightarrow> rstr" where
  "component_str RootDir = [SLASH]"
| "component_str CurDir = lit ''.''"
| "component_str ParentDir = lit ''..''"
| "component_str (Normal n) = n"

definition path_string :: "path \<Rightarrow> rstr" where
  "path_string p =
     (if is_absolute p then [SLASH] @ join [SLASH] (map component_str (tl p))
      else join [SLASH] (map component_str p))"

section \<open>Normalisation\<close>

definition normalize_step :: "path \<Rightarrow> component \<Rightarrow> path" where
  "normalize_step normalized c =
     (case c of
        CurDir \<Rightarrow> normalized
      | ParentDir \<Rightarrow> pop_path normalized
      | _ \<Rightarrow> push_component normalized c)"

definition normalize_path :: "path \<Rightarrow> path" where
  "normalize_path p =
     (let normalized = foldl normalize_step [] p in if normalized = [] then [CurDir] else normalized)"

definition path_with_base :: "path \<Rightarrow> path \<Rightarrow> path" where
  "path_with_base p base = (if is_absolute p then p else path_join base p)"

definition absolutize_from :: "path \<Rightarrow> path \<Rightarrow> path" where
  "absolutize_from p base = normalize_path (path_with_base p base)"

definition absolutize :: "('e + path) \<Rightarrow> path \<Rightarrow> 'e + path" where
  "absolutize current_dir p =
     (if is_absolute p then Inr (normalize_path p)
      else res_bind current_dir (\<lambda>cwd. Inr (absolutize_from p cwd)))"

section \<open>Absolute paths\<close>

definition maybe_expand_home_directory :: "path option \<Rightarrow> rstr \<Rightarrow> path" where
  "maybe_expand_home_directory home_dir raw =
     (case (strip_prefix raw (lit ''~''), home_dir) of
        (Some rest, Some home) \<Rightarrow>
          if rest = [] then home
          else (case strip_prefix rest [SLASH] of
              Some r \<Rightarrow> path_join home (path_of (trim_start_matches (\<lambda>c. c = SLASH) r))
            | None \<Rightarrow> path_of raw)
      | _ \<Rightarrow> path_of raw)"

definition resolve_path_against_base :: "path option \<Rightarrow> rstr \<Rightarrow> path \<Rightarrow> path" where
  "resolve_path_against_base home_dir raw base = absolutize_from (maybe_expand_home_directory home_dir raw) base"

definition from_absolute_path :: "path option \<Rightarrow> ('e + path) \<Rightarrow> rstr \<Rightarrow> 'e + path" where
  "from_absolute_path home_dir current_dir raw = absolutize current_dir (maybe_expand_home_directory home_dir raw)"

definition from_absolute_path_checked :: "path option \<Rightarrow> rstr \<Rightarrow> rstr + path" where
  "from_absolute_path_checked home_dir raw =
     (let expanded = maybe_expand_home_directory home_dir raw in
      if \<not> is_absolute expanded then Inl (lit ''path is not absolute: '' @ raw)
      else Inr (absolutize_from expanded [RootDir]))"

section \<open>Canonicalisation\<close>

definition should_preserve_logical_path :: "(path \<Rightarrow> bool option) \<Rightarrow> path \<Rightarrow> bool" where
  "should_preserve_logical_path is_symlink logical =
     list_ex (\<lambda>ancestor. is_symlink ancestor = Some True
       \<and> (case parent ancestor of None \<Rightarrow> False | Some q \<Rightarrow> parent q \<noteq> None)) (ancestors logical)"

definition canonicalize_preserving_symlinks ::
    "(path \<Rightarrow> 'e + path) \<Rightarrow> (path \<Rightarrow> bool option) \<Rightarrow> path option \<Rightarrow> ('e + path) \<Rightarrow> rstr \<Rightarrow> 'e + path" where
  "canonicalize_preserving_symlinks canonicalize is_symlink home_dir current_dir raw =
     res_bind (from_absolute_path home_dir current_dir raw) (\<lambda>logical.
       case canonicalize (path_of raw) of
         Inr canonical \<Rightarrow>
           if should_preserve_logical_path is_symlink logical \<and> canonical \<noteq> logical
           then Inr logical else Inr canonical
       | Inl _ \<Rightarrow> Inr logical)"

definition canonicalize_existing_preserving_symlinks ::
    "(path \<Rightarrow> 'e + path) \<Rightarrow> (path \<Rightarrow> bool option) \<Rightarrow> path option \<Rightarrow> ('e + path) \<Rightarrow> rstr \<Rightarrow> 'e + path" where
  "canonicalize_existing_preserving_symlinks canonicalize is_symlink home_dir current_dir raw =
     res_bind (from_absolute_path home_dir current_dir raw) (\<lambda>logical.
     res_bind (canonicalize (path_of raw)) (\<lambda>canonical.
       if should_preserve_logical_path is_symlink logical \<and> canonical \<noteq> logical
       then Inr logical else Inr canonical))"

section \<open>Deserialisation\<close>

record absolute_path_cells =
  absolute_path_base :: "path option"
  absolute_path_home :: "path option"

definition guard_new :: "path \<Rightarrow> absolute_path_cells \<Rightarrow> absolute_path_cells" where
  "guard_new base cells = cells\<lparr>absolute_path_base := Some base\<rparr>"

definition guard_drop :: "absolute_path_cells \<Rightarrow> absolute_path_cells" where
  "guard_drop cells = cells\<lparr>absolute_path_base := None\<rparr>"

definition with_home_directory ::
    "path \<Rightarrow> (absolute_path_cells \<Rightarrow> 'a \<times> absolute_path_cells) \<Rightarrow> absolute_path_cells \<Rightarrow> 'a \<times> absolute_path_cells" where
  "with_home_directory home operation cells =
     (let previous_home = absolute_path_home cells;
          (result, cells') = operation (cells\<lparr>absolute_path_home := Some home\<rparr>) in
      (result, cells'\<lparr>absolute_path_home := previous_home\<rparr>))"

text \<open>\<open>system_home\<close> is \<open>dirs::home_dir()\<close>, used when the cell is empty; an error is \<open>None\<close>.\<close>

definition deserialize_absolute_path ::
    "path option \<Rightarrow> ('e + path) \<Rightarrow> absolute_path_cells \<Rightarrow> rstr \<Rightarrow> path option" where
  "deserialize_absolute_path system_home current_dir cells raw =
     (let home = (case absolute_path_home cells of Some h \<Rightarrow> Some h | None \<Rightarrow> system_home) in
      case absolute_path_base cells of
        Some base \<Rightarrow> Some (resolve_path_against_base home raw base)
      | None \<Rightarrow>
        if is_absolute (path_of raw) then
          (case from_absolute_path home current_dir raw of Inl _ \<Rightarrow> None | Inr p \<Rightarrow> Some p)
        else None)"

section \<open>Normal forms\<close>

text \<open>A normalised absolute path: the root and then only names.\<close>

definition is_name :: "component \<Rightarrow> bool" where
  "is_name c \<longleftrightarrow> (case c of Normal _ \<Rightarrow> True | _ \<Rightarrow> False)"

definition abs_normal :: "path \<Rightarrow> bool" where
  "abs_normal p \<longleftrightarrow> is_absolute p \<and> list_all is_name (tl p)"

lemma is_name_simps [simp]:
  "is_name (Normal n)" "\<not> is_name RootDir" "\<not> is_name CurDir" "\<not> is_name ParentDir"
  by (simp_all add: is_name_def)

lemma abs_normal_iff: "abs_normal p \<longleftrightarrow> (\<exists>ns. p = RootDir # ns \<and> list_all is_name ns)"
  by (cases p) (auto simp: abs_normal_def is_absolute_def)

lemma pop_path_root_Cons:
  "list_all is_name ns \<Longrightarrow> pop_path (RootDir # ns) = RootDir # butlast ns"
  by (cases ns rule: rev_cases) (auto simp: pop_path_def parent_def is_name_def list_all_iff)

lemma normalize_step_abs_normal:
  assumes "abs_normal p"
  shows "abs_normal (normalize_step p c)"
proof -
  obtain ns where "p = RootDir # ns" "list_all is_name ns" using assms abs_normal_iff by auto
  then show ?thesis
    by (cases c) (auto simp: normalize_step_def push_component_def pop_path_root_Cons abs_normal_iff list_all_butlast)
qed

lemma foldl_normalize_abs_normal: "abs_normal p \<Longrightarrow> abs_normal (foldl normalize_step p cs)"
  by (induction cs arbitrary: p) (simp_all add: normalize_step_abs_normal)

lemma normalize_path_abs_normal:
  assumes "is_absolute p"
  shows "abs_normal (normalize_path p)"
proof -
  obtain cs where p: "p = RootDir # cs" using assms by (cases p) (auto simp: is_absolute_def)
  have "abs_normal (foldl normalize_step [RootDir] cs)"
    by (rule foldl_normalize_abs_normal) (simp add: abs_normal_iff)
  then show ?thesis
    by (auto simp: normalize_path_def p normalize_step_def push_component_def abs_normal_iff)
qed

lemma path_join_absolute: "is_absolute base \<Longrightarrow> is_absolute (path_join base p)"
  by (auto simp: path_join_def is_absolute_def)

lemma absolutize_from_abs_normal: "is_absolute base \<Longrightarrow> abs_normal (absolutize_from p base)"
  by (auto simp: absolutize_from_def path_with_base_def intro: normalize_path_abs_normal path_join_absolute)

lemma foldl_normalize_names:
  "list_all is_name ns \<Longrightarrow> foldl normalize_step p ns = p @ ns"
proof (induction ns arbitrary: p)
  case (Cons n ns)
  then show ?case by (cases n) (auto simp: normalize_step_def push_component_def)
qed simp

lemma normalize_path_fixed: "abs_normal p \<Longrightarrow> normalize_path p = p"
  by (auto simp: abs_normal_iff normalize_path_def normalize_step_def push_component_def foldl_normalize_names)

section \<open>Staying under the base\<close>

text \<open>\<open>depth_ok d p\<close>: starting \<open>d\<close> levels below the base, \<open>p\<close> never climbs above it.\<close>

fun depth_ok :: "nat \<Rightarrow> path \<Rightarrow> bool" where
  "depth_ok d [] \<longleftrightarrow> True"
| "depth_ok d (RootDir # p) \<longleftrightarrow> False"
| "depth_ok d (CurDir # p) \<longleftrightarrow> depth_ok d p"
| "depth_ok d (ParentDir # p) \<longleftrightarrow> 0 < d \<and> depth_ok (d - 1) p"
| "depth_ok d (Normal n # p) \<longleftrightarrow> depth_ok (Suc d) p"

lemma foldl_normalize_under:
  assumes "list_all is_name ns" "abs_normal base" "depth_ok (length ns) p"
  shows "\<exists>ms. list_all is_name ms \<and> foldl normalize_step (base @ ns) p = base @ ms"
  using assms
proof (induction "length ns" p arbitrary: ns rule: depth_ok.induct)
  case (4 p)
  then obtain ms n where ns: "ns = ms @ [n]" by (cases ns rule: rev_cases) auto
  have "n \<noteq> RootDir" using 4 by (auto simp: ns)
  then have "pop_path (base @ ns) = base @ ms" by (simp add: pop_path_def parent_def ns butlast_append)
  then show ?case using 4 by (auto simp: normalize_step_def ns)
next
  case (5 n p)
  then show ?case using 5(1) [of "ns @ [Normal n]"] by (simp add: normalize_step_def push_component_def)
qed (auto simp: normalize_step_def)

lemma absolutize_from_under:
  assumes "abs_normal base" "depth_ok 0 p"
  shows "\<exists>ns. list_all is_name ns \<and> absolutize_from p base = base @ ns"
proof -
  have "p = [] \<or> hd p \<noteq> RootDir" using assms(2) by (cases "(0::nat, p)" rule: depth_ok.cases) auto
  then have rel: "\<not> is_absolute p" by (auto simp: is_absolute_def)
  define q where "q = (if p \<noteq> [] \<and> hd p = CurDir then tl p else p)"
  have q: "depth_ok 0 q" using assms(2) by (cases p) (auto simp: q_def)
  have ne: "base \<noteq> []" using assms(1) by (auto simp: abs_normal_iff)
  then have "path_with_base p base = base @ q" using rel by (simp add: path_with_base_def path_join_def q_def)
  moreover have "foldl normalize_step [] base = base"
    using normalize_path_fixed [OF assms(1)] assms(1)
    by (auto simp: abs_normal_iff normalize_step_def push_component_def foldl_normalize_names)
  moreover obtain ns where "list_all is_name ns" "foldl normalize_step (base @ []) q = base @ ns"
    using foldl_normalize_under [of "[]" base q] assms(1) q by auto
  ultimately show ?thesis using ne by (auto simp: absolutize_from_def normalize_path_def)
qed

section \<open>Printing and reading back\<close>

definition plain_name :: "component \<Rightarrow> bool" where
  "plain_name c \<longleftrightarrow> (case c of
     Normal n \<Rightarrow> n \<noteq> [] \<and> n \<noteq> lit ''.'' \<and> n \<noteq> lit ''..'' \<and> SLASH \<notin> set n
   | _ \<Rightarrow> False)"

lemma plain_name_no_slash: "plain_name c \<Longrightarrow> SLASH \<notin> set (component_str c)"
  by (cases c) (simp_all add: plain_name_def)

lemma plain_name_segment: "plain_name c \<Longrightarrow> segment_components (component_str c) = [c]"
  by (auto simp: plain_name_def segment_components_def split: component.splits)

lemma path_of_path_string:
  assumes "list_all plain_name ns"
  shows "path_of (path_string (RootDir # ns)) = RootDir # ns"
proof (cases "ns = []")
  case True
  have "path_of (path_string [RootDir]) = [RootDir]" by code_simp
  then show ?thesis by (simp add: True)
next
  case False
  have "split_char SLASH (join [SLASH] (map component_str ns)) = map component_str ns"
    using assms False by (intro split_char_join_sep) (simp_all add: list_all_iff plain_name_no_slash)
  moreover have "concat (map (segment_components \<circ> component_str) ns) = ns"
    using assms by (induction ns) (auto simp: plain_name_segment)
  ultimately show ?thesis
    by (simp add: path_of_def path_string_def is_absolute_def starts_with_def segment_components_def)
qed

text \<open>The names of a path that was read are plain, and normalising keeps them so.\<close>

lemma path_of_names: "Normal n \<in> set (path_of raw) \<Longrightarrow> plain_name (Normal n)"
  using split_char_members [of _ SLASH raw]
  by (auto simp: path_of_def Let_def segment_components_def plain_name_def split: if_splits)

lemma normalize_step_subset: "set (normalize_step p c) \<subseteq> set p \<union> {c}"
  by (auto simp: normalize_step_def push_component_def pop_path_def parent_def
      split: component.splits option.splits if_splits dest: in_set_butlastD)

lemma foldl_normalize_subset: "set (foldl normalize_step p cs) \<subseteq> set p \<union> set cs"
proof (induction cs arbitrary: p)
  case (Cons c cs)
  then show ?case using normalize_step_subset [of p c] by fastforce
qed simp

section \<open>Properties\<close>

text \<open>
  Resolving any path against an absolute base gives an absolute path in normal form, the root
  followed by names only, and normalising it again changes nothing: no current or parent
  directory component survives, even when there are more parent components than directories.
\<close>

lemma resolve_path_normal:
  assumes "is_absolute base"
  shows "abs_normal (resolve_path_against_base home_dir raw base)
    \<and> normalize_path (resolve_path_against_base home_dir raw base) = resolve_path_against_base home_dir raw base"
  using absolutize_from_abs_normal [OF assms]
  by (simp add: resolve_path_against_base_def normalize_path_fixed)

text \<open>
  C14. A path that does not start with a tilde and never climbs above its starting point is resolved
  below the base: the result is the base followed by names.
\<close>

theorem resolve_path_under_base:
  assumes "abs_normal base" "\<not> starts_with raw (lit ''~'')" "depth_ok 0 (path_of raw)"
  shows "\<exists>ns. list_all is_name ns \<and> resolve_path_against_base home_dir raw base = base @ ns"
  using absolutize_from_under [OF assms(1,3)] assms(2)
  by (simp add: resolve_path_against_base_def maybe_expand_home_directory_def strip_prefix_def)

theorem resolve_path_under_base_witness:
  "\<exists>ns. list_all is_name ns
    \<and> resolve_path_against_base None (lit ''a/../b//c'') [RootDir, Normal (lit ''w'')] = [RootDir, Normal (lit ''w'')] @ ns"
proof (rule resolve_path_under_base)
  show "\<not> starts_with (lit ''a/../b//c'') (lit ''~'')" by code_simp
  show "depth_ok 0 (path_of (lit ''a/../b//c''))" by code_simp
qed (simp add: abs_normal_iff)

text \<open>
  Printing an absolute path that was read from text and normalised, and reading it again,
  gives the same path.
\<close>

lemma absolute_path_round_trip:
  assumes "from_absolute_path None current_dir raw = Inr p" "is_absolute (path_of raw)"
  shows "path_of (path_string p) = p"
proof -
  have p: "p = normalize_path (path_of raw)"
    using assms by (auto simp: from_absolute_path_def absolutize_def maybe_expand_home_directory_def split: option.splits)
  obtain ns where ns: "p = RootDir # ns" "list_all is_name ns"
    using normalize_path_abs_normal [OF assms(2)] p by (auto simp: abs_normal_iff)
  have "set p \<subseteq> set (path_of raw)"
    using foldl_normalize_subset [of "[]" "path_of raw"] ns by (auto simp: p normalize_path_def Let_def split: if_splits)
  have "plain_name c" if c: "c \<in> set ns" for c
  proof -
    have "is_name c" using ns(2) c by (simp add: list_all_iff)
    then obtain n where n: "c = Normal n" by (cases c) auto
    then have "Normal n \<in> set (path_of raw)" using c ns(1) \<open>set p \<subseteq> set (path_of raw)\<close> by auto
    then show ?thesis unfolding n by (rule path_of_names)
  qed
  then have "list_all plain_name ns" by (simp add: list_all_iff)
  then show ?thesis using path_of_path_string ns(1) by simp
qed

end
