(* ===== verification/Exec_Rule.thy ===== *)
theory Exec_Rule
  imports Hexa_Prelude Absolute_Path
begin

text \<open>
  Model of \<open>engine/execpolicy/src/decision.rs\<close>, \<open>error.rs\<close>, \<open>executable_name.rs\<close> and the rules of
  \<open>rule.rs\<close>: decisions with their order, prefix patterns and what they match, network rules and
  the normalisation of their hosts. The errors about examples carry the rules themselves where
  the Rust values carry their debug text. \<open>RuleRef\<close> is a prefix rule, the only implementation of
  the trait.
\<close>

section \<open>Decisions\<close>

datatype decision = Allow | Prompt | Forbidden

fun decision_rank :: "decision \<Rightarrow> nat" where
  "decision_rank Allow = 0"
| "decision_rank Prompt = 1"
| "decision_rank Forbidden = 2"

text \<open>The derived order: later constructors are greater.\<close>

instantiation decision :: linorder
begin

definition less_eq_decision :: "decision \<Rightarrow> decision \<Rightarrow> bool" where
  "less_eq_decision a b \<longleftrightarrow> decision_rank a \<le> decision_rank b"

definition less_decision :: "decision \<Rightarrow> decision \<Rightarrow> bool" where
  "less_decision a b \<longleftrightarrow> decision_rank a < decision_rank b"

instance
proof
  fix x y :: decision
  show "x \<le> y \<Longrightarrow> y \<le> x \<Longrightarrow> x = y" by (cases x; cases y) (simp_all add: less_eq_decision_def)
qed (auto simp: less_eq_decision_def less_decision_def)

end

lemma decision_bounds [simp]: "Allow \<le> d" "d \<le> Forbidden"
  by (cases d; simp add: less_eq_decision_def)+

lemma Forbidden_le_iff [simp]: "Forbidden \<le> d \<longleftrightarrow> d = Forbidden"
  by (cases d) (simp_all add: less_eq_decision_def)

record text_position =
  pos_line :: nat
  pos_column :: nat

record text_range =
  range_start :: text_position
  range_end :: text_position

record error_location =
  location_path :: rstr
  location_range :: text_range

section \<open>Rules\<close>

datatype pattern_token = Single rstr | Alts "rstr list"

fun token_matches :: "pattern_token \<Rightarrow> rstr \<Rightarrow> bool" where
  "token_matches (Single expected) token \<longleftrightarrow> expected = token"
| "token_matches (Alts alts) token \<longleftrightarrow> list_ex (\<lambda>alt. alt = token) alts"

fun alternatives :: "pattern_token \<Rightarrow> rstr list" where
  "alternatives (Single expected) = [expected]"
| "alternatives (Alts alts) = alts"

record prefix_pattern =
  pattern_first :: rstr
  pattern_rest :: "pattern_token list"

definition matches_prefix :: "prefix_pattern \<Rightarrow> rstr list \<Rightarrow> rstr list option" where
  "matches_prefix p cmd =
     (let pattern_length = length (pattern_rest p) + 1 in
      if length cmd < pattern_length \<or> hd cmd \<noteq> pattern_first p then None
      else if list_all (\<lambda>(pt, ct). token_matches pt ct)
        (zip (pattern_rest p) (take (pattern_length - 1) (drop 1 cmd)))
      then Some (take pattern_length cmd) else None)"

datatype rule_match =
    PrefixRuleMatch (matched_prefix: "rstr list") (match_decision: decision)
      (resolved_program: "path option") (match_justification: "rstr option")
  | HeuristicsRuleMatch "rstr list" decision

fun rule_match_decision :: "rule_match \<Rightarrow> decision" where
  "rule_match_decision (PrefixRuleMatch _ d _ _) = d"
| "rule_match_decision (HeuristicsRuleMatch _ d) = d"

fun with_resolved_program :: "path \<Rightarrow> rule_match \<Rightarrow> rule_match" where
  "with_resolved_program program (PrefixRuleMatch m d _ j) = PrefixRuleMatch m d (Some program) j"
| "with_resolved_program program other = other"

record prefix_rule =
  rule_pattern :: prefix_pattern
  rule_decision :: decision
  rule_justification :: "rstr option"

definition program :: "prefix_rule \<Rightarrow> rstr" where
  "program r = pattern_first (rule_pattern r)"

definition rule_matches :: "prefix_rule \<Rightarrow> rstr list \<Rightarrow> rule_match option" where
  "rule_matches r cmd =
     map_option (\<lambda>m. PrefixRuleMatch m (rule_decision r) None (rule_justification r))
       (matches_prefix (rule_pattern r) cmd)"

datatype policy_error =
    InvalidDecision rstr
  | InvalidPattern rstr
  | InvalidExample rstr
  | InvalidRule rstr
  | ExampleDidNotMatch "prefix_rule list" "rstr list" "error_location option"
  | ExampleDidMatch rule_match rstr "error_location option"
  | Starlark starlark_error
and starlark_error =
    StarlarkOther rstr
  | StarlarkBuiltin policy_error

fun with_location :: "error_location \<Rightarrow> policy_error \<Rightarrow> policy_error" where
  "with_location l (ExampleDidNotMatch rules examples None) = ExampleDidNotMatch rules examples (Some l)"
| "with_location l (ExampleDidMatch rule example None) = ExampleDidMatch rule example (Some l)"
| "with_location l other = other"

definition parse_decision :: "rstr \<Rightarrow> policy_error + decision" where
  "parse_decision raw =
     (if raw = lit ''allow'' then Inr Allow
      else if raw = lit ''prompt'' then Inr Prompt
      else if raw = lit ''forbidden'' then Inr Forbidden
      else Inl (InvalidDecision raw))"

text \<open>On Unix a program name is its own key.\<close>

definition executable_lookup_key :: "rstr \<Rightarrow> rstr" where
  "executable_lookup_key raw = raw"

definition executable_path_lookup_key :: "path \<Rightarrow> rstr option" where
  "executable_path_lookup_key p = map_option executable_lookup_key (file_name p)"

section \<open>Network rules\<close>

datatype network_rule_protocol = Http | Https | Socks5Tcp | Socks5Udp

definition parse_protocol :: "rstr \<Rightarrow> policy_error + network_rule_protocol" where
  "parse_protocol raw =
     (if raw = lit ''http'' then Inr Http
      else if raw = lit ''https'' \<or> raw = lit ''https_connect'' \<or> raw = lit ''http-connect'' then Inr Https
      else if raw = lit ''socks5_tcp'' then Inr Socks5Tcp
      else if raw = lit ''socks5_udp'' then Inr Socks5Udp
      else Inl (InvalidRule
        (lit ''network_rule protocol must be one of http, https, socks5_tcp, socks5_udp (got '' @ raw @ lit '')'')))"

fun as_policy_string :: "network_rule_protocol \<Rightarrow> rstr" where
  "as_policy_string Http = lit ''http''"
| "as_policy_string Https = lit ''https''"
| "as_policy_string Socks5Tcp = lit ''socks5_tcp''"
| "as_policy_string Socks5Udp = lit ''socks5_udp''"

record network_rule =
  net_host :: rstr
  net_protocol :: network_rule_protocol
  net_decision :: decision
  net_justification :: "rstr option"

definition port_digits :: "rstr \<Rightarrow> bool" where
  "port_digits port \<longleftrightarrow> port \<noteq> [] \<and> list_all is_ascii_digit port"

text \<open>The host without brackets and port.\<close>

definition strip_host_port :: "rstr \<Rightarrow> rstr \<Rightarrow> policy_error + rstr" where
  "strip_host_port raw host =
     (case strip_prefix host (lit ''['') of
        Some stripped \<Rightarrow>
          (case split_once 93 stripped of
             None \<Rightarrow> Inl (InvalidRule (lit ''network_rule host has an invalid bracketed IPv6 literal''))
           | Some (inside, rest) \<Rightarrow>
             if rest \<noteq> [] \<and> \<not> (case strip_prefix rest (lit '':'') of None \<Rightarrow> False | Some port \<Rightarrow> port_digits port)
             then Inl (InvalidRule (lit ''network_rule host contains an unsupported suffix: '' @ raw))
             else Inr inside)
      | None \<Rightarrow>
        if length (filter (\<lambda>c. c = 58) host) = 1 then
          (case rsplit_once 58 host of
             Some (candidate, port) \<Rightarrow>
               if candidate \<noteq> [] \<and> port_digits port then Inr candidate else Inr host
           | None \<Rightarrow> Inr host)
        else Inr host)"

definition finish_host :: "rstr \<Rightarrow> policy_error + rstr" where
  "finish_host host =
     (let normalized = to_ascii_lowercase (trim (trim_end_matches (\<lambda>c. c = 46) host)) in
      if normalized = [] then Inl (InvalidRule (lit ''network_rule host cannot be empty''))
      else if 42 \<in> set normalized then
        Inl (InvalidRule (lit ''network_rule host must be a specific host; wildcards are not allowed''))
      else if list_ex is_whitespace normalized then
        Inl (InvalidRule (lit ''network_rule host cannot contain whitespace''))
      else Inr normalized)"

definition normalize_network_rule_host :: "rstr \<Rightarrow> policy_error + rstr" where
  "normalize_network_rule_host raw =
     (let host = trim raw in
      if host = [] then Inl (InvalidRule (lit ''network_rule host cannot be empty''))
      else if str_contains host (lit ''://'') \<or> 47 \<in> set host \<or> 63 \<in> set host \<or> 35 \<in> set host then
        Inl (InvalidRule (lit ''network_rule host must be a hostname or IP literal (without scheme or path)''))
      else res_bind (strip_host_port raw host) finish_host)"

section \<open>What a prefix pattern matches\<close>

lemma token_matches_iff: "token_matches t s \<longleftrightarrow> s \<in> set (alternatives t)"
  by (cases t) (auto simp: list_ex_iff)

lemma matches_prefix_eq_Some_iff:
  "matches_prefix p cmd = Some m \<longleftrightarrow>
     (\<exists>rest tail. cmd = pattern_first p # rest @ tail \<and> m = pattern_first p # rest
       \<and> list_all2 (\<lambda>t s. s \<in> set (alternatives t)) (pattern_rest p) rest)"
proof (cases cmd)
  case Nil
  then show ?thesis by (simp add: matches_prefix_def)
next
  case (Cons c cs)
  let ?n = "length (pattern_rest p)"
  let ?R = "\<lambda>t s. s \<in> set (alternatives t)"
  have here: "matches_prefix p cmd = Some m \<longleftrightarrow> ?n \<le> length cs \<and> c = pattern_first p
      \<and> list_all2 ?R (pattern_rest p) (take ?n cs) \<and> m = c # take ?n cs"
    by (auto simp: matches_prefix_def Cons list_all2_iff list_all_iff token_matches_iff)
  show ?thesis
  proof
    assume "matches_prefix p cmd = Some m"
    then have "cmd = pattern_first p # take ?n cs @ drop ?n cs" "m = pattern_first p # take ?n cs"
        "list_all2 ?R (pattern_rest p) (take ?n cs)"
      using here Cons by simp_all
    then show "\<exists>rest tail. cmd = pattern_first p # rest @ tail \<and> m = pattern_first p # rest
        \<and> list_all2 ?R (pattern_rest p) rest" by blast
  next
    assume "\<exists>rest tail. cmd = pattern_first p # rest @ tail \<and> m = pattern_first p # rest
        \<and> list_all2 ?R (pattern_rest p) rest"
    then obtain rest tail where rest: "c = pattern_first p" "cs = rest @ tail" "m = c # rest"
        "list_all2 ?R (pattern_rest p) rest"
      unfolding Cons by auto
    then have "?n = length rest" using list_all2_lengthD by blast
    then show "matches_prefix p cmd = Some m" unfolding here using rest by simp
  qed
qed

section \<open>Normalised hosts\<close>

lemma set_trim_end_matches: "set (trim_end_matches P s) \<subseteq> set s"
  by (auto simp: trim_end_matches_def dest: set_dropWhileD)

lemma set_trim: "set (trim s) \<subseteq> set s"
proof -
  have "set (trim s) \<subseteq> set (trim_start s)" by (simp add: trim_def trim_end_def set_trim_end_matches)
  also have "\<dots> \<subseteq> set s" by (auto simp: trim_start_def trim_start_matches_def dest: set_dropWhileD)
  finally show ?thesis .
qed

lemma trim_no_whitespace: "\<not> list_ex is_whitespace s \<Longrightarrow> trim s = s"
  by (cases "s = []")
    (simp_all add: list_ex_iff trim_both, simp add: trim_def trim_end_def trim_end_matches_def trim_start_def trim_start_matches_def)

lemma str_contains_set: "str_contains s sub \<Longrightarrow> set sub \<subseteq> set s"
proof (induction s)
  case (Cons c s)
  then show ?case using set_take_subset [of "length sub" "c # s"]
    by (auto simp: starts_with_def)
qed simp

lemma set_split_once: "split_once c s = Some (a, b) \<Longrightarrow> set a \<subseteq> set s \<and> set b \<subseteq> set s"
  by (auto simp: split_once_def split: if_splits dest: set_takeWhileD set_dropWhileD list.set_sel(2) [rotated])
    (metis list.sel(2) list.set_sel(2) set_dropWhileD)

lemma set_strip_host_port:
  assumes "strip_host_port raw host = Inr h"
  shows "set h \<subseteq> set host"
proof (cases "strip_prefix host (lit ''['')")
  case (Some stripped)
  then have "set stripped \<subseteq> set host" by (auto simp: strip_prefix_def split: if_splits dest: in_set_dropD)
  then show ?thesis using assms Some set_split_once [of 93 stripped]
    by (fastforce simp: strip_host_port_def split: option.splits if_splits)
next
  case None
  have "set a \<subseteq> set host" if "rsplit_once 58 host = Some (a, b)" for a b
    using that set_split_once [of 58 "rev host"] by (auto simp: rsplit_once_def)
  then show ?thesis using assms None
    by (auto simp: strip_host_port_def split: option.splits if_splits)
qed

lemma ascii_lower_idem [simp]: "ascii_lower_char (ascii_lower_char c) = ascii_lower_char c"
  by (simp add: ascii_lower_char_def)

lemma ascii_lower_small: "ascii_lower_char c = d \<Longrightarrow> d < 65 \<Longrightarrow> c = d"
  by (auto simp: ascii_lower_char_def split: if_splits)

lemma finish_host_Inr:
  assumes "finish_host host = Inr h"
  shows "h \<noteq> []" "42 \<notin> set h" "\<not> list_ex is_whitespace h" "to_ascii_lowercase h = h"
    "d \<in> set h \<Longrightarrow> d < 65 \<Longrightarrow> d \<in> set host"
proof -
  have h: "h = to_ascii_lowercase (trim (trim_end_matches (\<lambda>c. c = 46) host))"
    and rest: "h \<noteq> []" "42 \<notin> set h" "\<not> list_ex is_whitespace h"
    using assms by (auto simp: finish_host_def Let_def split: if_splits)
  show "h \<noteq> []" "42 \<notin> set h" "\<not> list_ex is_whitespace h" by (fact rest)+
  show "to_ascii_lowercase h = h" by (simp add: h to_ascii_lowercase_def)
  show "d \<in> set host" if d: "d \<in> set h" "d < 65"
  proof -
    obtain x where x: "x \<in> set (trim (trim_end_matches (\<lambda>c. c = 46) host))" "ascii_lower_char x = d"
      using d(1) by (auto simp: h to_ascii_lowercase_def)
    have "x = d" using x(2) d(2) by (rule ascii_lower_small)
    then show ?thesis using x(1) set_trim set_trim_end_matches by blast
  qed
qed

lemma normalize_host_fixed:
  assumes "h \<noteq> []" "42 \<notin> set h" "\<not> list_ex is_whitespace h" "to_ascii_lowercase h = h"
    and "47 \<notin> set h" "63 \<notin> set h" "35 \<notin> set h" "58 \<notin> set h" "hd h \<noteq> 91" "last h \<noteq> 46"
  shows "normalize_network_rule_host h = Inr h"
proof -
  have "\<not> str_contains h (lit ''://'')" using str_contains_set [of h "lit ''://''"] assms(5) by (auto simp: str_simps)
  moreover have "strip_host_port h h = Inr h"
  proof -
    have "strip_prefix h (lit ''['') = None" using assms(1,9) by (cases h) (auto simp: str_simps)
    moreover have "filter (\<lambda>c. c = 58) h = []" using assms(8) by (auto simp: filter_empty_conv)
    ultimately show ?thesis by (simp add: strip_host_port_def)
  qed
  moreover have "trim_end_matches (\<lambda>c. c = 46) h = h"
    using assms(1,10) by (cases h rule: rev_cases) (simp_all add: trim_end_matches_def)
  ultimately show ?thesis using assms trim_no_whitespace [OF assms(3)]
    by (simp add: normalize_network_rule_host_def finish_host_def)
qed

lemma normalize_host_shape:
  assumes "normalize_network_rule_host raw = Inr h"
  shows "h \<noteq> []" "42 \<notin> set h" "\<not> list_ex is_whitespace h" "to_ascii_lowercase h = h"
    "47 \<notin> set h" "63 \<notin> set h" "35 \<notin> set h"
proof -
  obtain host where host: "47 \<notin> set (trim raw)" "63 \<notin> set (trim raw)" "35 \<notin> set (trim raw)"
      "strip_host_port raw (trim raw) = Inr host" "finish_host host = Inr h"
    using assms by (auto simp: normalize_network_rule_host_def Let_def res_iffs split: if_splits)
  show "h \<noteq> []" "42 \<notin> set h" "\<not> list_ex is_whitespace h" "to_ascii_lowercase h = h"
    using finish_host_Inr [OF host(5)] by auto
  show "47 \<notin> set h" "63 \<notin> set h" "35 \<notin> set h"
    using finish_host_Inr(5) [OF host(5)] set_strip_host_port [OF host(4)] host(1-3) by fastforce+
qed

section \<open>Properties\<close>

text \<open>
  A prefix rule matches a command exactly when the command starts with the pattern's program
  followed by one admissible token for each further element of the pattern, and the matched
  prefix is that part of the command.
\<close>

lemma matches_prefix_spec:
  "matches_prefix p cmd = Some m \<longleftrightarrow>
     (\<exists>rest tail. cmd = pattern_first p # rest @ tail \<and> m = pattern_first p # rest
       \<and> list_all2 (\<lambda>t s. s \<in> set (alternatives t)) (pattern_rest p) rest)"
  by (rule matches_prefix_eq_Some_iff)

text \<open>
  A host that a network rule accepts is a specific one in canonical case: it is not empty, has
  no wildcard, no white space, no path, query or fragment character and no upper-case ASCII
  letter. When what is left has no colon, no opening bracket and no final dot, it is its own
  normal form.
\<close>

lemma normalized_host_canonical:
  assumes "normalize_network_rule_host raw = Inr h"
  shows "h \<noteq> [] \<and> 42 \<notin> set h \<and> \<not> list_ex is_whitespace h \<and> to_ascii_lowercase h = h
    \<and> 47 \<notin> set h \<and> 63 \<notin> set h \<and> 35 \<notin> set h
    \<and> (58 \<notin> set h \<and> hd h \<noteq> 91 \<and> last h \<noteq> 46 \<longrightarrow> normalize_network_rule_host h = Inr h)"
  using normalize_host_shape [OF assms] normalize_host_fixed [OF normalize_host_shape [OF assms]] by blast

end
