(* ===== verification/Exec_Policy.thy ===== *)
theory Exec_Policy
  imports Exec_Rule "HOL-Library.List_Lexorder"
begin

text \<open>
  Model of \<open>engine/execpolicy/src/policy.rs\<close> and of the example checks of \<open>rule.rs\<close>: the policy with
  its rules by program, matching a command, evaluating one or several commands, merging an
  overlay, and the compiled network domains. The multimap is an association list in insertion
  order; the Rust map promises no order between keys, and no property below depends on one. The
  process's home and current directory are the parameter \<open>path_env\<close>, and \<open>shlex::try_join\<close> is a
  parameter of the example checks.
\<close>

section \<open>Multimaps\<close>

type_synonym 'v multimap = "(rstr \<times> 'v list) list"

definition mm_get_vec :: "'v multimap \<Rightarrow> rstr \<Rightarrow> 'v list option" where
  "mm_get_vec m k = map_of m k"

definition mm_insert :: "rstr \<Rightarrow> 'v \<Rightarrow> 'v multimap \<Rightarrow> 'v multimap" where
  "mm_insert k v m =
     (if map_of m k = None then m @ [(k, [v])]
      else map (\<lambda>(k', vs). if k' = k then (k', vs @ [v]) else (k', vs)) m)"

text \<open>\<open>iter_all()\<close>, flattened to pairs of a key and one of its values.\<close>

definition mm_pairs :: "'v multimap \<Rightarrow> (rstr \<times> 'v) list" where
  "mm_pairs m = concat (map (\<lambda>(k, vs). map (Pair k) vs) m)"

definition mm_insert_all :: "(rstr \<times> 'v) list \<Rightarrow> 'v multimap \<Rightarrow> 'v multimap" where
  "mm_insert_all ps m = fold (\<lambda>(k, v). mm_insert k v) ps m"

definition mm_inv :: "'v multimap \<Rightarrow> bool" where
  "mm_inv m \<longleftrightarrow> distinct (map fst m)"

text \<open>The values of a key, none when it is absent.\<close>

definition mm_values :: "'v multimap \<Rightarrow> rstr \<Rightarrow> 'v list" where
  "mm_values m k = (case mm_get_vec m k of None \<Rightarrow> [] | Some vs \<Rightarrow> vs)"

locale value_store =
  fixes insert :: "rstr \<Rightarrow> 'v \<Rightarrow> 'm \<Rightarrow> 'm"
    and vals :: "'m \<Rightarrow> rstr \<Rightarrow> 'v list"
    and inv :: "'m \<Rightarrow> bool"
  assumes vals_insert: "inv m \<Longrightarrow> vals (insert k v m) k' = (if k' = k then vals m k @ [v] else vals m k')"
    and inv_insert: "inv m \<Longrightarrow> inv (insert k v m)"
begin

lemma fold_insert:
  assumes "inv m"
  shows "inv (fold (\<lambda>(k, v). insert k v) ps m)
    \<and> vals (fold (\<lambda>(k, v). insert k v) ps m) k = vals m k @ map snd (filter (\<lambda>p. fst p = k) ps)"
  using assms
proof (induction ps arbitrary: m)
  case (Cons p ps)
  then show ?case using Cons.IH [of "insert (fst p) (snd p) m"]
    by (auto simp: case_prod_beta vals_insert inv_insert)
qed simp

end

lemma map_of_snoc: "map_of (m @ [(k, v)]) k' = (case map_of m k' of None \<Rightarrow> if k' = k then Some v else None | Some x \<Rightarrow> Some x)"
  by (simp add: map_add_def split: option.splits)

lemma map_of_update_key:
  "map_of (map (\<lambda>(k', vs). if k' = k then (k', f vs) else (k', vs)) m) k'
     = (if k' = k then map_option f (map_of m k) else map_of m k')"
  by (induction m) auto

lemma mm_insert_keys:
  "map fst (mm_insert k v m) = map fst m @ (if map_of m k = None then [k] else [])"
  by (auto simp: mm_insert_def case_prod_beta)

interpretation mm: value_store mm_insert mm_values mm_inv
proof
  fix m :: "'a multimap" and k k' v
  show "mm_values (mm_insert k v m) k' = (if k' = k then mm_values m k @ [v] else mm_values m k')"
    by (auto simp: mm_values_def mm_get_vec_def mm_insert_def map_of_snoc map_of_update_key split: option.splits)
  show "mm_inv (mm_insert k v m)" if "mm_inv m"
    using that by (auto simp: mm_inv_def mm_insert_keys map_of_eq_None_iff)
qed

lemma mm_pairs_values:
  "mm_inv m \<Longrightarrow> map snd (filter (\<lambda>p. fst p = k) (mm_pairs m)) = mm_values m k"
proof (induction m)
  case (Cons e m)
  obtain k' vs where e: "e = (k', vs)" by (cases e)
  have absent: "map snd (filter (\<lambda>p. fst p = k') (mm_pairs m)) = []" if "k' \<notin> fst ` set m"
    using that by (force simp: mm_pairs_def filter_empty_conv)
  have "map snd (filter (\<lambda>p. fst p = k) (map (Pair k') vs)) = (if k' = k then vs else [])"
    by (induction vs) auto
  then show ?case using Cons absent
    by (auto simp: mm_pairs_def e mm_inv_def mm_values_def mm_get_vec_def)
qed (simp add: mm_pairs_def mm_values_def mm_get_vec_def)

section \<open>Policies\<close>

record policy =
  rules_by_program :: "prefix_rule multimap"
  network_rules :: "network_rule list"
  host_executables_by_name :: "rstr \<Rightarrow> path list option"

record match_options =
  resolve_host_executables :: bool

definition default_options :: match_options where
  "default_options = \<lparr>resolve_host_executables = False\<rparr>"

definition policy_empty :: policy where
  "policy_empty = \<lparr>rules_by_program = [], network_rules = [], host_executables_by_name = Map.empty\<rparr>"

fun render_pattern_token :: "pattern_token \<Rightarrow> rstr" where
  "render_pattern_token (Single v) = v"
| "render_pattern_token (Alts alts) = lit ''['' @ join (lit ''|'') alts @ lit '']''"

definition rule_prefix :: "prefix_rule \<Rightarrow> rstr list" where
  "rule_prefix r = pattern_first (rule_pattern r) # map render_pattern_token (pattern_rest (rule_pattern r))"

definition get_allowed_prefixes :: "policy \<Rightarrow> rstr list list" where
  "get_allowed_prefixes p =
     remdups_adj (sort (map rule_prefix
       (filter (\<lambda>r. rule_decision r = Allow) (map snd (mm_pairs (rules_by_program p))))))"

definition exact_rule :: "rstr \<Rightarrow> rstr list \<Rightarrow> decision \<Rightarrow> prefix_rule" where
  "exact_rule first rest d =
     \<lparr>rule_pattern = \<lparr>pattern_first = first, pattern_rest = map Single rest\<rparr>,
       rule_decision = d, rule_justification = None\<rparr>"

definition add_prefix_rule :: "policy \<Rightarrow> rstr list \<Rightarrow> decision \<Rightarrow> policy_error + policy" where
  "add_prefix_rule p prefix_tokens d =
     (case prefix_tokens of
        [] \<Rightarrow> Inl (InvalidPattern (lit ''prefix cannot be empty''))
      | first # rest \<Rightarrow>
        Inr (p\<lparr>rules_by_program := mm_insert first (exact_rule first rest d) (rules_by_program p)\<rparr>))"

definition add_network_rule ::
    "policy \<Rightarrow> rstr \<Rightarrow> network_rule_protocol \<Rightarrow> decision \<Rightarrow> rstr option \<Rightarrow> policy_error + policy" where
  "add_network_rule p raw_host protocol d justification =
     res_bind (normalize_network_rule_host raw_host) (\<lambda>host.
       if (case justification of None \<Rightarrow> False | Some raw \<Rightarrow> trim raw = []) then
         Inl (InvalidRule (lit ''justification cannot be empty''))
       else Inr (p\<lparr>network_rules := network_rules p @ [\<lparr>net_host = host, net_protocol = protocol,
         net_decision = d, net_justification = justification\<rparr>]\<rparr>))"

definition set_host_executable_paths :: "policy \<Rightarrow> rstr \<Rightarrow> path list \<Rightarrow> policy" where
  "set_host_executable_paths p name paths =
     p\<lparr>host_executables_by_name := (host_executables_by_name p)(name \<mapsto> paths)\<rparr>"

definition merge_overlay :: "policy \<Rightarrow> policy \<Rightarrow> policy" where
  "merge_overlay p overlay =
     \<lparr>rules_by_program = mm_insert_all (mm_pairs (rules_by_program overlay)) (rules_by_program p),
      network_rules = network_rules p @ network_rules overlay,
      host_executables_by_name = host_executables_by_name p ++ host_executables_by_name overlay\<rparr>"

section \<open>Network domains\<close>

definition upsert_domain :: "rstr list \<Rightarrow> rstr \<Rightarrow> rstr list" where
  "upsert_domain entries host = filter (\<lambda>e. e \<noteq> host) entries @ [host]"

fun compile_domain :: "rstr list \<times> rstr list \<Rightarrow> network_rule \<Rightarrow> rstr list \<times> rstr list" where
  "compile_domain (allowed, denied) r =
     (case net_decision r of
        Allow \<Rightarrow> (upsert_domain allowed (net_host r), filter (\<lambda>e. e \<noteq> net_host r) denied)
      | Forbidden \<Rightarrow> (filter (\<lambda>e. e \<noteq> net_host r) allowed, upsert_domain denied (net_host r))
      | Prompt \<Rightarrow> (allowed, denied))"

definition compiled_network_domains :: "policy \<Rightarrow> rstr list \<times> rstr list" where
  "compiled_network_domains p = foldl compile_domain ([], []) (network_rules p)"

section \<open>Matching commands\<close>

text \<open>The current directory, or the message of the error that reading it gave.\<close>

record path_env =
  env_home :: "path option"
  env_cwd :: "rstr + path"

text \<open>\<open>AbsolutePathBuf::try_from(first.clone())\<close>\<close>

definition absolute_try_from :: "path_env \<Rightarrow> rstr \<Rightarrow> rstr + path" where
  "absolute_try_from env raw = from_absolute_path (env_home env) (env_cwd env) raw"

definition filter_matches :: "rstr list \<Rightarrow> prefix_rule list \<Rightarrow> rule_match list" where
  "filter_matches cmd rules = List.map_filter (\<lambda>r. rule_matches r cmd) rules"

definition match_exact_rules :: "policy \<Rightarrow> rstr list \<Rightarrow> rule_match list option" where
  "match_exact_rules p cmd =
     (case cmd of
        [] \<Rightarrow> None
      | first # _ \<Rightarrow> Some (case mm_get_vec (rules_by_program p) first of
          None \<Rightarrow> [] | Some rules \<Rightarrow> filter_matches cmd rules))"

definition match_host_executable_rules :: "path_env \<Rightarrow> policy \<Rightarrow> rstr list \<Rightarrow> rule_match list" where
  "match_host_executable_rules env p cmd =
     (case cmd of
        [] \<Rightarrow> []
      | first # args \<Rightarrow>
        (case absolute_try_from env first of
           Inl _ \<Rightarrow> []
         | Inr prog \<Rightarrow>
           (case executable_path_lookup_key prog of
              None \<Rightarrow> []
            | Some basename \<Rightarrow>
              (case mm_get_vec (rules_by_program p) basename of
                 None \<Rightarrow> []
               | Some rules \<Rightarrow>
                 if (case host_executables_by_name p basename of None \<Rightarrow> False
                     | Some paths \<Rightarrow> \<not> list_ex (\<lambda>q. q = prog) paths)
                 then []
                 else map (with_resolved_program prog) (filter_matches (basename # args) rules)))))"

definition matches_for_command_with_options ::
    "path_env \<Rightarrow> policy \<Rightarrow> rstr list \<Rightarrow> (rstr list \<Rightarrow> decision) option \<Rightarrow> match_options \<Rightarrow> rule_match list" where
  "matches_for_command_with_options env p cmd fallback options =
     (let exact = (case match_exact_rules p cmd of Some ms \<Rightarrow> if ms \<noteq> [] then Some ms else None | None \<Rightarrow> None);
          matched = (case exact of
            Some ms \<Rightarrow> ms
          | None \<Rightarrow> if resolve_host_executables options then match_host_executable_rules env p cmd else []) in
      case (matched, fallback) of
        ([], Some f) \<Rightarrow> [HeuristicsRuleMatch cmd (f cmd)]
      | _ \<Rightarrow> matched)"

definition matches_for_command ::
    "path_env \<Rightarrow> policy \<Rightarrow> rstr list \<Rightarrow> (rstr list \<Rightarrow> decision) option \<Rightarrow> rule_match list" where
  "matches_for_command env p cmd fallback = matches_for_command_with_options env p cmd fallback default_options"

section \<open>Evaluation\<close>

record evaluation =
  eval_decision :: decision
  eval_matched_rules :: "rule_match list"

fun iter_max :: "decision list \<Rightarrow> decision option" where
  "iter_max [] = None"
| "iter_max (d # ds) = (case iter_max ds of None \<Rightarrow> Some d | Some m \<Rightarrow> Some (max d m))"

text \<open>\<open>None\<close> is the panic of \<open>expect\<close> on an empty list.\<close>

definition from_matches :: "rule_match list \<Rightarrow> evaluation option" where
  "from_matches ms =
     map_option (\<lambda>d. \<lparr>eval_decision = d, eval_matched_rules = ms\<rparr>) (iter_max (map rule_match_decision ms))"

fun is_heuristics :: "rule_match \<Rightarrow> bool" where
  "is_heuristics (HeuristicsRuleMatch _ _) = True"
| "is_heuristics _ = False"

definition is_match :: "evaluation \<Rightarrow> bool" where
  "is_match e \<longleftrightarrow> list_ex (\<lambda>m. \<not> is_heuristics m) (eval_matched_rules e)"

definition check_with_options ::
    "path_env \<Rightarrow> policy \<Rightarrow> rstr list \<Rightarrow> (rstr list \<Rightarrow> decision) \<Rightarrow> match_options \<Rightarrow> evaluation option" where
  "check_with_options env p cmd fallback options =
     from_matches (matches_for_command_with_options env p cmd (Some fallback) options)"

definition check :: "path_env \<Rightarrow> policy \<Rightarrow> rstr list \<Rightarrow> (rstr list \<Rightarrow> decision) \<Rightarrow> evaluation option" where
  "check env p cmd fallback = check_with_options env p cmd fallback default_options"

definition check_multiple_with_options ::
    "path_env \<Rightarrow> policy \<Rightarrow> rstr list list \<Rightarrow> (rstr list \<Rightarrow> decision) \<Rightarrow> match_options \<Rightarrow> evaluation option" where
  "check_multiple_with_options env p cmds fallback options =
     from_matches (concat (map (\<lambda>cmd. matches_for_command_with_options env p cmd (Some fallback) options) cmds))"

definition check_multiple ::
    "path_env \<Rightarrow> policy \<Rightarrow> rstr list list \<Rightarrow> (rstr list \<Rightarrow> decision) \<Rightarrow> evaluation option" where
  "check_multiple env p cmds fallback = check_multiple_with_options env p cmds fallback default_options"

section \<open>Examples of a rule\<close>

definition render_example :: "(rstr list \<Rightarrow> rstr option) \<Rightarrow> rstr list \<Rightarrow> rstr" where
  "render_example try_join example =
     (case try_join example of Some s \<Rightarrow> s | None \<Rightarrow> lit ''unable to render example'')"

definition resolving_options :: match_options where
  "resolving_options = \<lparr>resolve_host_executables = True\<rparr>"

definition validate_match_examples ::
    "path_env \<Rightarrow> (rstr list \<Rightarrow> rstr option) \<Rightarrow> policy \<Rightarrow> prefix_rule list \<Rightarrow> rstr list list \<Rightarrow> policy_error + unit" where
  "validate_match_examples env try_join p rules examples =
     (let unmatched = map (render_example try_join)
        (filter (\<lambda>e. matches_for_command_with_options env p e None resolving_options = []) examples) in
      if unmatched = [] then Inr () else Inl (ExampleDidNotMatch rules unmatched None))"

fun validate_not_match_examples ::
    "path_env \<Rightarrow> (rstr list \<Rightarrow> rstr option) \<Rightarrow> policy \<Rightarrow> rstr list list \<Rightarrow> policy_error + unit" where
  "validate_not_match_examples env try_join p [] = Inr ()"
| "validate_not_match_examples env try_join p (e # es) =
     (case matches_for_command_with_options env p e None resolving_options of
        m # _ \<Rightarrow> Inl (ExampleDidMatch m (render_example try_join e) None)
      | [] \<Rightarrow> validate_not_match_examples env try_join p es)"

section \<open>Matches\<close>

lemma filter_matches_append: "filter_matches cmd (xs @ ys) = filter_matches cmd xs @ filter_matches cmd ys"
  by (simp add: filter_matches_def List.map_filter_def)

lemma match_exact_rules_values:
  "match_exact_rules p (first # args) = Some (filter_matches (first # args) (mm_values (rules_by_program p) first))"
  by (simp add: match_exact_rules_def mm_values_def filter_matches_def List.map_filter_def split: option.splits)

text \<open>The rules that match without host executables and without the fallback.\<close>

definition exact_matches :: "policy \<Rightarrow> rstr list \<Rightarrow> rule_match list" where
  "exact_matches p cmd = (case match_exact_rules p cmd of None \<Rightarrow> [] | Some ms \<Rightarrow> ms)"

lemma matches_for_command_exact:
  "matches_for_command env p cmd fallback =
     (if exact_matches p cmd = [] then (case fallback of None \<Rightarrow> [] | Some f \<Rightarrow> [HeuristicsRuleMatch cmd (f cmd)])
      else exact_matches p cmd)"
  by (auto simp: matches_for_command_def matches_for_command_with_options_def exact_matches_def Let_def
      default_options_def split: option.splits list.splits)

lemma exact_matches_values:
  "exact_matches p cmd = (if cmd = [] then [] else filter_matches cmd (mm_values (rules_by_program p) (hd cmd)))"
proof (cases cmd)
  case Nil
  then show ?thesis by (simp add: exact_matches_def match_exact_rules_def)
next
  case (Cons first args)
  then show ?thesis by (simp add: exact_matches_def match_exact_rules_values)
qed

lemma matches_nonempty: "matches_for_command_with_options env p cmd (Some f) options \<noteq> []"
  by (auto simp: matches_for_command_with_options_def Let_def split: list.splits)

section \<open>The strictest decision\<close>

lemma iter_max_eq_Some_Max: "ds \<noteq> [] \<Longrightarrow> iter_max ds = Some (Max (set ds))"
proof (induction ds)
  case (Cons d ds)
  then show ?case by (cases "ds = []") simp_all
qed simp

lemma iter_max_append:
  "iter_max (xs @ ys) = (case iter_max xs of None \<Rightarrow> iter_max ys
     | Some a \<Rightarrow> (case iter_max ys of None \<Rightarrow> Some a | Some b \<Rightarrow> Some (max a b)))"
  by (induction xs) (auto split: option.splits simp: max.assoc)

lemma from_matches_Max:
  "ms \<noteq> [] \<Longrightarrow> from_matches ms = Some \<lparr>eval_decision = Max (rule_match_decision ` set ms), eval_matched_rules = ms\<rparr>"
  by (simp add: from_matches_def iter_max_eq_Some_Max)

lemma Max_append_mono:
  assumes "xs \<noteq> []"
  shows "Max (f ` set xs) \<le> (Max (f ` set (xs @ ys)) :: decision)"
    "ys \<noteq> [] \<Longrightarrow> Max (f ` set ys) \<le> (Max (f ` set (xs @ ys)) :: decision)"
  using assms by (auto intro!: Max_mono)

section \<open>Overlays\<close>

lemma merge_overlay_values:
  assumes "mm_inv (rules_by_program p)" "mm_inv (rules_by_program overlay)"
  shows "mm_values (rules_by_program (merge_overlay p overlay)) k
      = mm_values (rules_by_program p) k @ mm_values (rules_by_program overlay) k"
    "mm_inv (rules_by_program (merge_overlay p overlay))"
  using mm.fold_insert [OF assms(1), of "mm_pairs (rules_by_program overlay)"] mm_pairs_values [OF assms(2), of k]
  by (simp_all add: merge_overlay_def mm_insert_all_def)

lemma merge_overlay_matches:
  assumes "mm_inv (rules_by_program p)" "mm_inv (rules_by_program overlay)"
  shows "exact_matches (merge_overlay p overlay) cmd = exact_matches p cmd @ exact_matches overlay cmd"
  using merge_overlay_values [OF assms] by (simp add: exact_matches_values filter_matches_append)

text \<open>Rules for the first word of a command decide it, whether host executables are resolved or not.\<close>

lemma check_exact:
  assumes "exact_matches p cmd \<noteq> []"
  shows "check_with_options env p cmd fallback options =
    Some \<lparr>eval_decision = Max (rule_match_decision ` set (exact_matches p cmd)), eval_matched_rules = exact_matches p cmd\<rparr>"
proof -
  have "matches_for_command_with_options env p cmd (Some fallback) options = exact_matches p cmd"
    using assms by (auto simp: matches_for_command_with_options_def exact_matches_def Let_def split: option.splits list.splits)
  then show ?thesis using assms by (simp add: check_with_options_def from_matches_Max)
qed

section \<open>Domains\<close>

text \<open>The rules that decide a host, prompts apart.\<close>

definition deciding :: "rstr \<Rightarrow> network_rule list \<Rightarrow> decision list" where
  "deciding host rs = map net_decision (filter (\<lambda>r. net_host r = host \<and> net_decision r \<noteq> Prompt) rs)"

lemma deciding_snoc:
  "deciding host (rs @ [r]) = deciding host rs @ (if net_host r = host \<and> net_decision r \<noteq> Prompt then [net_decision r] else [])"
  by (simp add: deciding_def)

lemma compile_domains:
  "distinct (fst (foldl compile_domain ([], []) rs)) \<and> distinct (snd (foldl compile_domain ([], []) rs))
   \<and> (host \<in> set (fst (foldl compile_domain ([], []) rs)) \<longleftrightarrow> last_opt (deciding host rs) = Some Allow)
   \<and> (host \<in> set (snd (foldl compile_domain ([], []) rs)) \<longleftrightarrow> last_opt (deciding host rs) = Some Forbidden)"
proof (induction rs rule: rev_induct)
  case Nil
  then show ?case by (simp add: deciding_def)
next
  case (snoc r rs)
  obtain a d where ad: "foldl compile_domain ([], []) rs = (a, d)" by fastforce
  show ?case using snoc by (cases "net_decision r") (auto simp: ad deciding_snoc upsert_domain_def)
qed

section \<open>Invariant\<close>

text \<open>Keys are distinct and every rule is stored under its own program.\<close>

definition policy_inv :: "policy \<Rightarrow> bool" where
  "policy_inv p \<longleftrightarrow> mm_inv (rules_by_program p)
     \<and> (\<forall>k. list_all (\<lambda>r. program r = k) (mm_values (rules_by_program p) k))
     \<and> list_all (\<lambda>r. \<exists>raw. normalize_network_rule_host raw = Inr (net_host r)) (network_rules p)"

lemma policy_inv_empty: "policy_inv policy_empty"
  by (simp add: policy_inv_def policy_empty_def mm_inv_def mm_values_def mm_get_vec_def)

lemma policy_inv_add_prefix: "policy_inv p \<Longrightarrow> add_prefix_rule p toks d = Inr p' \<Longrightarrow> policy_inv p'"
  by (cases toks) (auto simp: add_prefix_rule_def policy_inv_def mm.inv_insert mm.vals_insert exact_rule_def program_def)

lemma policy_inv_add_network: "policy_inv p \<Longrightarrow> add_network_rule p h pr d j = Inr p' \<Longrightarrow> policy_inv p'"
  by (auto simp: add_network_rule_def policy_inv_def res_iffs split: if_splits)

lemma policy_inv_set_paths: "policy_inv p \<Longrightarrow> policy_inv (set_host_executable_paths p n ps)"
  by (simp add: policy_inv_def set_host_executable_paths_def)

lemma policy_inv_merge: "policy_inv p \<Longrightarrow> policy_inv overlay \<Longrightarrow> policy_inv (merge_overlay p overlay)"
  using merge_overlay_values [of p overlay] by (auto simp: policy_inv_def) (simp add: merge_overlay_def)

text \<open>Under the invariant, the rules of a policy that match are found under the first token.\<close>

lemma mm_pairs_iff: "mm_inv m \<Longrightarrow> (k, v) \<in> set (mm_pairs m) \<longleftrightarrow> v \<in> set (mm_values m k)"
  by (subst mm_pairs_values [symmetric]) (auto simp: image_iff)

lemma set_filter_matches: "set (filter_matches cmd rs) = {m. \<exists>r\<in>set rs. rule_matches r cmd = Some m}"
  by (induction rs) (auto simp: filter_matches_def List.map_filter_def split: option.splits)

lemma rule_matches_program: "rule_matches r cmd = Some m \<Longrightarrow> cmd \<noteq> [] \<and> hd cmd = program r"
  by (auto simp: rule_matches_def program_def matches_prefix_eq_Some_iff)

lemma exact_matches_complete:
  assumes "policy_inv p"
  shows "set (exact_matches p cmd) = {m. \<exists>r\<in>snd ` set (mm_pairs (rules_by_program p)). rule_matches r cmd = Some m}"
proof -
  have inv: "mm_inv (rules_by_program p)" using assms by (simp add: policy_inv_def)
  have stored: "program r = k" if "(k, r) \<in> set (mm_pairs (rules_by_program p))" for k r
    using that assms mm_pairs_iff [OF inv] by (auto simp: policy_inv_def list_all_iff)
  show ?thesis
  proof (intro equalityI subsetI CollectI)
    fix m assume "m \<in> set (exact_matches p cmd)"
    then obtain r where "r \<in> set (mm_values (rules_by_program p) (hd cmd))" "rule_matches r cmd = Some m"
      by (auto simp: exact_matches_values set_filter_matches split: if_splits)
    then show "\<exists>r\<in>snd ` set (mm_pairs (rules_by_program p)). rule_matches r cmd = Some m"
      using mm_pairs_iff [OF inv] by force
  next
    fix m assume "m \<in> {m. \<exists>r\<in>snd ` set (mm_pairs (rules_by_program p)). rule_matches r cmd = Some m}"
    then obtain k r where r: "(k, r) \<in> set (mm_pairs (rules_by_program p))" "rule_matches r cmd = Some m" by auto
    then have "cmd \<noteq> []" "hd cmd = k" using stored rule_matches_program by blast+
    then show "m \<in> set (exact_matches p cmd)"
      using r mm_pairs_iff [OF inv] by (auto simp: exact_matches_values set_filter_matches)
  qed
qed

section \<open>Properties\<close>

text \<open>
  With a fallback, evaluating a command never panics, and its decision is the strictest among
  the rules that matched: forbidden outranks prompting, which outranks allowing.
\<close>

lemma check_strictest:
  "\<exists>e. check_with_options env p cmd fallback options = Some e
     \<and> eval_matched_rules e = matches_for_command_with_options env p cmd (Some fallback) options
     \<and> eval_decision e = Max (rule_match_decision ` set (eval_matched_rules e))"
  by (simp add: check_with_options_def from_matches_Max matches_nonempty)

text \<open>
  Evaluating several commands gives the strictest of their decisions and all their matches in
  order; only the empty list of commands panics.
\<close>

lemma check_multiple_strictest:
  "check_multiple_with_options env p [] fallback options = None
   \<and> check_multiple_with_options env p (cmd # cmds) fallback options =
     (case check_with_options env p cmd fallback options of
        None \<Rightarrow> None
      | Some e \<Rightarrow>
        (case check_multiple_with_options env p cmds fallback options of
           None \<Rightarrow> Some e
         | Some e' \<Rightarrow> Some \<lparr>eval_decision = max (eval_decision e) (eval_decision e'),
             eval_matched_rules = eval_matched_rules e @ eval_matched_rules e'\<rparr>))"
proof -
  let ?ms = "matches_for_command_with_options env p cmd (Some fallback) options"
  let ?rest = "concat (map (\<lambda>cmd. matches_for_command_with_options env p cmd (Some fallback) options) cmds)"
  have one: "iter_max (map rule_match_decision ?ms) \<noteq> None"
    by (simp add: iter_max_eq_Some_Max matches_nonempty)
  have none: "iter_max (map rule_match_decision ?rest) = None \<Longrightarrow> ?rest = []"
    using iter_max_eq_Some_Max [of "map rule_match_decision ?rest"] by fastforce
  show ?thesis
    using one none by (auto simp: check_multiple_with_options_def check_with_options_def from_matches_def
        iter_max_append split: option.splits)
qed

text \<open>
  C7. An overlay only adds rules for the first word of a command: the rules stored for that word that
  match the merged policy are those that match the base and then those that match the overlay. A
  command that either of them decides by such a rule is never decided less strictly after the merge,
  with and without the resolution of host executables. Rules that apply only through the last component
  of a path are not covered: a rule for the first word itself, of either policy, comes before them.
\<close>

theorem merge_overlay_monotone:
  assumes "policy_inv p" "policy_inv overlay"
  shows "matches_for_command env (merge_overlay p overlay) cmd None
      = matches_for_command env p cmd None @ matches_for_command env overlay cmd None
    \<and> (matches_for_command env q cmd None \<noteq> [] \<and> (q = p \<or> q = overlay)
      \<and> check_with_options env q cmd fallback options = Some e
      \<and> check_with_options env (merge_overlay p overlay) cmd fallback options = Some e'
      \<longrightarrow> eval_decision e \<le> eval_decision e')"
proof -
  have merged: "exact_matches (merge_overlay p overlay) cmd = exact_matches p cmd @ exact_matches overlay cmd"
    using assms by (intro merge_overlay_matches) (simp_all add: policy_inv_def)
  have "eval_decision e \<le> eval_decision e'"
    if that: "exact_matches q cmd \<noteq> []" "q = p \<or> q = overlay" "check_with_options env q cmd fallback options = Some e"
      "check_with_options env (merge_overlay p overlay) cmd fallback options = Some e'"
  proof -
    have sub: "set (exact_matches q cmd) \<subseteq> set (exact_matches (merge_overlay p overlay) cmd)"
      using merged that(2) by auto
    then have "exact_matches (merge_overlay p overlay) cmd \<noteq> []" using that(1) by auto
    then have "eval_decision e = Max (rule_match_decision ` set (exact_matches q cmd))"
      "eval_decision e' = Max (rule_match_decision ` set (exact_matches (merge_overlay p overlay) cmd))"
      using that(3,4) check_exact [OF that(1), of env fallback options]
        check_exact [of "merge_overlay p overlay" cmd env fallback options] by auto
    then show ?thesis
      using Max_mono [OF image_mono [OF sub], of rule_match_decision] that(1) by (simp only: finite_imageI finite_set) simp
  qed
  then show ?thesis using merged matches_for_command_exact [of env _ cmd None] by auto
qed

definition sample_rule :: prefix_rule where
  "sample_rule = exact_rule (lit ''git'') [lit ''push''] Forbidden"

definition sample_policy :: policy where
  "sample_policy = policy_empty\<lparr>rules_by_program := [(lit ''git'', [exact_rule (lit ''git'') [] Allow])]\<rparr>"

definition sample_overlay :: policy where
  "sample_overlay = policy_empty\<lparr>rules_by_program := [(lit ''git'', [sample_rule])]\<rparr>"

lemma sample_policies_inv: "policy_inv sample_policy" "policy_inv sample_overlay"
  using policy_inv_add_prefix [OF policy_inv_empty, of "[lit ''git'']" Allow]
    policy_inv_add_prefix [OF policy_inv_empty, of "[lit ''git'', lit ''push'']" Forbidden]
  by (simp_all add: add_prefix_rule_def sample_policy_def sample_overlay_def sample_rule_def mm_insert_def policy_empty_def)

theorem merge_overlay_monotone_witness:
  "eval_decision \<lparr>eval_decision = Allow, eval_matched_rules = [PrefixRuleMatch [lit ''git''] Allow None None]\<rparr>
    \<le> eval_decision \<lparr>eval_decision = Forbidden, eval_matched_rules =
        [PrefixRuleMatch [lit ''git''] Allow None None, PrefixRuleMatch [lit ''git'', lit ''push''] Forbidden None None]\<rparr>"
proof -
  let ?env = "\<lparr>env_home = None, env_cwd = Inr [RootDir]\<rparr>" and ?cmd = "[lit ''git'', lit ''push'']"
  have "check_with_options ?env sample_policy ?cmd (\<lambda>_. Prompt) resolving_options
      = Some \<lparr>eval_decision = Allow, eval_matched_rules = [PrefixRuleMatch [lit ''git''] Allow None None]\<rparr>"
    by code_simp
  moreover have "check_with_options ?env (merge_overlay sample_policy sample_overlay) ?cmd (\<lambda>_. Prompt) resolving_options
      = Some \<lparr>eval_decision = Forbidden, eval_matched_rules =
        [PrefixRuleMatch [lit ''git''] Allow None None, PrefixRuleMatch [lit ''git'', lit ''push''] Forbidden None None]\<rparr>"
    by code_simp
  moreover have "matches_for_command ?env sample_policy ?cmd None \<noteq> []"
    by code_simp
  ultimately show ?thesis
    using merge_overlay_monotone [OF sample_policies_inv, of ?env ?cmd sample_policy "\<lambda>_. Prompt" resolving_options] by blast
qed

text \<open>
  The compiled domains follow the last deciding rule: a host is on the allow list exactly when
  the last rule for it that allows or forbids allows it, and on the deny list exactly when that
  rule forbids it. No host is on both lists and none is listed twice.
\<close>

lemma compiled_network_domains_last_wins:
  "distinct (fst (compiled_network_domains p)) \<and> distinct (snd (compiled_network_domains p))
   \<and> (host \<in> set (fst (compiled_network_domains p)) \<longleftrightarrow> last_opt (deciding host (network_rules p)) = Some Allow)
   \<and> (host \<in> set (snd (compiled_network_domains p)) \<longleftrightarrow> last_opt (deciding host (network_rules p)) = Some Forbidden)"
  unfolding compiled_network_domains_def by (rule compile_domains)

text \<open>
  A prefix rule that is added decides every command that starts with its prefix at least as
  strictly as the rule says, and matches no other command: there the policy answers as before.
\<close>

lemma add_prefix_rule_effect:
  assumes "policy_inv p" "add_prefix_rule p toks d = Inr p'"
  shows "matches_for_command env p' cmd None = matches_for_command env p cmd None
      @ (if take (length toks) cmd = toks then [PrefixRuleMatch toks d None None] else [])"
proof -
  obtain first rest where toks: "toks = first # rest"
    and p': "p' = p\<lparr>rules_by_program := mm_insert first (exact_rule first rest d) (rules_by_program p)\<rparr>"
    using assms(2) by (cases toks) (auto simp: add_prefix_rule_def)
  have single: "list_all2 (\<lambda>t s. s \<in> set (alternatives t)) (map Single xs) ys \<longleftrightarrow> ys = xs" for xs ys
    by (induction xs arbitrary: ys) (auto simp: list_all2_Cons1)
  have new: "rule_matches (exact_rule first rest d) cmd
      = (if take (length toks) cmd = toks then Some (PrefixRuleMatch toks d None None) else None)"
  proof (cases "take (length toks) cmd = toks")
    case True
    then have "cmd = first # rest @ drop (length toks) cmd" by (metis append_take_drop_id toks append_Cons)
    then have "matches_prefix (rule_pattern (exact_rule first rest d)) cmd = Some toks"
      unfolding matches_prefix_eq_Some_iff by (auto simp: exact_rule_def single toks)
    then show ?thesis using True by (simp add: rule_matches_def exact_rule_def)
  next
    case False
    then have "matches_prefix (rule_pattern (exact_rule first rest d)) cmd \<noteq> Some m" for m
      unfolding matches_prefix_eq_Some_iff by (auto simp: exact_rule_def single toks)
    then show ?thesis using False by (auto simp: rule_matches_def)
  qed
  have inv: "mm_inv (rules_by_program p)" using assms(1) by (simp add: policy_inv_def)
  have "exact_matches p' cmd = exact_matches p cmd
      @ (if take (length toks) cmd = toks then [PrefixRuleMatch toks d None None] else [])"
    using new by (cases cmd) (auto simp: exact_matches_values p' mm.vals_insert [OF inv] filter_matches_append toks,
      auto simp: filter_matches_def List.map_filter_def toks)
  then show ?thesis using matches_for_command_exact [of env _ cmd None] by simp
qed

lemma distinct_remdups_adj_sorted: "sorted xs \<Longrightarrow> distinct (remdups_adj xs)"
proof (induction xs rule: remdups_adj.induct)
  case (3 x y xs)
  then show ?case by (cases "x = y") (auto simp: antisym)
qed simp_all

text \<open>
  Matching finds every rule: under the invariant that each rule is stored under its own program,
  the matches of a command are exactly the matches of all the rules of the policy, although only
  those stored under the first token are tried.
\<close>

lemma matches_complete:
  assumes "policy_inv p"
  shows "set (matches_for_command env p cmd None)
    = {m. \<exists>r. r \<in> snd ` set (mm_pairs (rules_by_program p)) \<and> rule_matches r cmd = Some m}"
proof -
  have "matches_for_command env p cmd None = exact_matches p cmd"
    using matches_for_command_exact [of env p cmd None] by simp
  then show ?thesis using exact_matches_complete [OF assms, of cmd] by (simp add: Bex_def)
qed

text \<open>
  The list of allowed prefixes is sorted, has no duplicates, and holds exactly the rendered
  prefixes of the rules that allow.
\<close>

lemma get_allowed_prefixes_spec:
  "sorted (get_allowed_prefixes p) \<and> distinct (get_allowed_prefixes p)
   \<and> set (get_allowed_prefixes p)
     = {rule_prefix r |r. r \<in> snd ` set (mm_pairs (rules_by_program p)) \<and> rule_decision r = Allow}"
  by (auto simp: get_allowed_prefixes_def distinct_remdups_adj_sorted sorted_remdups_adj)

section \<open>Programs given by a relative path\<close>

text \<open>
  Host executable resolution takes any program token to an absolute path, relative ones against
  the current directory of the process: a program named by a relative path is decided by the
  rules for its last component.
\<close>

lemma absolute_try_from_relative:
  assumes "\<not> starts_with raw (lit ''~'')" "\<not> is_absolute (path_of raw)"
  shows "absolute_try_from \<lparr>env_home = home, env_cwd = Inr cwd\<rparr> raw = Inr (absolutize_from (path_of raw) cwd)"
  using assms by (simp add: absolute_try_from_def from_absolute_path_def absolutize_def
      maybe_expand_home_directory_def strip_prefix_def)

text \<open>
  With host executable resolution on, a program given by a relative path is decided by the rules
  for its last component, as if it were that program: unless host executables are listed for the
  name, the command matches what those rules match, wherever the relative path leads.
\<close>

lemma relative_program_uses_basename_rules:
  assumes "\<not> starts_with raw (lit ''~'')" "\<not> is_absolute (path_of raw)"
    and "file_name (absolutize_from (path_of raw) cwd) = Some name"
    and "mm_get_vec (rules_by_program p) name = Some rules" "host_executables_by_name p name = None"
  shows "match_host_executable_rules \<lparr>env_home = home, env_cwd = Inr cwd\<rparr> p (raw # args)
    = map (with_resolved_program (absolutize_from (path_of raw) cwd)) (filter_matches (name # args) rules)"
  using assms absolute_try_from_relative [OF assms(1,2)]
  by (simp add: match_host_executable_rules_def executable_path_lookup_key_def executable_lookup_key_def)

end
