(* ===== verification/Exec_Policy_Parser.thy ===== *)
theory Exec_Policy_Parser
  imports Exec_Policy
begin

text \<open>
  Model of \<open>engine/execpolicy/src/parser.rs\<close>: the builtins that a policy file calls, the builder they
  fill, and the check of the examples after each file. The Starlark interpreter is third-party: it
  enters as the list of builtin calls that a file makes (the builtins return nothing, so the list
  does not depend on them) with the error that the file itself ends in, if any. \<open>shlex::split\<close> is
  a parameter of the calls that use it.
\<close>

section \<open>Values\<close>

datatype starlark_value = VStr rstr | VList "starlark_value list" | VOther rstr

fun unpack_str :: "starlark_value \<Rightarrow> rstr option" where
  "unpack_str (VStr s) = Some s"
| "unpack_str _ = None"

fun get_type :: "starlark_value \<Rightarrow> rstr" where
  "get_type (VStr _) = lit ''string''"
| "get_type (VList _) = lit ''list''"
| "get_type (VOther t) = t"

definition unpack_tokens ::
    "(rstr \<Rightarrow> policy_error) \<Rightarrow> starlark_value list \<Rightarrow> policy_error + rstr list" where
  "unpack_tokens err vs = collect_res (\<lambda>v. case unpack_str v of
      Some s \<Rightarrow> Inr s | None \<Rightarrow> Inl (err (get_type v))) vs"

fun parse_pattern_token :: "starlark_value \<Rightarrow> policy_error + pattern_token" where
  "parse_pattern_token (VStr s) = Inr (Single s)"
| "parse_pattern_token (VList vs) =
     res_bind (unpack_tokens (\<lambda>ty. InvalidPattern
         (lit ''pattern alternative must be a string (got '' @ ty @ lit '')'')) vs) (\<lambda>tokens.
       case tokens of
         [] \<Rightarrow> Inl (InvalidPattern (lit ''pattern alternatives cannot be empty''))
       | [single] \<Rightarrow> Inr (Single single)
       | _ \<Rightarrow> Inr (Alts tokens))"
| "parse_pattern_token v = Inl (InvalidPattern
     (lit ''pattern element must be a string or list of strings (got '' @ get_type v @ lit '')''))"

definition parse_pattern :: "starlark_value list \<Rightarrow> policy_error + pattern_token list" where
  "parse_pattern vs =
     res_bind (collect_res parse_pattern_token vs) (\<lambda>tokens.
       if tokens = [] then Inl (InvalidPattern (lit ''pattern cannot be empty'')) else Inr tokens)"

definition parse_string_example :: "(rstr \<Rightarrow> rstr list option) \<Rightarrow> rstr \<Rightarrow> policy_error + rstr list" where
  "parse_string_example shlex_split raw =
     (case shlex_split raw of
        None \<Rightarrow> Inl (InvalidExample (lit ''example string has invalid shell syntax''))
      | Some tokens \<Rightarrow>
        if tokens = [] then Inl (InvalidExample (lit ''example cannot be an empty string'')) else Inr tokens)"

definition parse_list_example :: "starlark_value list \<Rightarrow> policy_error + rstr list" where
  "parse_list_example vs =
     res_bind (unpack_tokens (\<lambda>ty. InvalidExample
         (lit ''example tokens must be strings (got '' @ ty @ lit '')'')) vs) (\<lambda>tokens.
       if tokens = [] then Inl (InvalidExample (lit ''example cannot be an empty list'')) else Inr tokens)"

fun parse_example :: "(rstr \<Rightarrow> rstr list option) \<Rightarrow> starlark_value \<Rightarrow> policy_error + rstr list" where
  "parse_example shlex_split (VStr raw) = parse_string_example shlex_split raw"
| "parse_example shlex_split (VList vs) = parse_list_example vs"
| "parse_example shlex_split v = Inl (InvalidExample
     (lit ''example must be a string or list of strings (got '' @ get_type v @ lit '')''))"

definition parse_examples ::
    "(rstr \<Rightarrow> rstr list option) \<Rightarrow> starlark_value list option \<Rightarrow> policy_error + rstr list list" where
  "parse_examples shlex_split examples =
     (case examples of None \<Rightarrow> Inr [] | Some vs \<Rightarrow> collect_res (parse_example shlex_split) vs)"

definition parse_literal_absolute_path :: "path_env \<Rightarrow> rstr \<Rightarrow> policy_error + path" where
  "parse_literal_absolute_path env raw =
     (if \<not> is_absolute (path_of raw) then
        Inl (InvalidRule (lit ''host_executable paths must be absolute (got '' @ raw @ lit '')''))
      else map_err (\<lambda>e. InvalidRule (lit ''invalid absolute path `'' @ raw @ lit ''`: '' @ e))
        (absolute_try_from env raw))"

definition validate_host_executable_name :: "rstr \<Rightarrow> policy_error + unit" where
  "validate_host_executable_name name =
     (if name = [] then Inl (InvalidRule (lit ''host_executable name cannot be empty''))
      else if length (path_of name) \<noteq> 1 \<or> file_name (path_of name) \<noteq> Some name then
        Inl (InvalidRule (lit ''host_executable name must be a bare executable name (got '' @ name @ lit '')''))
      else Inr ())"

definition parse_network_rule_decision :: "rstr \<Rightarrow> policy_error + decision" where
  "parse_network_rule_decision raw = (if raw = lit ''deny'' then Inr Forbidden else parse_decision raw)"

definition parse_justification :: "rstr option \<Rightarrow> policy_error + rstr option" where
  "parse_justification justification =
     (case justification of
        Some raw \<Rightarrow>
          if trim raw = [] then Inl (InvalidRule (lit ''justification cannot be empty'')) else Inr (Some raw)
      | None \<Rightarrow> Inr None)"

section \<open>The builder\<close>

record pending_example_validation =
  pending_rules :: "prefix_rule list"
  pending_matches :: "rstr list list"
  pending_not_matches :: "rstr list list"
  pending_location :: "error_location option"

record policy_builder =
  builder_rules :: "prefix_rule multimap"
  builder_network_rules :: "network_rule list"
  builder_host_executables :: "rstr \<Rightarrow> path list option"
  pending_example_validations :: "pending_example_validation list"

definition new_builder :: policy_builder where
  "new_builder = \<lparr>builder_rules = [], builder_network_rules = [], builder_host_executables = Map.empty,
     pending_example_validations = []\<rparr>"

definition add_rule :: "prefix_rule \<Rightarrow> policy_builder \<Rightarrow> policy_builder" where
  "add_rule r b = b\<lparr>builder_rules := mm_insert (program r) r (builder_rules b)\<rparr>"

definition builder_add_network_rule :: "network_rule \<Rightarrow> policy_builder \<Rightarrow> policy_builder" where
  "builder_add_network_rule r b = b\<lparr>builder_network_rules := builder_network_rules b @ [r]\<rparr>"

definition add_host_executable :: "rstr \<Rightarrow> path list \<Rightarrow> policy_builder \<Rightarrow> policy_builder" where
  "add_host_executable name paths b =
     b\<lparr>builder_host_executables := (builder_host_executables b)(name \<mapsto> paths)\<rparr>"

definition add_pending_example_validation ::
    "pending_example_validation \<Rightarrow> policy_builder \<Rightarrow> policy_builder" where
  "add_pending_example_validation v b =
     b\<lparr>pending_example_validations := pending_example_validations b @ [v]\<rparr>"

definition attach_validation_location :: "error_location option \<Rightarrow> policy_error \<Rightarrow> policy_error" where
  "attach_validation_location location e = (case location of Some l \<Rightarrow> with_location l e | None \<Rightarrow> e)"

text \<open>The policy that holds just the rules of one call.\<close>

definition validation_policy :: "policy_builder \<Rightarrow> pending_example_validation \<Rightarrow> policy" where
  "validation_policy b v =
     \<lparr>rules_by_program = fold (\<lambda>r. mm_insert (program r) r) (pending_rules v) [],
      network_rules = [], host_executables_by_name = builder_host_executables b\<rparr>"

definition validate_one ::
    "path_env \<Rightarrow> (rstr list \<Rightarrow> rstr option) \<Rightarrow> policy_builder \<Rightarrow> pending_example_validation \<Rightarrow> policy_error + unit" where
  "validate_one env try_join b v =
     map_err (attach_validation_location (pending_location v))
       (res_bind (validate_not_match_examples env try_join (validation_policy b v) (pending_not_matches v)) (\<lambda>_.
         validate_match_examples env try_join (validation_policy b v) (pending_rules v) (pending_matches v)))"

fun validate_all ::
    "path_env \<Rightarrow> (rstr list \<Rightarrow> rstr option) \<Rightarrow> policy_builder \<Rightarrow> pending_example_validation list \<Rightarrow> policy_error + unit" where
  "validate_all env try_join b [] = Inr ()"
| "validate_all env try_join b (v # vs) =
     res_bind (validate_one env try_join b v) (\<lambda>_. validate_all env try_join b vs)"

definition validate_pending_examples_from ::
    "path_env \<Rightarrow> (rstr list \<Rightarrow> rstr option) \<Rightarrow> policy_builder \<Rightarrow> nat \<Rightarrow> policy_error + unit" where
  "validate_pending_examples_from env try_join b start =
     validate_all env try_join b (drop start (pending_example_validations b))"

definition build :: "policy_builder \<Rightarrow> policy" where
  "build b = \<lparr>rules_by_program = builder_rules b, network_rules = builder_network_rules b,
     host_executables_by_name = builder_host_executables b\<rparr>"

section \<open>The builtins\<close>

text \<open>One rule for each alternative of the first token.\<close>

definition expand_rules ::
    "pattern_token \<Rightarrow> pattern_token list \<Rightarrow> decision \<Rightarrow> rstr option \<Rightarrow> prefix_rule list" where
  "expand_rules first rest d justification =
     map (\<lambda>head. \<lparr>rule_pattern = \<lparr>pattern_first = head, pattern_rest = rest\<rparr>,
       rule_decision = d, rule_justification = justification\<rparr>) (alternatives first)"

definition prefix_rule_call ::
    "(rstr \<Rightarrow> rstr list option) \<Rightarrow> starlark_value list \<Rightarrow> rstr option \<Rightarrow> starlark_value list option
     \<Rightarrow> starlark_value list option \<Rightarrow> rstr option \<Rightarrow> error_location option \<Rightarrow> policy_builder
     \<Rightarrow> policy_error + policy_builder" where
  "prefix_rule_call shlex_split pattern decision_arg match_arg not_match_arg justification_arg location b =
     res_bind (case decision_arg of Some raw \<Rightarrow> parse_decision raw | None \<Rightarrow> Inr Allow) (\<lambda>d.
     res_bind (parse_justification justification_arg) (\<lambda>justification.
     res_bind (parse_pattern pattern) (\<lambda>pattern_tokens.
     res_bind (parse_examples shlex_split match_arg) (\<lambda>matches.
     res_bind (parse_examples shlex_split not_match_arg) (\<lambda>not_matches.
       case pattern_tokens of
         [] \<Rightarrow> Inl (InvalidPattern (lit ''pattern cannot be empty''))
       | first # rest \<Rightarrow>
         let rules = expand_rules first rest d justification in
         Inr (fold add_rule rules
           (add_pending_example_validation \<lparr>pending_rules = rules, pending_matches = matches,
             pending_not_matches = not_matches, pending_location = location\<rparr> b)))))))"

definition network_rule_call ::
    "rstr \<Rightarrow> rstr \<Rightarrow> rstr \<Rightarrow> rstr option \<Rightarrow> policy_builder \<Rightarrow> policy_error + policy_builder" where
  "network_rule_call host protocol_arg decision_arg justification_arg b =
     res_bind (parse_protocol protocol_arg) (\<lambda>protocol.
     res_bind (parse_network_rule_decision decision_arg) (\<lambda>d.
     res_bind (parse_justification justification_arg) (\<lambda>justification.
     res_bind (normalize_network_rule_host host) (\<lambda>h.
       Inr (builder_add_network_rule \<lparr>net_host = h, net_protocol = protocol, net_decision = d,
         net_justification = justification\<rparr> b)))))"

definition basename_error :: "rstr \<Rightarrow> rstr \<Rightarrow> policy_error" where
  "basename_error raw name = InvalidRule
     (lit ''host_executable path `'' @ raw @ lit ''` must have basename `'' @ name @ lit ''`'')"

fun parse_host_paths ::
    "path_env \<Rightarrow> rstr \<Rightarrow> starlark_value list \<Rightarrow> path list \<Rightarrow> policy_error + path list" where
  "parse_host_paths env name [] parsed = Inr parsed"
| "parse_host_paths env name (v # vs) parsed =
     (case unpack_str v of
        None \<Rightarrow> Inl (InvalidRule
          (lit ''host_executable paths must be strings (got '' @ get_type v @ lit '')''))
      | Some raw \<Rightarrow>
        res_bind (parse_literal_absolute_path env raw) (\<lambda>p.
          case executable_path_lookup_key p of
            None \<Rightarrow> Inl (basename_error raw name)
          | Some path_name \<Rightarrow>
            if path_name \<noteq> executable_lookup_key name then Inl (basename_error raw name)
            else parse_host_paths env name vs
              (if list_ex (\<lambda>e. e = p) parsed then parsed else parsed @ [p])))"

definition host_executable_call ::
    "path_env \<Rightarrow> rstr \<Rightarrow> starlark_value list \<Rightarrow> policy_builder \<Rightarrow> policy_error + policy_builder" where
  "host_executable_call env name paths b =
     res_bind (validate_host_executable_name name) (\<lambda>_.
     res_bind (parse_host_paths env name paths []) (\<lambda>parsed.
       Inr (add_host_executable (executable_lookup_key name) parsed b)))"

section \<open>Policy files\<close>

datatype builtin_call =
    CallPrefixRule "starlark_value list" "rstr option" "starlark_value list option"
      "starlark_value list option" "rstr option" "error_location option"
  | CallNetworkRule rstr rstr rstr "rstr option"
  | CallHostExecutable rstr "starlark_value list"

fun builtin_step ::
    "path_env \<Rightarrow> (rstr \<Rightarrow> rstr list option) \<Rightarrow> builtin_call \<Rightarrow> policy_builder \<Rightarrow> policy_error + policy_builder" where
  "builtin_step env shlex_split (CallPrefixRule pat d m nm j loc) b = prefix_rule_call shlex_split pat d m nm j loc b"
| "builtin_step env shlex_split (CallNetworkRule h p d j) b = network_rule_call h p d j b"
| "builtin_step env shlex_split (CallHostExecutable n ps) b = host_executable_call env n ps b"

text \<open>A failing builtin ends the evaluation; what earlier calls added stays in the builder.\<close>

fun run_calls ::
    "path_env \<Rightarrow> (rstr \<Rightarrow> rstr list option) \<Rightarrow> builtin_call list \<Rightarrow> policy_builder
     \<Rightarrow> policy_builder \<times> (policy_error + unit)" where
  "run_calls env shlex_split [] b = (b, Inr ())"
| "run_calls env shlex_split (c # cs) b =
     (case builtin_step env shlex_split c b of
        Inl e \<Rightarrow> (b, Inl (Starlark (StarlarkBuiltin e)))
      | Inr b' \<Rightarrow> run_calls env shlex_split cs b')"

text \<open>What the interpreter makes of a file: a syntax error, or calls and the error at their end.\<close>

datatype module_run = SyntaxError rstr | ModuleRun "builtin_call list" "rstr option"

definition parse_policy ::
    "path_env \<Rightarrow> (rstr \<Rightarrow> rstr list option) \<Rightarrow> (rstr list \<Rightarrow> rstr option) \<Rightarrow> (rstr \<Rightarrow> rstr \<Rightarrow> module_run)
     \<Rightarrow> rstr \<Rightarrow> rstr \<Rightarrow> policy_builder \<Rightarrow> policy_builder \<times> (policy_error + unit)" where
  "parse_policy env shlex_split try_join starlark policy_identifier contents b =
     (let pending_validation_count = length (pending_example_validations b) in
      case starlark policy_identifier contents of
        SyntaxError e \<Rightarrow> (b, Inl (Starlark (StarlarkOther e)))
      | ModuleRun calls final_error \<Rightarrow>
        (case run_calls env shlex_split calls b of
           (b', Inl e) \<Rightarrow> (b', Inl e)
         | (b', Inr _) \<Rightarrow>
           (case final_error of
              Some e \<Rightarrow> (b', Inl (Starlark (StarlarkOther e)))
            | None \<Rightarrow> (b', validate_pending_examples_from env try_join b' pending_validation_count))))"

fun load_policies ::
    "path_env \<Rightarrow> (rstr \<Rightarrow> rstr list option) \<Rightarrow> (rstr list \<Rightarrow> rstr option) \<Rightarrow> (rstr \<Rightarrow> rstr \<Rightarrow> module_run)
     \<Rightarrow> (rstr \<Rightarrow> rstr option) \<Rightarrow> rstr list \<Rightarrow> policy_builder \<Rightarrow> (rstr \<times> policy_error option) + policy" where
  "load_policies env shlex_split try_join starlark read_to_string [] b = Inr (build b)"
| "load_policies env shlex_split try_join starlark read_to_string (policy_path # paths) b =
     (case read_to_string policy_path of
        None \<Rightarrow> Inl (lit ''failed to read policy at '' @ policy_path, None)
      | Some contents \<Rightarrow>
        (case parse_policy env shlex_split try_join starlark policy_path contents b of
           (_, Inl e) \<Rightarrow> Inl (lit ''failed to parse policy at '' @ policy_path, Some e)
         | (b', Inr _) \<Rightarrow> load_policies env shlex_split try_join starlark read_to_string paths b'))"

section \<open>What the builder keeps\<close>

definition builder_inv :: "policy_builder \<Rightarrow> bool" where
  "builder_inv b \<longleftrightarrow> policy_inv (build b)"

lemma new_builder_inv: "builder_inv new_builder"
  using policy_inv_empty by (simp add: builder_inv_def build_def new_builder_def policy_empty_def)

lemma add_rule_inv: "builder_inv b \<Longrightarrow> builder_inv (add_rule r b)"
  by (auto simp: builder_inv_def build_def add_rule_def policy_inv_def mm.inv_insert mm.vals_insert)

lemma fold_add_rule_inv: "builder_inv b \<Longrightarrow> builder_inv (fold add_rule rs b)"
  by (induction rs arbitrary: b) (simp_all add: add_rule_inv)

lemma add_pending_inv: "builder_inv (add_pending_example_validation v b) \<longleftrightarrow> builder_inv b"
  by (simp add: builder_inv_def build_def add_pending_example_validation_def)

lemma builtin_step_inv:
  assumes "builder_inv b" "builtin_step env shlex_split c b = Inr b'"
  shows "builder_inv b'"
proof (cases c)
  case (CallPrefixRule pat d m nm j loc)
  then show ?thesis using assms
    by (auto simp: prefix_rule_call_def res_iffs Let_def fold_add_rule_inv add_pending_inv neq_Nil_conv split: list.splits)
next
  case (CallNetworkRule h p d j)
  then obtain h' r where "normalize_network_rule_host h = Inr h'" "b' = builder_add_network_rule r b" "net_host r = h'"
    using assms(2) by (auto simp: network_rule_call_def res_iffs)
  then show ?thesis using assms(1)
    by (auto simp: builder_inv_def build_def policy_inv_def builder_add_network_rule_def)
next
  case (CallHostExecutable n ps)
  then show ?thesis using assms
    by (auto simp: host_executable_call_def res_iffs builder_inv_def build_def policy_inv_def add_host_executable_def)
qed

lemma run_calls_inv: "builder_inv b \<Longrightarrow> builder_inv (fst (run_calls env shlex_split cs b))"
  by (induction cs arbitrary: b) (auto split: sum.splits dest: builtin_step_inv)

lemma parse_policy_inv:
  "builder_inv b \<Longrightarrow> builder_inv (fst (parse_policy env shlex_split try_join starlark ident contents b))"
  using run_calls_inv [of b env shlex_split]
  by (auto simp: parse_policy_def Let_def split: module_run.splits prod.splits sum.splits option.splits)
    (metis fst_conv)+

section \<open>Examples\<close>

lemma validate_not_match_examples_iff:
  "validate_not_match_examples env tj p es = Inr () \<longleftrightarrow>
     list_all (\<lambda>e. matches_for_command_with_options env p e None resolving_options = []) es"
  by (induction es) (auto split: list.splits)

lemma validate_match_examples_iff:
  "validate_match_examples env tj p rs es = Inr () \<longleftrightarrow>
     list_all (\<lambda>e. matches_for_command_with_options env p e None resolving_options \<noteq> []) es"
  by (auto simp: validate_match_examples_def Let_def list_all_iff filter_empty_conv)

lemma validate_all_iff:
  "validate_all env tj b vs = Inr () \<longleftrightarrow> list_all (\<lambda>v. validate_one env tj b v = Inr ()) vs"
  by (induction vs) (auto simp: res_iffs)

lemma validate_one_iff:
  "validate_one env tj b v = Inr () \<longleftrightarrow>
     list_all (\<lambda>e. matches_for_command_with_options env (validation_policy b v) e None resolving_options \<noteq> []) (pending_matches v)
     \<and> list_all (\<lambda>e. matches_for_command_with_options env (validation_policy b v) e None resolving_options = []) (pending_not_matches v)"
  by (auto simp: validate_one_def res_iffs validate_match_examples_iff validate_not_match_examples_iff)

text \<open>The rules of one call match what its whole pattern matches, alternatives of the program included.\<close>

lemma expand_rules_match:
  "(\<exists>r\<in>set (expand_rules first rest d j). rule_matches r cmd = Some m) \<longleftrightarrow>
     (\<exists>toks tail. cmd = toks @ tail \<and> list_all2 (\<lambda>t s. s \<in> set (alternatives t)) (first # rest) toks
       \<and> m = PrefixRuleMatch toks d None j)"
  by (auto simp: expand_rules_def rule_matches_def matches_prefix_eq_Some_iff list_all2_Cons1)

section \<open>Properties\<close>

text \<open>
  Whatever files are parsed, and whether or not they fail, the policy built in the end is well
  formed: one entry per program, every rule stored under its own program, and only normalised
  hosts in the network rules.
\<close>

lemma parsed_policy_inv:
  "policy_inv (build (foldl (\<lambda>b (ident, contents).
      fst (parse_policy env shlex_split try_join starlark ident contents b)) new_builder files))"
proof -
  have "builder_inv b \<Longrightarrow> builder_inv (foldl (\<lambda>b (ident, contents).
      fst (parse_policy env shlex_split try_join starlark ident contents b)) b files)" for b
    by (induction files arbitrary: b) (auto simp: parse_policy_inv case_prod_beta)
  then show ?thesis using new_builder_inv by (simp add: builder_inv_def)
qed

text \<open>
  A file that parses has kept its promises: for every rule call of the file, each example
  given as matching is matched by the rules of that call and none of those given as not matching
  is.
\<close>

lemma parse_policy_examples_hold:
  assumes "parse_policy env shlex_split try_join starlark ident contents b = (b', Inr ())"
  shows "list_all (\<lambda>v.
      list_all (\<lambda>e. matches_for_command_with_options env (validation_policy b' v) e None resolving_options \<noteq> []) (pending_matches v)
      \<and> list_all (\<lambda>e. matches_for_command_with_options env (validation_policy b' v) e None resolving_options = []) (pending_not_matches v))
    (drop (length (pending_example_validations b)) (pending_example_validations b'))"
proof -
  have "validate_pending_examples_from env try_join b' (length (pending_example_validations b)) = Inr ()"
    using assms by (auto simp: parse_policy_def Let_def split: module_run.splits prod.splits sum.splits option.splits)
  then show ?thesis by (simp add: validate_pending_examples_from_def validate_all_iff validate_one_iff)
qed

definition sample_module :: "rstr \<Rightarrow> rstr \<Rightarrow> module_run" where
  "sample_module ident contents = ModuleRun
     [CallPrefixRule [VList [VStr (lit ''git''), VStr (lit ''hg'')], VStr (lit ''status'')] None
        (Some [VList [VStr (lit ''hg''), VStr (lit ''status'')]]) (Some [VList [VStr (lit ''git''), VStr (lit ''push'')]])
        None None] None"

abbreviation (input) sample_parse :: "policy_builder \<times> (policy_error + unit)" where
  "sample_parse \<equiv> parse_policy \<lparr>env_home = None, env_cwd = Inr [RootDir]\<rparr> (\<lambda>_. None) (\<lambda>_. None) sample_module [] [] new_builder"

text \<open>
  A rule call with alternatives for the program matches what its whole pattern matches: one of
  the rules it adds matches a command exactly when the command starts with an admissible token for
  each element of the pattern, the first included.
\<close>

lemma expand_rules_complete:
  "(\<exists>r. r \<in> set (expand_rules first rest d j) \<and> rule_matches r cmd = Some m) \<longleftrightarrow>
     (\<exists>toks tail. cmd = toks @ tail \<and> list_all2 (\<lambda>t s. s \<in> set (alternatives t)) (first # rest) toks
       \<and> m = PrefixRuleMatch toks d None j)"
  using expand_rules_match [of first rest d j cmd m] by (simp add: Bex_def)

end
