(* ===== verification/Dangerous_Command.thy ===== *)
theory Dangerous_Command
  imports Hexa_Prelude
begin

text \<open>
  Model of \<open>engine/shell-command/src/command_safety/is_dangerous_command.rs\<close>: the classification of a
  tokenised command as dangerous, looking through \<open>sudo\<close>, \<open>env\<close>, \<open>trap\<close> and shell scripts up to
  a bounded depth. The parser of shell scripts (built on a third-party grammar) and the Windows
  classifiers are the fields of \<open>shell_parsers\<close>.
\<close>

section \<open>Classification\<close>

datatype dangerous_command_platform = Posix | Windows

datatype dangerous_command_match = ForcedRm | Other

definition MAX_DANGEROUS_COMMAND_WRAPPER_DEPTH :: nat where
  "MAX_DANGEROUS_COMMAND_WRAPPER_DEPTH = 8"

record shell_parsers =
  parse_shell_lc_plain_commands :: "rstr list \<Rightarrow> rstr list list option"
  parse_shell_lc_literal_commands :: "rstr list \<Rightarrow> rstr list list option"
  parse_powershell_command :: "rstr list \<Rightarrow> rstr list list option"
  parse_powershell_script :: "rstr \<Rightarrow> rstr list list option"
  extract_powershell_command :: "rstr list \<Rightarrow> (rstr \<times> rstr) option"
  is_dangerous_command_windows :: "rstr list \<Rightarrow> bool"
  is_dangerous_powershell_words :: "rstr list \<Rightarrow> bool"

definition is_ascii_alphabetic :: "rchar \<Rightarrow> bool" where
  "is_ascii_alphabetic c \<longleftrightarrow> (65 \<le> c \<and> c \<le> 90) \<or> (97 \<le> c \<and> c \<le> 122)"

fun strip_drive :: "rstr \<Rightarrow> rstr" where
  "strip_drive (drive # colon # rest) =
     (if colon = 58 \<and> is_ascii_alphabetic drive then rest else drive # colon # rest)"
| "strip_drive name = name"

definition executable_name_lookup_key :: "dangerous_command_platform \<Rightarrow> rstr \<Rightarrow> rstr option" where
  "executable_name_lookup_key platform raw =
     (case platform of
        Posix \<Rightarrow> (let name = last (split_char 47 raw) in if name = [] then None else Some name)
      | Windows \<Rightarrow>
        (let piece = last (split_char 47 (map (\<lambda>c. if c = 92 then 47 else c) raw)) in
         if piece = [] then None
         else
           let name = to_ascii_lowercase (strip_drive piece) in
           case find_map (strip_suffix name) [lit ''.exe'', lit ''.cmd'', lit ''.bat'', lit ''.com''] of
             Some stripped \<Rightarrow> Some stripped
           | None \<Rightarrow> if name = [] then None else Some name))"

definition rm_args_include_force_option :: "rstr list \<Rightarrow> bool" where
  "rm_args_include_force_option args =
     list_ex (\<lambda>arg. arg = lit ''--force''
       \<or> (case strip_prefix arg (lit ''-'') of
            Some flags \<Rightarrow> \<not> starts_with flags (lit ''-'') \<and> 102 \<in> set flags
          | None \<Rightarrow> False))
       (takeWhile (\<lambda>arg. arg \<noteq> lit ''--'') args)"

text \<open>The command that \<open>env\<close> runs: what is left after its options and assignments.\<close>

fun env_command :: "rstr list \<Rightarrow> rstr list" where
  "env_command [] = []"
| "env_command (argument # rest) =
     (if argument = lit ''--'' then rest
      else if argument = lit ''-i'' \<or> argument = lit ''--ignore-environment''
        \<or> (case split_once 61 argument of
             Some (name, _) \<Rightarrow> name \<noteq> [] \<and> \<not> starts_with name (lit ''-'')
           | None \<Rightarrow> False)
      then env_command rest
      else argument # rest)"

definition trap_action :: "rstr list \<Rightarrow> rstr option" where
  "trap_action args =
     (let operands = (if args \<noteq> [] \<and> hd args = lit ''--'' then tl args else args) in
      if operands \<noteq> [] \<and> \<not> starts_with (hd operands) (lit ''-'') then Some (hd operands) else None)"

text \<open>\<open>deeper\<close> is \<open>dangerous_command_match_with_depth\<close> one wrapper further down.\<close>

definition dangerous_command_match_for_exec ::
    "(rstr list \<Rightarrow> dangerous_command_match option) \<Rightarrow> dangerous_command_platform \<Rightarrow> rstr list
     \<Rightarrow> dangerous_command_match option" where
  "dangerous_command_match_for_exec deeper platform command =
     (let cmd0 = (if command = [] then None else executable_name_lookup_key platform (hd command)) in
      if cmd0 = Some (lit ''rm'') \<and> rm_args_include_force_option (tl command) then Some ForcedRm
      else if cmd0 = Some (lit ''sudo'') then deeper (tl command)
      else if cmd0 = Some (lit ''env'') then deeper (env_command (tl command))
      else if cmd0 = Some (lit ''trap'') then
        (case trap_action (tl command) of
           None \<Rightarrow> None
         | Some action \<Rightarrow> deeper [lit ''sh'', lit ''-c'', action])
      else None)"

function dangerous_command_match_with_depth ::
    "shell_parsers \<Rightarrow> dangerous_command_platform \<Rightarrow> nat \<Rightarrow> rstr list \<Rightarrow> dangerous_command_match option" where
  "dangerous_command_match_with_depth sp platform wrapper_depth command =
     (if MAX_DANGEROUS_COMMAND_WRAPPER_DEPTH < wrapper_depth then Some Other
      else case dangerous_command_match_for_exec
          (\<lambda>c. dangerous_command_match_with_depth sp platform (wrapper_depth + 1) c) platform command of
        Some m \<Rightarrow> Some m
      | None \<Rightarrow>
        (case (case parse_shell_lc_literal_commands sp command of
             None \<Rightarrow> None
           | Some commands \<Rightarrow>
             find_map (\<lambda>c. dangerous_command_match_with_depth sp platform (wrapper_depth + 1) c) commands) of
           Some m \<Rightarrow> Some m
         | None \<Rightarrow>
           if platform = Windows \<and> is_dangerous_command_windows sp command then Some Other else None))"
  by pat_completeness auto
termination
  by (relation "measure (\<lambda>(sp, platform, wrapper_depth, command). MAX_DANGEROUS_COMMAND_WRAPPER_DEPTH + 1 - wrapper_depth)")
    auto

declare dangerous_command_match_with_depth.simps [simp del]

definition dangerous_command_match_for_platform ::
    "shell_parsers \<Rightarrow> dangerous_command_platform \<Rightarrow> rstr list \<Rightarrow> dangerous_command_match option" where
  "dangerous_command_match_for_platform sp platform command =
     dangerous_command_match_with_depth sp platform 0 command"

definition dangerous_powershell_words_match ::
    "shell_parsers \<Rightarrow> dangerous_command_platform \<Rightarrow> rstr list \<Rightarrow> dangerous_command_match option" where
  "dangerous_powershell_words_match sp platform command =
     (if platform = Windows \<and> is_dangerous_powershell_words sp command then Some Other else None)"

section \<open>Wrappers\<close>

lemmas dangerous_unfold = dangerous_command_match_with_depth.simps

text \<open>
  What only wraps a command, in any nesting: \<open>sudo\<close> without options, \<open>env\<close> with assignments and the
  options of \<open>env_command\<close>, \<open>trap\<close> with an action, and a shell that runs a script of which the wrapped
  command is one of the literal commands.
\<close>

inductive wraps :: "shell_parsers \<Rightarrow> rstr list \<Rightarrow> rstr list \<Rightarrow> bool" for sp where
  wraps_refl: "wraps sp command command"
| wraps_sudo: "wraps sp outer command \<Longrightarrow> executable_name_lookup_key Posix name = Some (lit ''sudo'')
    \<Longrightarrow> wraps sp (name # outer) command"
| wraps_env: "wraps sp (env_command args) command \<Longrightarrow> executable_name_lookup_key Posix name = Some (lit ''env'')
    \<Longrightarrow> wraps sp (name # args) command"
| wraps_trap: "wraps sp [lit ''sh'', lit ''-c'', action] command \<Longrightarrow> executable_name_lookup_key Posix name = Some (lit ''trap'')
    \<Longrightarrow> trap_action args = Some action \<Longrightarrow> wraps sp (name # args) command"
| wraps_script: "wraps sp outer command \<Longrightarrow> parse_shell_lc_literal_commands sp script = Some commands
    \<Longrightarrow> outer \<in> set commands \<Longrightarrow> wraps sp script command"

text \<open>What the classifier of a wrapped command says, the wrapper says, or it fails closed.\<close>

lemma wrapper_names: "lit ''sudo'' \<noteq> lit ''rm''" "lit ''env'' \<noteq> lit ''rm''" "lit ''env'' \<noteq> lit ''sudo''"
  "lit ''trap'' \<noteq> lit ''rm''" "lit ''trap'' \<noteq> lit ''sudo''" "lit ''trap'' \<noteq> lit ''env''"
  by (simp_all add: lit_def)

lemma for_exec_dangerous:
  assumes "dangerous_command_match_for_exec (\<lambda>c. dangerous_command_match_with_depth sp platform (Suc d) c) platform command = Some m"
  shows "dangerous_command_match_with_depth sp platform d command \<noteq> None"
  using assms by (subst dangerous_unfold) simp

lemma sudo_step:
  assumes "executable_name_lookup_key Posix name = Some (lit ''sudo'')"
    and "dangerous_command_match_with_depth sp Posix (Suc d) outer \<noteq> None"
  shows "dangerous_command_match_with_depth sp Posix d (name # outer) \<noteq> None"
proof -
  obtain m where "dangerous_command_match_with_depth sp Posix (Suc d) outer = Some m" using assms(2) by auto
  with assms(1) show ?thesis
    by (intro for_exec_dangerous [where m = m]) (simp add: dangerous_command_match_for_exec_def wrapper_names)
qed

lemma env_step:
  assumes "executable_name_lookup_key Posix name = Some (lit ''env'')"
    and "dangerous_command_match_with_depth sp Posix (Suc d) (env_command args) \<noteq> None"
  shows "dangerous_command_match_with_depth sp Posix d (name # args) \<noteq> None"
proof -
  obtain m where "dangerous_command_match_with_depth sp Posix (Suc d) (env_command args) = Some m" using assms(2) by auto
  with assms(1) show ?thesis
    by (intro for_exec_dangerous [where m = m]) (simp add: dangerous_command_match_for_exec_def wrapper_names)
qed

lemma trap_step:
  assumes "executable_name_lookup_key Posix name = Some (lit ''trap'')" "trap_action args = Some action"
    and "dangerous_command_match_with_depth sp Posix (Suc d) [lit ''sh'', lit ''-c'', action] \<noteq> None"
  shows "dangerous_command_match_with_depth sp Posix d (name # args) \<noteq> None"
proof -
  obtain m where "dangerous_command_match_with_depth sp Posix (Suc d) [lit ''sh'', lit ''-c'', action] = Some m"
    using assms(3) by auto
  with assms(1,2) show ?thesis
    by (intro for_exec_dangerous [where m = m]) (simp add: dangerous_command_match_for_exec_def wrapper_names)
qed

lemma forced_rm_step:
  assumes "executable_name_lookup_key Posix name = Some (lit ''rm'')" "rm_args_include_force_option args"
  shows "dangerous_command_match_with_depth sp Posix d (name # args) \<noteq> None"
  using assms by (intro for_exec_dangerous [where m = ForcedRm]) (simp add: dangerous_command_match_for_exec_def)

text \<open>Scripts: a dangerous literal command makes the shell that runs it dangerous.\<close>

lemma script_step:
  assumes "parse_shell_lc_literal_commands sp command = Some commands" "c \<in> set commands"
    and "dangerous_command_match_with_depth sp platform (Suc d) c \<noteq> None"
  shows "dangerous_command_match_with_depth sp platform d command \<noteq> None"
proof -
  have "find_map (\<lambda>c. dangerous_command_match_with_depth sp platform (Suc d) c) commands \<noteq> None"
    using assms(2,3) by (auto simp: find_map_eq_None_iff)
  then obtain m where "find_map (\<lambda>c. dangerous_command_match_with_depth sp platform (Suc d) c) commands = Some m" by auto
  then show ?thesis using assms(1) by (subst dangerous_unfold) (simp split: option.split)
qed

lemma wraps_forced_rm:
  assumes "wraps sp outer (name # args)" "executable_name_lookup_key Posix name = Some (lit ''rm'')"
    and "rm_args_include_force_option args"
  shows "dangerous_command_match_with_depth sp Posix d outer \<noteq> None"
  using assms
proof (induction outer "name # args" arbitrary: d rule: wraps.induct)
  case wraps_refl
  then show ?case by (rule forced_rm_step)
next
  case (wraps_sudo outer n)
  show ?case by (rule sudo_step [OF wraps_sudo(3)]) (rule wraps_sudo(2) [OF wraps_sudo(4,5)])
next
  case (wraps_env rest n)
  show ?case by (rule env_step [OF wraps_env(3)]) (rule wraps_env(2) [OF wraps_env(4,5)])
next
  case (wraps_trap action n rest)
  show ?case by (rule trap_step [OF wraps_trap(3,4)]) (rule wraps_trap(2) [OF wraps_trap(5,6)])
next
  case (wraps_script outer script commands)
  show ?case by (rule script_step [OF wraps_script(3,4)]) (rule wraps_script(2) [OF wraps_script(5,6)])
qed

section \<open>Properties\<close>

text \<open>
  C24. No nesting of wrappers hides a forced removal: however \<open>sudo\<close> without options, \<open>env\<close>, \<open>trap\<close> and
  shells that run a script surround it, in any order and to any depth, a forced \<open>rm\<close> is reported as
  dangerous on Posix. In a script it has to be one of the literal commands that the parser yields. Beyond the depth bound the classification fails
  closed.
\<close>

theorem forced_rm_not_hidden:
  assumes "wraps sp command (name # args)" "executable_name_lookup_key Posix name = Some (lit ''rm'')"
    and "rm_args_include_force_option args"
  shows "dangerous_command_match_for_platform sp Posix command \<noteq> None"
  using wraps_forced_rm [OF assms] by (simp add: dangerous_command_match_for_platform_def)

definition no_parsers :: shell_parsers where
  "no_parsers = \<lparr>parse_shell_lc_plain_commands = \<lambda>_. None, parse_shell_lc_literal_commands = \<lambda>_. None,
     parse_powershell_command = \<lambda>_. None, parse_powershell_script = \<lambda>_. None,
     extract_powershell_command = \<lambda>_. None, is_dangerous_command_windows = \<lambda>_. False,
     is_dangerous_powershell_words = \<lambda>_. False\<rparr>"

definition sample_parsers :: shell_parsers where
  "sample_parsers = no_parsers\<lparr>parse_shell_lc_literal_commands := \<lambda>c.
     if c = [lit ''sh'', lit ''-c'', lit ''env A=b /bin/rm -rf x'']
     then Some [[lit ''env'', lit ''A=b'', lit ''/bin/rm'', lit ''-rf'', lit ''x'']] else None\<rparr>"

theorem forced_rm_not_hidden_witness:
  "dangerous_command_match_for_platform sample_parsers Posix
     [lit ''sudo'', lit ''sh'', lit ''-c'', lit ''env A=b /bin/rm -rf x''] \<noteq> None"
proof (rule forced_rm_not_hidden)
  let ?inner = "[lit ''env'', lit ''A=b'', lit ''/bin/rm'', lit ''-rf'', lit ''x'']"
  have env: "env_command [lit ''A=b'', lit ''/bin/rm'', lit ''-rf'', lit ''x''] = [lit ''/bin/rm'', lit ''-rf'', lit ''x'']"
    by code_simp
  have names: "executable_name_lookup_key Posix (lit ''env'') = Some (lit ''env'')"
    "executable_name_lookup_key Posix (lit ''sudo'') = Some (lit ''sudo'')" by code_simp+
  have "wraps sample_parsers ?inner (lit ''/bin/rm'' # [lit ''-rf'', lit ''x''])"
    by (rule wraps_env [OF _ names(1)]) (simp only: env wraps_refl)
  then have "wraps sample_parsers [lit ''sh'', lit ''-c'', lit ''env A=b /bin/rm -rf x'']
      (lit ''/bin/rm'' # [lit ''-rf'', lit ''x''])"
    by (rule wraps_script [of _ _ _ _ "[?inner]"]) (simp_all add: sample_parsers_def)
  then show "wraps sample_parsers [lit ''sudo'', lit ''sh'', lit ''-c'', lit ''env A=b /bin/rm -rf x'']
      (lit ''/bin/rm'' # [lit ''-rf'', lit ''x''])"
    by (rule wraps_sudo [OF _ names(2)])
  show "executable_name_lookup_key Posix (lit ''/bin/rm'') = Some (lit ''rm'')" by code_simp
  show "rm_args_include_force_option [lit ''-rf'', lit ''x'']" by code_simp
qed

end
