(* ===== verification/Policy_Amend.thy ===== *)
theory Policy_Amend
  imports Exec_Rule
begin

text \<open>
  Model of \<open>engine/execpolicy/src/amend.rs\<close>: appending a rule to a policy file unless the file already
  has the line. The file is its contents; the outcome of each system call is a parameter, so that
  every error branch is one of the model, and a failed write leaves the part it wrote.
  \<open>serde_json::to_string\<close> on a string is the parameter \<open>to_json\<close>. Policy paths are absolute.
\<close>

datatype amend_error =
    EmptyPrefix
  | InvalidNetworkRule rstr
  | MissingParent path
  | CreatePolicyDir path rstr
  | SerializePrefix rstr
  | SerializeNetworkRule rstr
  | OpenPolicyFile path rstr
  | WritePolicyFile path rstr
  | LockPolicyFile path rstr
  | SeekPolicyFile path rstr
  | ReadPolicyFile path rstr
  | PolicyMetadata path rstr

datatype write_outcome = Written | WriteFailed rstr nat

datatype create_outcome = Created | AlreadyExists | CreateFailed rstr

record amend_io =
  io_create_dir :: create_outcome
  io_open :: "rstr + unit"
  io_lock :: "rstr + unit"
  io_seek :: "rstr + unit"
  io_read :: "rstr + unit"
  io_write_newline :: write_outcome
  io_write_line :: write_outcome

definition write_all :: "write_outcome \<Rightarrow> path \<Rightarrow> rstr \<Rightarrow> rstr \<Rightarrow> rstr \<times> (amend_error + unit)" where
  "write_all outcome policy_path text contents =
     (case outcome of
        Written \<Rightarrow> (contents @ text, Inr ())
      | WriteFailed e n \<Rightarrow> (contents @ take n text, Inl (WritePolicyFile policy_path e)))"

definition append_locked_line ::
    "amend_io \<Rightarrow> path \<Rightarrow> rstr \<Rightarrow> rstr \<Rightarrow> rstr \<times> (amend_error + unit)" where
  "append_locked_line io policy_path line contents =
     (case res_bind (map_err (OpenPolicyFile policy_path) (io_open io)) (\<lambda>_.
           res_bind (map_err (LockPolicyFile policy_path) (io_lock io)) (\<lambda>_.
           res_bind (map_err (SeekPolicyFile policy_path) (io_seek io)) (\<lambda>_.
           map_err (ReadPolicyFile policy_path) (io_read io)))) of
        Inl e \<Rightarrow> (contents, Inl e)
      | Inr _ \<Rightarrow>
        if list_ex (\<lambda>existing. existing = line) (str_lines contents) then (contents, Inr ())
        else
          (case (if contents \<noteq> [] \<and> \<not> ends_with contents [NL]
                 then write_all (io_write_newline io) policy_path [NL] contents
                 else (contents, Inr ())) of
             (c1, Inl e) \<Rightarrow> (c1, Inl e)
           | (c1, Inr _) \<Rightarrow> write_all (io_write_line io) policy_path (line @ [NL]) c1))"

definition append_rule_line ::
    "amend_io \<Rightarrow> path \<Rightarrow> rstr \<Rightarrow> rstr \<Rightarrow> rstr \<times> (amend_error + unit)" where
  "append_rule_line io policy_path rule contents =
     (case parent policy_path of
        None \<Rightarrow> (contents, Inl (MissingParent policy_path))
      | Some dir \<Rightarrow>
        (case io_create_dir io of
           CreateFailed e \<Rightarrow> (contents, Inl (CreatePolicyDir dir e))
         | _ \<Rightarrow> append_locked_line io policy_path rule contents))"

definition prefix_rule_line :: "(rstr \<Rightarrow> rstr + rstr) \<Rightarrow> rstr list \<Rightarrow> amend_error + rstr" where
  "prefix_rule_line to_json prefix_tokens =
     res_bind (map_err SerializePrefix (collect_res to_json prefix_tokens)) (\<lambda>tokens.
       Inr (lit ''prefix_rule(pattern=['' @ join (lit '', '') tokens @ lit ''], decision='' @ [34] @ lit ''allow'' @ [34] @ lit '')''))"

definition blocking_append_allow_prefix_rule ::
    "(rstr \<Rightarrow> rstr + rstr) \<Rightarrow> amend_io \<Rightarrow> path \<Rightarrow> rstr list \<Rightarrow> rstr \<Rightarrow> rstr \<times> (amend_error + unit)" where
  "blocking_append_allow_prefix_rule to_json io policy_path prefix_tokens contents =
     (if prefix_tokens = [] then (contents, Inl EmptyPrefix)
      else case prefix_rule_line to_json prefix_tokens of
        Inl e \<Rightarrow> (contents, Inl e)
      | Inr rule \<Rightarrow> append_rule_line io policy_path rule contents)"

text \<open>The messages of the errors that host normalisation gives (\<open>err.to_string()\<close>); it gives no others.\<close>

fun error_message :: "policy_error \<Rightarrow> rstr" where
  "error_message (InvalidDecision s) = lit ''invalid decision: '' @ s"
| "error_message (InvalidPattern s) = lit ''invalid pattern element: '' @ s"
| "error_message (InvalidExample s) = lit ''invalid example: '' @ s"
| "error_message (InvalidRule s) = lit ''invalid rule: '' @ s"
| "error_message _ = []"

fun amend_decision_string :: "decision \<Rightarrow> rstr" where
  "amend_decision_string Allow = lit ''allow''"
| "amend_decision_string Prompt = lit ''prompt''"
| "amend_decision_string Forbidden = lit ''deny''"

definition network_rule_line ::
    "(rstr \<Rightarrow> rstr + rstr) \<Rightarrow> rstr \<Rightarrow> network_rule_protocol \<Rightarrow> decision \<Rightarrow> rstr option \<Rightarrow> amend_error + rstr" where
  "network_rule_line to_json raw_host protocol d justification =
     res_bind (map_err (\<lambda>e. InvalidNetworkRule (error_message e)) (normalize_network_rule_host raw_host)) (\<lambda>host.
     if (case justification of None \<Rightarrow> False | Some raw \<Rightarrow> trim raw = []) then
       Inl (InvalidNetworkRule (lit ''justification cannot be empty''))
     else
       res_bind (map_err SerializeNetworkRule (to_json host)) (\<lambda>host_json.
       res_bind (map_err SerializeNetworkRule (to_json (as_policy_string protocol))) (\<lambda>protocol_json.
       res_bind (map_err SerializeNetworkRule (to_json (amend_decision_string d))) (\<lambda>decision_json.
       res_bind (case justification of
           None \<Rightarrow> Inr []
         | Some j \<Rightarrow> res_bind (map_err SerializeNetworkRule (to_json j)) (\<lambda>j_json. Inr [lit ''justification='' @ j_json]))
         (\<lambda>extra_args.
         Inr (lit ''network_rule('' @ join (lit '', '')
           ([lit ''host='' @ host_json, lit ''protocol='' @ protocol_json, lit ''decision='' @ decision_json] @ extra_args)
           @ lit '')''))))))"

definition blocking_append_network_rule ::
    "(rstr \<Rightarrow> rstr + rstr) \<Rightarrow> amend_io \<Rightarrow> path \<Rightarrow> rstr \<Rightarrow> network_rule_protocol \<Rightarrow> decision \<Rightarrow> rstr option
     \<Rightarrow> rstr \<Rightarrow> rstr \<times> (amend_error + unit)" where
  "blocking_append_network_rule to_json io policy_path raw_host protocol d justification contents =
     (case network_rule_line to_json raw_host protocol d justification of
        Inl e \<Rightarrow> (contents, Inl e)
      | Inr rule \<Rightarrow> append_rule_line io policy_path rule contents)"

section \<open>Lines of a file\<close>

text \<open>A file that ends in a line feed, and one whose last line is unfinished.\<close>

lemma split_char_snoc_sep: "split_char c (s @ [c]) = split_char c s @ [[]]"
  by (induction s) (auto split: list.splits)

lemma split_char_append_sep: "split_char c (s @ c # t) = split_char c s @ split_char c t"
  by (induction s) (auto split: list.splits)

lemma split_char_snoc:
  "x \<noteq> c \<Longrightarrow> split_char c (s @ [x]) = butlast (split_char c s) @ [last (split_char c s) @ [x]]"
  by (induction s) (auto split: list.splits)

lemma last_split_char_empty: "s \<noteq> [] \<Longrightarrow> last (split_char c s) = [] \<longleftrightarrow> last s = c"
proof (cases s rule: rev_cases)
  case (snoc s' x)
  then show ?thesis by (cases "x = c") (simp_all add: split_char_snoc split_char_snoc_sep)
qed simp

lemma ends_with_single: "ends_with s [c] \<longleftrightarrow> s \<noteq> [] \<and> last s = c"
  by (cases s rule: rev_cases) (auto simp: ends_with_def)

lemma last_split_char: "s \<noteq> [] \<Longrightarrow> last s \<noteq> c \<Longrightarrow> last (last (split_char c s)) = last s"
  by (cases s rule: rev_cases) (auto simp: split_char_snoc)

lemma strip_cr_keeps: "l = [] \<or> last l \<noteq> CR \<Longrightarrow> strip_cr l = l"
  by (cases l rule: rev_cases) (auto simp: strip_cr_def strip_suffix_def ends_with_def)

text \<open>Appending a terminated line to a file appends it to the lines.\<close>

definition closed_contents :: "rstr \<Rightarrow> rstr" where
  "closed_contents s = (if s \<noteq> [] \<and> \<not> ends_with s [NL] then s @ [NL] else s)"

definition plain_line :: "rstr \<Rightarrow> bool" where
  "plain_line l \<longleftrightarrow> NL \<notin> set l \<and> (l = [] \<or> last l \<noteq> CR)"

lemma str_lines_closed:
  assumes "\<not> ends_with s [CR]"
  shows "str_lines (closed_contents s) = str_lines s"
proof (cases "s = [] \<or> last s = NL")
  case False
  then have "last (split_char NL s) \<noteq> []" "last (last (split_char NL s)) \<noteq> CR"
    using assms last_split_char_empty [of s NL] last_split_char [of s NL] by (auto simp: ends_with_single)
  then have "strip_cr (last (split_char NL s)) = last (split_char NL s)" by (simp add: strip_cr_keeps)
  then have "map strip_cr (split_char NL s) = map strip_cr (butlast (split_char NL s)) @ [last (split_char NL s)]"
  proof -
    have "map strip_cr (split_char NL s) = map strip_cr (butlast (split_char NL s) @ [last (split_char NL s)])"
      by (simp only: append_butlast_last_id [OF split_char_nonempty])
    then show ?thesis using \<open>strip_cr (last (split_char NL s)) = last (split_char NL s)\<close>
      by (simp only: map_append list.map)
  qed
  then show ?thesis using False \<open>last (split_char NL s) \<noteq> []\<close>
    by (simp add: closed_contents_def ends_with_single str_lines_def split_char_snoc_sep Let_def)
qed (auto simp: closed_contents_def ends_with_single)

lemma str_lines_append_line:
  assumes "plain_line l" "s = [] \<or> last s = NL"
  shows "str_lines (s @ l @ [NL]) = str_lines s @ [l]"
proof -
  have line: "split_char NL (l @ [NL]) = [l, []]"
    using assms(1) split_char_sep [of NL l "[]"] by (simp add: plain_line_def)
  show ?thesis
  proof (cases "s = []")
    case True
    then show ?thesis using line assms(1) by (simp add: str_lines_def plain_line_def strip_cr_keeps)
  next
    case False
    then obtain s' where s: "s = s' @ [NL]" using assms(2) by (cases s rule: rev_cases) auto
    then show ?thesis using line assms(1) split_char_append_sep [of NL s' "l @ [NL]"]
      by (simp add: str_lines_def split_char_snoc_sep plain_line_def strip_cr_keeps butlast_append)
  qed
qed

lemma closed_contents_end: "closed_contents s = [] \<or> last (closed_contents s) = NL"
  by (auto simp: closed_contents_def ends_with_single)

text \<open>The steps before the first write, which leave the file alone.\<close>

definition io_prepare :: "amend_io \<Rightarrow> path \<Rightarrow> amend_error + unit" where
  "io_prepare io p =
     res_bind (map_err (OpenPolicyFile p) (io_open io)) (\<lambda>_.
     res_bind (map_err (LockPolicyFile p) (io_lock io)) (\<lambda>_.
     res_bind (map_err (SeekPolicyFile p) (io_seek io)) (\<lambda>_.
     map_err (ReadPolicyFile p) (io_read io))))"

lemma append_locked_line_alt:
  "append_locked_line io p line contents =
     (case io_prepare io p of
        Inl e \<Rightarrow> (contents, Inl e)
      | Inr _ \<Rightarrow>
        if line \<in> set (str_lines contents) then (contents, Inr ())
        else
          (case (if contents \<noteq> [] \<and> \<not> ends_with contents [NL]
                 then write_all (io_write_newline io) p [NL] contents else (contents, Inr ())) of
             (c1, Inl e) \<Rightarrow> (c1, Inl e)
           | (c1, Inr _) \<Rightarrow> write_all (io_write_line io) p (line @ [NL]) c1))"
  by (simp add: append_locked_line_def io_prepare_def list_ex_iff Bex_def)

lemma append_locked_line_Ok:
  assumes "append_locked_line io p line contents = (contents', Inr ())"
  shows "contents' = (if line \<in> set (str_lines contents) then contents else closed_contents contents @ line @ [NL])"
proof (cases "io_prepare io p")
  case (Inl e)
  then show ?thesis using assms by (simp add: append_locked_line_alt)
next
  case (Inr u)
  then show ?thesis using assms
    by (cases "io_write_newline io"; cases "io_write_line io")
      (auto simp: append_locked_line_alt write_all_def closed_contents_def split: if_splits)
qed

lemma append_locked_line_present:
  "line \<in> set (str_lines contents) \<Longrightarrow> fst (append_locked_line io p line contents) = contents"
  by (simp add: append_locked_line_alt split: sum.splits)

lemma str_lines_append_locked:
  assumes "append_locked_line io p line contents = (contents', Inr ())" "plain_line line" "\<not> ends_with contents [CR]"
  shows "str_lines contents' = (if line \<in> set (str_lines contents) then str_lines contents else str_lines contents @ [line])"
  using append_locked_line_Ok [OF assms(1)] str_lines_append_line [OF assms(2) closed_contents_end]
    str_lines_closed [OF assms(3)] by (simp split: if_splits)

section \<open>Rule lines\<close>

lemma collect_res_map: "collect_res f xs = Inr ys \<Longrightarrow> y \<in> set ys \<Longrightarrow> \<exists>x. f x = Inr y"
  by (auto simp: collect_res_eq_Inr_iff list_all2_conv_all_nth in_set_conv_nth)

lemma prefix_rule_line_plain:
  assumes "\<And>s j. to_json s = Inr j \<Longrightarrow> NL \<notin> set j" "prefix_rule_line to_json toks = Inr l"
  shows "plain_line l"
proof -
  obtain tokens where tokens: "collect_res to_json toks = Inr tokens"
    "l = (lit ''prefix_rule(pattern=['' @ join (lit '', '') tokens @ lit ''], decision='' @ [34] @ lit ''allow'' @ [34]) @ lit '')''"
    using assms(2) by (auto simp: prefix_rule_line_def res_iffs)
  have "NL \<notin> set (join (lit '', '') tokens)"
  proof
    assume "NL \<in> set (join (lit '', '') tokens)"
    then have "NL \<in> set (lit '', '') \<union> \<Union> (set ` set tokens)" using set_join by blast
    moreover have "NL \<notin> set (lit '', '')" by (simp add: lit_def)
    ultimately obtain j where "j \<in> set tokens" "NL \<in> set j" by blast
    then show False using collect_res_map [OF tokens(1)] assms(1) by blast
  qed
  then show ?thesis by (simp add: tokens(2) plain_line_def) (simp add: lit_def)
qed

text \<open>A successful append wrote the line of the rule.\<close>

lemma append_allow_rule_locked:
  assumes "prefix_rule_line to_json toks = Inr l"
    and "blocking_append_allow_prefix_rule to_json io p toks contents = (contents', Inr ())"
  shows "append_locked_line io p l contents = (contents', Inr ())"
proof -
  have "append_rule_line io p l contents = (contents', Inr ())"
    using assms by (simp add: blocking_append_allow_prefix_rule_def split: if_splits)
  then show ?thesis by (cases "parent p"; cases "io_create_dir io") (simp_all add: append_rule_line_def)
qed

lemma append_allow_rule_Ok:
  assumes "blocking_append_allow_prefix_rule to_json io p toks contents = (contents', Inr ())"
  shows "toks \<noteq> []" "\<exists>l. prefix_rule_line to_json toks = Inr l"
  using assms by (auto simp: blocking_append_allow_prefix_rule_def split: if_splits sum.splits)

section \<open>Properties\<close>

text \<open>
  C21. Appending an allow rule keeps every line of the policy file and adds at most the rule's line:
  after success the file has the line exactly where it was or at the end, and appending the same
  rule again changes nothing. JSON text has no raw line breaks, and the file must not end in a
  lone carriage return.
\<close>

theorem append_allow_rule_idempotent:
  assumes "\<And>s j. to_json s = Inr j \<Longrightarrow> NL \<notin> set j" "\<not> ends_with contents [CR]"
    and "prefix_rule_line to_json toks = Inr l"
    and "blocking_append_allow_prefix_rule to_json io p toks contents = (contents', Inr ())"
  shows "str_lines contents' = (if l \<in> set (str_lines contents) then str_lines contents else str_lines contents @ [l])
    \<and> fst (blocking_append_allow_prefix_rule to_json io' p toks contents') = contents'"
proof -
  have plain: "plain_line l" using assms(1,3) by (rule prefix_rule_line_plain)
  note lines = str_lines_append_locked [OF append_allow_rule_locked [OF assms(3,4)] plain assms(2)]
  then have "fst (append_locked_line io' p l contents') = contents'"
    by (intro append_locked_line_present) auto
  then have "fst (append_rule_line io' p l contents') = contents'"
    by (cases "parent p"; cases "io_create_dir io'") (simp_all add: append_rule_line_def)
  then show ?thesis using lines assms(3) by (simp add: blocking_append_allow_prefix_rule_def)
qed

definition sample_json :: "rstr \<Rightarrow> rstr + rstr" where
  "sample_json s = (if NL \<in> set s then Inl [] else Inr ([34] @ s @ [34]))"

definition sample_io :: amend_io where
  "sample_io = \<lparr>io_create_dir = AlreadyExists, io_open = Inr (), io_lock = Inr (), io_seek = Inr (), io_read = Inr (),
     io_write_newline = Written, io_write_line = Written\<rparr>"

definition sample_line :: rstr where
  "sample_line = lit ''prefix_rule(pattern=['' @ [34] @ lit ''ls'' @ [34] @ lit ''], decision='' @ [34] @ lit ''allow'' @ [34] @ lit '')''"

theorem append_allow_rule_idempotent_witness:
  "fst (blocking_append_allow_prefix_rule sample_json sample_io [RootDir, Normal (lit ''r'')] [lit ''ls'']
      (lit ''x'' @ [NL] @ sample_line @ [NL])) = lit ''x'' @ [NL] @ sample_line @ [NL]"
proof -
  have "prefix_rule_line sample_json [lit ''ls''] = Inr sample_line" by code_simp
  moreover have "blocking_append_allow_prefix_rule sample_json sample_io [RootDir, Normal (lit ''r'')] [lit ''ls''] (lit ''x'')
      = (lit ''x'' @ [NL] @ sample_line @ [NL], Inr ())" by code_simp
  moreover have "\<not> ends_with (lit ''x'') [CR]" by code_simp
  moreover have "NL \<notin> set j" if "sample_json s = Inr j" for s j
    using that by (auto simp: sample_json_def split: if_splits)
  ultimately show ?thesis using append_allow_rule_idempotent by blast
qed

end
