(* ===== verification/Exec_Approval.thy ===== *)
theory Exec_Approval
  imports Exec_Policy Dangerous_Command Policy_Amend
begin

text \<open>
  Model of \<open>engine/core/src/exec_policy.rs\<close> with its modules \<open>model_policy.rs\<close> and
  \<open>executable_identity.rs\<close>: how a command that a model wants to run is turned into the requirement
  to skip approval, to ask, or to refuse, and how an approved amendment is stored. The manager's
  state is its policy and the contents of the default policy file. Of a permission profile only
  the kind of its file system policy matters on Unix. The parsers of shell scripts are the fields
  of \<open>shell_parsers\<close>, and \<open>shlex::try_join\<close> is the parameter \<open>try_join\<close>.
\<close>

section \<open>Settings\<close>

record granular_approval_config =
  sandbox_approval :: bool
  rules_approval :: bool
  skill_approval :: bool
  request_permissions_approval :: bool
  mcp_elicitations :: bool

datatype ask_for_approval = UnlessTrusted | OnRequest | Granular granular_approval_config | Never

datatype sandbox_permissions = UseDefault | RequireEscalated | WithAdditionalPermissions

definition requests_sandbox_override :: "sandbox_permissions \<Rightarrow> bool" where
  "requests_sandbox_override p \<longleftrightarrow> p \<noteq> UseDefault"

datatype file_system_sandbox_kind = Restricted | Unrestricted | ExternalSandbox

datatype exec_policy_command_origin = GenericOrigin | PowerShellOrigin

datatype allow_prefix_rules = Honor | IgnoreForCyberModel

record unmatched_command_context =
  ctx_approval_policy :: ask_for_approval
  ctx_sandbox_kind :: file_system_sandbox_kind
  ctx_sandbox_permissions :: sandbox_permissions
  ctx_command_origin :: exec_policy_command_origin

record exec_policy_commands =
  policy_commands :: "rstr list list"
  command_origin :: exec_policy_command_origin

record exec_approval_request =
  req_command :: "rstr list"
  req_approval_policy :: ask_for_approval
  req_sandbox_kind :: file_system_sandbox_kind
  req_environment_policy :: "policy option"
  req_sandbox_permissions :: sandbox_permissions
  req_prefix_rule :: "rstr list option"
  req_allow_prefix_rules :: allow_prefix_rules

text \<open>An amendment is the command prefix to allow.\<close>

datatype exec_approval_requirement =
    Skip bool "rstr list option"
  | NeedsApproval "rstr option" "rstr list option"
  | ForbiddenRequirement rstr

definition PROMPT_CONFLICT_REASON :: rstr where
  "PROMPT_CONFLICT_REASON = lit ''approval required by policy, but AskForApproval is set to Never''"

definition REJECT_SANDBOX_APPROVAL_REASON :: rstr where
  "REJECT_SANDBOX_APPROVAL_REASON =
     lit ''approval required by policy, but AskForApproval::Granular.sandbox_approval is false''"

definition REJECT_RULES_APPROVAL_REASON :: rstr where
  "REJECT_RULES_APPROVAL_REASON =
     lit ''approval required by policy rule, but AskForApproval::Granular.rules is false''"

definition BANNED_PREFIX_SUGGESTIONS :: "rstr list list" where
  "BANNED_PREFIX_SUGGESTIONS = map (map lit) [
     [''/bin/bash''], [''/bin/bash'', ''-c''], [''/bin/bash'', ''-lc''], [''/bin/sh''], [''/bin/sh'', ''-c''],
     [''/bin/sh'', ''-lc''], [''/bin/zsh''], [''/bin/zsh'', ''-c''], [''/bin/zsh'', ''-lc''], [''Rscript''],
     [''bash''], [''bash'', ''-c''], [''bash'', ''-lc''], [''bun''], [''bun'', ''-e''], [''bun'', ''run''],
     [''cmd''], [''cmd'', ''/c''], [''cmd'', ''/k''], [''cmd.exe''], [''cmd.exe'', ''/c''], [''cmd.exe'', ''/k''],
     [''dash''], [''dash'', ''-c''], [''deno''], [''deno'', ''eval''], [''env''], [''fish''], [''fish'', ''-c''],
     [''git''], [''julia''], [''julia'', ''-e''], [''ksh''], [''ksh'', ''-c''], [''lua''], [''lua'', ''-e''],
     [''node''], [''node'', ''-e''], [''nodejs''], [''nodejs'', ''-e''], [''npm'', ''run''], [''osascript''],
     [''perl''], [''perl'', ''-e''], [''php''], [''php'', ''-r''], [''pnpm'', ''run''], [''powershell''],
     [''powershell'', ''-Command''], [''powershell'', ''-EncodedCommand''], [''powershell'', ''-File''],
     [''powershell'', ''-c''], [''powershell.exe''], [''powershell.exe'', ''-Command''],
     [''powershell.exe'', ''-EncodedCommand''], [''powershell.exe'', ''-File''], [''powershell.exe'', ''-c''],
     [''pwsh''], [''pwsh'', ''-Command''], [''pwsh'', ''-EncodedCommand''], [''pwsh'', ''-File''],
     [''pwsh'', ''-c''], [''pwsh'', ''-e''], [''pwsh'', ''-ec''], [''pwsh'', ''-f''], [''py''], [''py'', ''-3''],
     [''pypy''], [''pypy3''], [''python''], [''python'', ''-''], [''python'', ''-c''], [''python3''],
     [''python3'', ''-''], [''python3'', ''-c''], [''pythonw''], [''pyw''], [''rm''], [''ruby''],
     [''ruby'', ''-e''], [''sh''], [''sh'', ''-c''], [''sh'', ''-lc''], [''sudo''], [''yarn'', ''run''],
     [''zsh''], [''zsh'', ''-c''], [''zsh'', ''-lc'']]"

section \<open>Decisions about unmatched commands\<close>

fun is_policy_match :: "rule_match \<Rightarrow> bool" where
  "is_policy_match (PrefixRuleMatch _ _ _ _) = True"
| "is_policy_match (HeuristicsRuleMatch _ _) = False"

fun prompt_is_rejected_by_policy :: "ask_for_approval \<Rightarrow> bool \<Rightarrow> rstr option" where
  "prompt_is_rejected_by_policy Never prompt_is_rule = Some PROMPT_CONFLICT_REASON"
| "prompt_is_rejected_by_policy OnRequest prompt_is_rule = None"
| "prompt_is_rejected_by_policy UnlessTrusted prompt_is_rule = None"
| "prompt_is_rejected_by_policy (Granular g) prompt_is_rule =
     (if prompt_is_rule then if \<not> rules_approval g then Some REJECT_RULES_APPROVAL_REASON else None
      else if \<not> sandbox_approval g then Some REJECT_SANDBOX_APPROVAL_REASON else None)"

fun dangerous_command_match_for_origin ::
    "shell_parsers \<Rightarrow> rstr list \<Rightarrow> exec_policy_command_origin \<Rightarrow> dangerous_command_platform
     \<Rightarrow> dangerous_command_match option" where
  "dangerous_command_match_for_origin sp command GenericOrigin platform =
     dangerous_command_match_for_platform sp platform command"
| "dangerous_command_match_for_origin sp command PowerShellOrigin platform =
     dangerous_powershell_words_match sp platform command"

definition dangerous_command_match_for_heuristics ::
    "shell_parsers \<Rightarrow> evaluation \<Rightarrow> decision \<Rightarrow> exec_policy_command_origin \<Rightarrow> dangerous_command_platform
     \<Rightarrow> dangerous_command_match option" where
  "dangerous_command_match_for_heuristics sp e d origin platform =
     find_map (\<lambda>m. case m of
         HeuristicsRuleMatch command matched_decision \<Rightarrow>
           if matched_decision = d then dangerous_command_match_for_origin sp command origin platform else None
       | _ \<Rightarrow> None) (eval_matched_rules e)"

definition restricted_decision :: "file_system_sandbox_kind \<Rightarrow> sandbox_permissions \<Rightarrow> decision" where
  "restricted_decision kind permissions =
     (case kind of
        Restricted \<Rightarrow> if requests_sandbox_override permissions then Prompt else Allow
      | _ \<Rightarrow> Allow)"

definition render_decision_for_unmatched_command ::
    "shell_parsers \<Rightarrow> rstr list \<Rightarrow> unmatched_command_context \<Rightarrow> dangerous_command_platform \<Rightarrow> decision" where
  "render_decision_for_unmatched_command sp command ctx platform =
     (if dangerous_command_match_for_origin sp command (ctx_command_origin ctx) platform \<noteq> None then
        (case ctx_approval_policy ctx of Never \<Rightarrow> Forbidden | _ \<Rightarrow> Prompt)
      else
        (case ctx_approval_policy ctx of
           Never \<Rightarrow> Allow
         | UnlessTrusted \<Rightarrow> Prompt
         | OnRequest \<Rightarrow> restricted_decision (ctx_sandbox_kind ctx) (ctx_sandbox_permissions ctx)
         | Granular _ \<Rightarrow> restricted_decision (ctx_sandbox_kind ctx) (ctx_sandbox_permissions ctx)))"

section \<open>Commands of a script\<close>

definition nonempty_commands :: "rstr list list option \<Rightarrow> rstr list list option" where
  "nonempty_commands r = (case r of Some commands \<Rightarrow> if commands \<noteq> [] then Some commands else None | None \<Rightarrow> None)"

definition commands_for_exec_policy ::
    "shell_parsers \<Rightarrow> rstr list \<Rightarrow> dangerous_command_platform \<Rightarrow> exec_policy_commands" where
  "commands_for_exec_policy sp command platform =
     (case nonempty_commands (parse_shell_lc_plain_commands sp command) of
        Some commands \<Rightarrow> \<lparr>policy_commands = commands, command_origin = GenericOrigin\<rparr>
      | None \<Rightarrow>
        (case (if platform = Windows then nonempty_commands (parse_powershell_command sp command) else None) of
           Some commands \<Rightarrow> \<lparr>policy_commands = commands, command_origin = PowerShellOrigin\<rparr>
         | None \<Rightarrow> \<lparr>policy_commands = [command], command_origin = GenericOrigin\<rparr>))"

section \<open>Amendments\<close>

definition try_derive_execpolicy_amendment_for_prompt_rules :: "rule_match list \<Rightarrow> rstr list option" where
  "try_derive_execpolicy_amendment_for_prompt_rules ms =
     (if list_ex (\<lambda>m. is_policy_match m \<and> rule_match_decision m = Prompt) ms then None
      else find_map (\<lambda>m. case m of
          HeuristicsRuleMatch command d \<Rightarrow> if d = Prompt then Some command else None
        | _ \<Rightarrow> None) ms)"

definition try_derive_execpolicy_amendment_for_allow_rules :: "rule_match list \<Rightarrow> rstr list option" where
  "try_derive_execpolicy_amendment_for_allow_rules ms =
     (if list_ex is_policy_match ms then None
      else find_map (\<lambda>m. case m of
          HeuristicsRuleMatch command d \<Rightarrow> if d = Allow then Some command else None
        | _ \<Rightarrow> None) ms)"

definition prefix_rule_would_approve_all_commands ::
    "path_env \<Rightarrow> policy \<Rightarrow> rstr list \<Rightarrow> rstr list list \<Rightarrow> (rstr list \<Rightarrow> decision) \<Rightarrow> match_options \<Rightarrow> bool" where
  "prefix_rule_would_approve_all_commands env p prefix_tokens commands fallback options =
     (case add_prefix_rule p prefix_tokens Allow of
        Inl _ \<Rightarrow> False
      | Inr p' \<Rightarrow> list_all (\<lambda>command.
          map_option eval_decision (check_with_options env p' command fallback options) = Some Allow) commands)"

definition derive_requested_execpolicy_amendment_from_prefix_rule ::
    "path_env \<Rightarrow> rstr list option \<Rightarrow> rule_match list \<Rightarrow> policy \<Rightarrow> rstr list list \<Rightarrow> (rstr list \<Rightarrow> decision)
     \<Rightarrow> match_options \<Rightarrow> rstr list option" where
  "derive_requested_execpolicy_amendment_from_prefix_rule env requested ms p commands fallback options =
     (case requested of
        None \<Rightarrow> None
      | Some prefix_tokens \<Rightarrow>
        if prefix_tokens = [] then None
        else if list_ex (\<lambda>banned. prefix_tokens = banned) BANNED_PREFIX_SUGGESTIONS then None
        else if list_ex is_policy_match ms then None
        else if prefix_rule_would_approve_all_commands env p prefix_tokens commands fallback options
        then Some prefix_tokens else None)"

section \<open>Reasons\<close>

definition render_shlex_command :: "(rstr list \<Rightarrow> rstr option) \<Rightarrow> rstr list \<Rightarrow> rstr" where
  "render_shlex_command try_join args = (case try_join args of Some s \<Rightarrow> s | None \<Rightarrow> join [SP] args)"

text \<open>\<open>max_by_key\<close>: the last of the greatest elements.\<close>

fun max_by_key :: "('a \<Rightarrow> nat) \<Rightarrow> 'a list \<Rightarrow> 'a option" where
  "max_by_key f [] = None"
| "max_by_key f (x # xs) =
     (case max_by_key f xs of None \<Rightarrow> Some x | Some y \<Rightarrow> if f y < f x then Some x else Some y)"

definition rules_deciding :: "decision \<Rightarrow> rule_match list \<Rightarrow> (rstr list \<times> rstr option) list" where
  "rules_deciding d ms = List.map_filter (\<lambda>m. case m of
       PrefixRuleMatch p d' _ j \<Rightarrow> if d' = d then Some (p, j) else None
     | _ \<Rightarrow> None) ms"

definition derive_prompt_reason :: "(rstr list \<Rightarrow> rstr option) \<Rightarrow> rstr list \<Rightarrow> evaluation \<Rightarrow> rstr option" where
  "derive_prompt_reason try_join command_args e =
     (let command = render_shlex_command try_join command_args in
      case max_by_key (\<lambda>(p, _). length p) (rules_deciding Prompt (eval_matched_rules e)) of
        Some (_, Some justification) \<Rightarrow> Some (lit ''`'' @ command @ lit ''` requires approval: '' @ justification)
      | Some (_, None) \<Rightarrow> Some (lit ''`'' @ command @ lit ''` requires approval by policy'')
      | None \<Rightarrow> None)"

fun dangerous_command_rejection_reason :: "dangerous_command_match \<Rightarrow> rstr" where
  "dangerous_command_rejection_reason ForcedRm = lit ''rm -f style commands are not permitted. Use a safer approach''"
| "dangerous_command_rejection_reason Other = lit ''blocked by policy''"

definition derive_forbidden_reason ::
    "(rstr list \<Rightarrow> rstr option) \<Rightarrow> rstr list \<Rightarrow> evaluation \<Rightarrow> dangerous_command_match option \<Rightarrow> rstr" where
  "derive_forbidden_reason try_join command_args e dangerous =
     (let command = render_shlex_command try_join command_args in
      case max_by_key (\<lambda>(p, _). length p) (rules_deciding Forbidden (eval_matched_rules e)) of
        Some (_, Some justification) \<Rightarrow> lit ''`'' @ command @ lit ''` rejected: '' @ justification
      | Some (matched, None) \<Rightarrow> lit ''`'' @ command @ lit ''` rejected: policy forbids commands starting with `''
          @ render_shlex_command try_join matched @ lit ''`''
      | None \<Rightarrow>
        (case dangerous of
           Some m \<Rightarrow> lit ''`'' @ command @ lit ''` rejected: '' @ dangerous_command_rejection_reason m
         | None \<Rightarrow> lit ''`'' @ command @ lit ''` rejected: blocked by policy''))"

fun derive_rejected_prompt_reason :: "rstr \<Rightarrow> dangerous_command_match option \<Rightarrow> rstr" where
  "derive_rejected_prompt_reason fallback_reason (Some ForcedRm) = dangerous_command_rejection_reason ForcedRm"
| "derive_rejected_prompt_reason fallback_reason _ = fallback_reason"

section \<open>The policy in force\<close>

definition current_for_prefix_rules :: "policy \<Rightarrow> allow_prefix_rules \<Rightarrow> policy" where
  "current_for_prefix_rules p allow_rules =
     (if allow_rules = Honor then p
      else \<lparr>rules_by_program = mm_insert_all
              (filter (\<lambda>(prog, r). rule_decision r \<noteq> Allow) (mm_pairs (rules_by_program p))) [],
            network_rules = network_rules p,
            host_executables_by_name = host_executables_by_name p\<rparr>)"

definition current_for_environment :: "policy \<Rightarrow> policy option \<Rightarrow> allow_prefix_rules \<Rightarrow> policy" where
  "current_for_environment p environment_policy allow_rules =
     (let base = current_for_prefix_rules p allow_rules in
      case environment_policy of Some overlay \<Rightarrow> merge_overlay base overlay | None \<Rightarrow> base)"

section \<open>Approval requirements\<close>

definition request_context :: "exec_approval_request \<Rightarrow> exec_policy_command_origin \<Rightarrow> unmatched_command_context" where
  "request_context req origin = \<lparr>ctx_approval_policy = req_approval_policy req, ctx_sandbox_kind = req_sandbox_kind req,
     ctx_sandbox_permissions = req_sandbox_permissions req, ctx_command_origin = origin\<rparr>"

definition explicitly_allowed :: "path_env \<Rightarrow> policy \<Rightarrow> rstr list \<Rightarrow> bool" where
  "explicitly_allowed env p command =
     list_ex (\<lambda>m. is_policy_match m \<and> rule_match_decision m = Allow)
       (matches_for_command_with_options env p command None resolving_options)"

text \<open>The requirement for an evaluation of all commands.\<close>

definition requirement_for_evaluation ::
    "path_env \<Rightarrow> shell_parsers \<Rightarrow> (rstr list \<Rightarrow> rstr option) \<Rightarrow> policy \<Rightarrow> exec_approval_request
     \<Rightarrow> exec_policy_commands \<Rightarrow> dangerous_command_platform \<Rightarrow> (rstr list \<Rightarrow> decision) \<Rightarrow> evaluation
     \<Rightarrow> exec_approval_requirement" where
  "requirement_for_evaluation env sp try_join exec_policy req cmds platform fallback e =
     (let auto_amendment_allowed = (req_allow_prefix_rules req = Honor);
          ms = eval_matched_rules e;
          origin = command_origin cmds;
          requested_amendment = (if auto_amendment_allowed
            then derive_requested_execpolicy_amendment_from_prefix_rule env (req_prefix_rule req) ms exec_policy
              (policy_commands cmds) fallback resolving_options
            else None) in
      case eval_decision e of
        Forbidden \<Rightarrow> ForbiddenRequirement (derive_forbidden_reason try_join (req_command req) e
          (dangerous_command_match_for_heuristics sp e Forbidden origin platform))
      | Prompt \<Rightarrow>
        (let prompt_is_rule = list_ex (\<lambda>m. is_policy_match m \<and> rule_match_decision m = Prompt) ms in
         case prompt_is_rejected_by_policy (req_approval_policy req) prompt_is_rule of
           Some reason \<Rightarrow>
             if prompt_is_rule then ForbiddenRequirement reason
             else ForbiddenRequirement (derive_rejected_prompt_reason reason
               (dangerous_command_match_for_heuristics sp e Prompt origin platform))
         | None \<Rightarrow> NeedsApproval (derive_prompt_reason try_join (req_command req) e)
             (case requested_amendment of
                Some a \<Rightarrow> Some a
              | None \<Rightarrow> if auto_amendment_allowed
                  then try_derive_execpolicy_amendment_for_prompt_rules ms else None))
      | Allow \<Rightarrow> Skip (list_all (explicitly_allowed env exec_policy) (policy_commands cmds))
          (if auto_amendment_allowed then try_derive_execpolicy_amendment_for_allow_rules ms else None))"

text \<open>\<open>None\<close> is the panic of evaluating no command at all.\<close>

definition create_for_parsed_commands ::
    "path_env \<Rightarrow> shell_parsers \<Rightarrow> (rstr list \<Rightarrow> rstr option) \<Rightarrow> policy \<Rightarrow> exec_approval_request
     \<Rightarrow> exec_policy_commands \<Rightarrow> dangerous_command_platform \<Rightarrow> exec_approval_requirement option" where
  "create_for_parsed_commands env sp try_join p req cmds platform =
     (let exec_policy = current_for_environment p (req_environment_policy req) (req_allow_prefix_rules req);
          fallback = (\<lambda>cmd. render_decision_for_unmatched_command sp cmd
            (request_context req (command_origin cmds)) platform) in
      map_option (requirement_for_evaluation env sp try_join exec_policy req cmds platform fallback)
        (check_multiple_with_options env exec_policy (policy_commands cmds) fallback resolving_options))"

definition create_for_command_platform ::
    "path_env \<Rightarrow> shell_parsers \<Rightarrow> (rstr list \<Rightarrow> rstr option) \<Rightarrow> policy \<Rightarrow> exec_approval_request
     \<Rightarrow> dangerous_command_platform \<Rightarrow> exec_approval_requirement option" where
  "create_for_command_platform env sp try_join p req platform =
     create_for_parsed_commands env sp try_join p req (commands_for_exec_policy sp (req_command req) platform) platform"

definition shell_approval_command :: "path \<Rightarrow> bool \<Rightarrow> rstr list \<Rightarrow> rstr list" where
  "shell_approval_command configured_shell_path zsh_fork command =
     (case command of
        [] \<Rightarrow> command
      | executable # _ \<Rightarrow>
        let executable_path = path_of executable;
            is_system_shell = (parent executable_path = Some (path_of (lit ''/bin''))
              \<or> parent executable_path = Some (path_of (lit ''/usr/bin''))) in
        if executable_path = configured_shell_path \<or> is_system_shell \<or> zsh_fork then command else [executable])"

definition create_for_shell ::
    "path_env \<Rightarrow> shell_parsers \<Rightarrow> (rstr list \<Rightarrow> rstr option) \<Rightarrow> policy \<Rightarrow> exec_approval_request
     \<Rightarrow> path \<Rightarrow> bool \<Rightarrow> dangerous_command_platform \<Rightarrow> exec_approval_requirement option" where
  "create_for_shell env sp try_join p req configured_shell_path zsh_fork platform =
     (let command = req_command req;
          executable = shell_approval_command configured_shell_path zsh_fork command in
      if length executable = length command then create_for_command_platform env sp try_join p req platform
      else
        let cmds = (if platform = Windows then
              (case extract_powershell_command sp command of
                 Some (_, script) \<Rightarrow>
                   \<lparr>policy_commands = (case parse_powershell_script sp script of Some cs \<Rightarrow> cs | None \<Rightarrow> [command]),
                     command_origin = PowerShellOrigin\<rparr>
               | None \<Rightarrow> commands_for_exec_policy sp command platform)
            else commands_for_exec_policy sp command platform) in
        create_for_parsed_commands env sp try_join p (req\<lparr>req_command := executable\<rparr>)
          (cmds\<lparr>policy_commands := executable # policy_commands cmds\<rparr>) platform)"

section \<open>Updates\<close>

record exec_policy_manager =
  manager_policy :: policy
  manager_file :: rstr

datatype exec_policy_update_error =
    AppendRule path amend_error
  | JoinBlockingTask rstr
  | AddRule policy_error

text \<open>Faults of the runtime: a closed semaphore, and a lost task with the file it left behind.\<close>

record update_faults =
  semaphore_closed :: bool
  task_lost :: "(rstr \<times> rstr) option"

definition default_policy_path :: "path \<Rightarrow> path" where
  "default_policy_path codex_home =
     path_join (path_join codex_home (path_of (lit ''rules''))) (path_of (lit ''default.rules''))"

definition run_append ::
    "update_faults \<Rightarrow> path \<Rightarrow> (rstr \<Rightarrow> rstr \<times> (amend_error + unit)) \<Rightarrow> exec_policy_manager
     \<Rightarrow> exec_policy_manager \<times> (exec_policy_update_error + unit)" where
  "run_append faults policy_path task mgr =
     (if semaphore_closed faults then
        (mgr, Inl (AddRule (InvalidRule (lit ''exec policy update semaphore closed''))))
      else case task_lost faults of
        Some (e, left) \<Rightarrow> (mgr\<lparr>manager_file := left\<rparr>, Inl (JoinBlockingTask e))
      | None \<Rightarrow>
        (case task (manager_file mgr) of
           (contents, Inl e) \<Rightarrow> (mgr\<lparr>manager_file := contents\<rparr>, Inl (AppendRule policy_path e))
         | (contents, Inr _) \<Rightarrow> (mgr\<lparr>manager_file := contents\<rparr>, Inr ())))"

definition already_allowed :: "path_env \<Rightarrow> policy \<Rightarrow> rstr list \<Rightarrow> bool" where
  "already_allowed env p command =
     (case check_multiple_with_options env p [command] (\<lambda>_. Forbidden) resolving_options of
        None \<Rightarrow> False
      | Some e \<Rightarrow> eval_decision e = Allow
          \<and> list_ex (\<lambda>m. is_policy_match m \<and> rule_match_decision m = Allow) (eval_matched_rules e))"

definition append_amendment_and_update ::
    "path_env \<Rightarrow> (rstr \<Rightarrow> rstr + rstr) \<Rightarrow> amend_io \<Rightarrow> update_faults \<Rightarrow> path \<Rightarrow> rstr list \<Rightarrow> exec_policy_manager
     \<Rightarrow> exec_policy_manager \<times> (exec_policy_update_error + unit)" where
  "append_amendment_and_update env to_json io faults codex_home amendment mgr =
     (let policy_path = default_policy_path codex_home in
      case run_append faults policy_path (blocking_append_allow_prefix_rule to_json io policy_path amendment) mgr of
        (mgr', Inl e) \<Rightarrow> (mgr', Inl e)
      | (mgr', Inr _) \<Rightarrow>
        if already_allowed env (manager_policy mgr') amendment then (mgr', Inr ())
        else case add_prefix_rule (manager_policy mgr') amendment Allow of
          Inl e \<Rightarrow> (mgr', Inl (AddRule e))
        | Inr p \<Rightarrow> (mgr'\<lparr>manager_policy := p\<rparr>, Inr ()))"

definition append_network_rule_and_update ::
    "(rstr \<Rightarrow> rstr + rstr) \<Rightarrow> amend_io \<Rightarrow> update_faults \<Rightarrow> path \<Rightarrow> rstr \<Rightarrow> network_rule_protocol \<Rightarrow> decision
     \<Rightarrow> rstr option \<Rightarrow> exec_policy_manager \<Rightarrow> exec_policy_manager \<times> (exec_policy_update_error + unit)" where
  "append_network_rule_and_update to_json io faults codex_home host protocol d justification mgr =
     (let policy_path = default_policy_path codex_home in
      case run_append faults policy_path
          (blocking_append_network_rule to_json io policy_path host protocol d justification) mgr of
        (mgr', Inl e) \<Rightarrow> (mgr', Inl e)
      | (mgr', Inr _) \<Rightarrow>
        (case add_network_rule (manager_policy mgr') host protocol d justification of
           Inl e \<Rightarrow> (mgr', Inl (AddRule e))
         | Inr p \<Rightarrow> (mgr'\<lparr>manager_policy := p\<rparr>, Inr ())))"

section \<open>Evaluations of a request\<close>

lemma evaluation_matches:
  assumes "check_multiple_with_options env p cmds fallback options = Some e"
  shows "eval_matched_rules e = concat (map (\<lambda>cmd. matches_for_command_with_options env p cmd (Some fallback) options) cmds)"
    "m \<in> set (eval_matched_rules e) \<Longrightarrow> rule_match_decision m \<le> eval_decision e"
    "\<exists>m \<in> set (eval_matched_rules e). rule_match_decision m = eval_decision e"
proof -
  let ?ms = "concat (map (\<lambda>cmd. matches_for_command_with_options env p cmd (Some fallback) options) cmds)"
  have e: "from_matches ?ms = Some e" using assms by (simp add: check_multiple_with_options_def)
  then have "?ms \<noteq> []" by (cases "?ms = []") (simp_all add: from_matches_def)
  then have *: "e = \<lparr>eval_decision = Max (rule_match_decision ` set ?ms), eval_matched_rules = ?ms\<rparr>"
    using e from_matches_Max [of ?ms] by simp
  have fin: "finite (rule_match_decision ` set ?ms)" "rule_match_decision ` set ?ms \<noteq> {}"
    using \<open>?ms \<noteq> []\<close> by simp_all
  show "eval_matched_rules e = ?ms" by (simp add: *)
  show "m \<in> set (eval_matched_rules e) \<Longrightarrow> rule_match_decision m \<le> eval_decision e"
    using fin(1) by (simp only: * evaluation.simps) (rule Max_ge, simp_all)
  have "Max (rule_match_decision ` set ?ms) \<in> rule_match_decision ` set ?ms" by (rule Max_in [OF fin])
  then show "\<exists>m \<in> set (eval_matched_rules e). rule_match_decision m = eval_decision e"
    by (simp only: * evaluation.simps image_iff) metis
qed

lemma evaluation_exists: "cmds \<noteq> [] \<Longrightarrow> \<exists>e. check_multiple_with_options env p cmds fallback options = Some e"
proof (cases cmds)
  case (Cons c cs)
  have "concat (map (\<lambda>cmd. matches_for_command_with_options env p cmd (Some fallback) options) cmds) \<noteq> []"
    using matches_nonempty [of env p c fallback options] Cons by simp
  then show ?thesis by (simp add: check_multiple_with_options_def from_matches_Max)
qed simp

lemma matches_with_fallback:
  "matches_for_command_with_options env p cmd (Some f) options =
     (case matches_for_command_with_options env p cmd None options of
        [] \<Rightarrow> [HeuristicsRuleMatch cmd (f cmd)] | ms \<Rightarrow> ms)"
  by (simp add: matches_for_command_with_options_def Let_def split: list.splits option.splits)

lemma command_match_bound:
  assumes "check_multiple_with_options env p cmds fallback options = Some e" "cmd \<in> set cmds"
    and "m \<in> set (matches_for_command_with_options env p cmd (Some fallback) options)"
  shows "rule_match_decision m \<le> eval_decision e"
  using assms by (intro evaluation_matches(2) [OF assms(1)]) (auto simp: evaluation_matches(1) [OF assms(1)])

lemma decision_le_Allow: "d \<le> Allow \<longleftrightarrow> d = Allow"
  by (cases d) (simp_all add: less_eq_decision_def)

lemma Forbidden_le: "Forbidden \<le> d \<longleftrightarrow> d = Forbidden"
  by (cases d) (simp_all add: less_eq_decision_def)

lemma Prompt_le: "Prompt \<le> d \<longleftrightarrow> d \<noteq> Allow"
  by (cases d) (simp_all add: less_eq_decision_def)

lemma requirement_cases:
  "requirement_for_evaluation env sp tj p req cmds pl f e = Skip b a \<Longrightarrow>
     eval_decision e = Allow \<and> b = list_all (explicitly_allowed env p) (policy_commands cmds)"
  "requirement_for_evaluation env sp tj p req cmds pl f e = NeedsApproval r a \<Longrightarrow>
     eval_decision e = Prompt \<and> (\<exists>rl. prompt_is_rejected_by_policy (req_approval_policy req) rl = None)"
  "eval_decision e = Forbidden \<Longrightarrow>
     \<exists>r. requirement_for_evaluation env sp tj p req cmds pl f e = ForbiddenRequirement r"
  by (auto simp: requirement_for_evaluation_def Let_def split: decision.splits option.splits if_splits)

lemma commands_nonempty: "policy_commands (commands_for_exec_policy sp command platform) \<noteq> []"
  by (auto simp: commands_for_exec_policy_def nonempty_commands_def split: option.splits if_splits)

lemma create_Some_iff:
  "(\<exists>r. create_for_parsed_commands env sp tj p req cmds pl = Some r) \<longleftrightarrow> policy_commands cmds \<noteq> []"
  using evaluation_exists [of "policy_commands cmds"]
  by (auto simp: create_for_parsed_commands_def Let_def check_multiple_with_options_def from_matches_def)

text \<open>Every match without a fallback comes from a rule of the policy and carries its decision.\<close>

definition from_rules :: "policy \<Rightarrow> rule_match \<Rightarrow> bool" where
  "from_rules p m \<longleftrightarrow> is_policy_match m
     \<and> (\<exists>k. \<exists>r \<in> set (mm_values (rules_by_program p) k). rule_decision r = rule_match_decision m)"

lemma filter_matches_from_rules:
  assumes "m \<in> set (filter_matches c rs)" "mm_get_vec (rules_by_program p) k = Some rs"
  shows "from_rules p m"
proof -
  obtain r where r: "r \<in> set rs" "rule_matches r c = Some m" using assms(1) by (auto simp: set_filter_matches)
  then have "is_policy_match m" "rule_decision r = rule_match_decision m"
    by (auto simp: rule_matches_def split: option.splits)
  with r(1) assms(2) show ?thesis by (auto simp: from_rules_def mm_values_def intro!: exI [of _ k])
qed

lemma resolved_from_rules: "from_rules p m \<Longrightarrow> from_rules p (with_resolved_program prog m)"
  by (cases m) (simp_all add: from_rules_def)

lemma resolved_matches_from_rules:
  assumes "mm_get_vec (rules_by_program p) k = Some rs" "m \<in> set (map (with_resolved_program prog) (filter_matches c rs))"
  shows "from_rules p m"
  using assms(2) resolved_from_rules filter_matches_from_rules [OF _ assms(1)] by auto

lemma host_matches_from_rules: "m \<in> set (match_host_executable_rules env p cmd) \<Longrightarrow> from_rules p m"
  by (auto simp: match_host_executable_rules_def simp del: set_map
      split: list.splits sum.splits option.splits if_splits intro: resolved_matches_from_rules resolved_matches_from_rules [OF sym])

lemma exact_matches_from_rules: "match_exact_rules p cmd = Some ms \<Longrightarrow> m \<in> set ms \<Longrightarrow> from_rules p m"
  by (auto simp: match_exact_rules_def split: list.splits option.splits intro: filter_matches_from_rules)

lemma matches_None:
  "matches_for_command_with_options env p cmd None options =
     (if exact_matches p cmd \<noteq> [] then exact_matches p cmd
      else if resolve_host_executables options then match_host_executable_rules env p cmd else [])"
  by (auto simp: matches_for_command_with_options_def exact_matches_def Let_def split: option.splits list.splits)

lemma matches_from_rules:
  "m \<in> set (matches_for_command_with_options env p cmd None options) \<Longrightarrow> from_rules p m"
  by (auto simp: matches_None exact_matches_def split: if_splits option.splits
      intro: host_matches_from_rules exact_matches_from_rules)

lemmas rule_matches_are_policy_matches = matches_from_rules [unfolded from_rules_def, THEN conjunct1]

text \<open>
  C19. Deciding about a command never panics: every request for a shell, whatever the parsers return
  and on both platforms, gets a requirement, because the list of commands to evaluate is never empty.
\<close>

theorem approval_requirement_total:
  "\<exists>r. create_for_shell env sp try_join p req shell zsh_fork platform = Some r"
  using create_Some_iff commands_nonempty
  by (simp add: create_for_shell_def create_for_command_platform_def Let_def)

text \<open>
  C15. The sandbox is only left on an explicit permission: when a request is skipped with
  \<open>bypass_sandbox\<close>, every parsed command matches a rule of the policy in force, and all the rules
  that match it allow it.
\<close>

theorem bypass_sandbox_only_if_allowed:
  assumes "create_for_parsed_commands env sp try_join p req cmds platform = Some (Skip True amendment)"
    and "cmd \<in> set (policy_commands cmds)"
  shows "let ms = matches_for_command_with_options env
        (current_for_environment p (req_environment_policy req) (req_allow_prefix_rules req)) cmd None resolving_options
      in ms \<noteq> [] \<and> (\<forall>m. m \<in> set ms \<longrightarrow> is_policy_match m \<and> rule_match_decision m = Allow)"
proof -
  let ?p = "current_for_environment p (req_environment_policy req) (req_allow_prefix_rules req)"
  let ?f = "\<lambda>cmd. render_decision_for_unmatched_command sp cmd (request_context req (command_origin cmds)) platform"
  let ?ms = "matches_for_command_with_options env ?p cmd None resolving_options"
  obtain e where e: "check_multiple_with_options env ?p (policy_commands cmds) ?f resolving_options = Some e"
    and req: "requirement_for_evaluation env sp try_join ?p req cmds platform ?f e = Skip True amendment"
    using assms(1) by (auto simp: create_for_parsed_commands_def Let_def)
  have allow: "eval_decision e = Allow" "list_all (explicitly_allowed env ?p) (policy_commands cmds)"
    using requirement_cases(1) [OF req] by simp_all
  have ne: "?ms \<noteq> []" using allow(2) assms(2) by (auto simp: list_all_iff explicitly_allowed_def)
  then have "matches_for_command_with_options env ?p cmd (Some ?f) resolving_options = ?ms"
    by (subst matches_with_fallback) (simp split: list.splits)
  then have "rule_match_decision m = Allow" if "m \<in> set ?ms" for m
    using command_match_bound [OF e assms(2)] that by (simp add: allow(1) decision_le_Allow)
  with ne show ?thesis by (simp add: rule_matches_are_policy_matches)
qed

text \<open>
  C16. A command that no rule matches and that is recognised as dangerous never runs unasked: the
  request is not skipped, and it is refused when the user is never to be asked.
\<close>

theorem dangerous_unmatched_never_skipped:
  assumes "cmd \<in> set (policy_commands cmds)"
    and "matches_for_command_with_options env
        (current_for_environment p (req_environment_policy req) (req_allow_prefix_rules req)) cmd None resolving_options = []"
    and "dangerous_command_match_for_origin sp cmd (command_origin cmds) platform \<noteq> None"
  shows "create_for_parsed_commands env sp try_join p req cmds platform \<noteq> Some (Skip b a)
    \<and> (req_approval_policy req = Never \<longrightarrow>
        (\<exists>reason. create_for_parsed_commands env sp try_join p req cmds platform = Some (ForbiddenRequirement reason)))"
proof -
  let ?p = "current_for_environment p (req_environment_policy req) (req_allow_prefix_rules req)"
  let ?f = "\<lambda>cmd. render_decision_for_unmatched_command sp cmd (request_context req (command_origin cmds)) platform"
  have "policy_commands cmds \<noteq> []" using assms(1) by auto
  then obtain e where e: "check_multiple_with_options env ?p (policy_commands cmds) ?f resolving_options = Some e"
    using evaluation_exists by blast
  then have create: "create_for_parsed_commands env sp try_join p req cmds platform
      = Some (requirement_for_evaluation env sp try_join ?p req cmds platform ?f e)"
    by (simp add: create_for_parsed_commands_def Let_def)
  have "HeuristicsRuleMatch cmd (?f cmd) \<in> set (matches_for_command_with_options env ?p cmd (Some ?f) resolving_options)"
    by (subst matches_with_fallback) (simp add: assms(2))
  then have le: "?f cmd \<le> eval_decision e" using command_match_bound [OF e assms(1)] by fastforce
  have f: "?f cmd = (if req_approval_policy req = Never then Forbidden else Prompt)"
    using assms(3) by (simp add: render_decision_for_unmatched_command_def request_context_def split: ask_for_approval.splits)
  have "eval_decision e \<noteq> Allow" using le f by (cases "eval_decision e") (auto simp: decision_le_Allow split: if_splits)
  moreover have "eval_decision e = Forbidden" if "req_approval_policy req = Never"
    using le f that by (simp add: Forbidden_le)
  ultimately show ?thesis using requirement_cases(1) requirement_cases(3) by (auto simp: create)
qed

text \<open>
  C18. With approvals switched off nothing is asked: under \<open>Never\<close> no request, for a shell or for
  parsed commands, ends in \<open>NeedsApproval\<close>, and likewise when a granular configuration rejects both
  kinds of prompts.
\<close>

theorem rejected_prompts_never_asked:
  assumes "req_approval_policy req = Never
     \<or> (\<exists>g. req_approval_policy req = Granular g \<and> \<not> sandbox_approval g \<and> \<not> rules_approval g)"
  shows "create_for_shell env sp try_join p req shell zsh_fork platform \<noteq> Some (NeedsApproval reason a)"
proof -
  have rejected: "prompt_is_rejected_by_policy (req_approval_policy req) rl \<noteq> None" for rl
    using assms by auto
  have "create_for_parsed_commands env sp try_join p r cmds platform \<noteq> Some (NeedsApproval reason a)"
    if "req_approval_policy r = req_approval_policy req" for r cmds
    using rejected that by (auto simp: create_for_parsed_commands_def Let_def simp del: prompt_is_rejected_by_policy.simps
        dest!: requirement_cases(2)) (metis option.distinct(1))
  then show ?thesis by (simp add: create_for_shell_def create_for_command_platform_def Let_def)
qed

section \<open>The policy in force\<close>

lemma current_for_prefix_rules_values:
  assumes "mm_inv (rules_by_program p)"
  shows "mm_values (rules_by_program (current_for_prefix_rules p allow_rules)) k =
      (if allow_rules = Honor then mm_values (rules_by_program p) k
       else filter (\<lambda>r. rule_decision r \<noteq> Allow) (mm_values (rules_by_program p) k))"
    "mm_inv (rules_by_program (current_for_prefix_rules p allow_rules))"
proof -
  let ?keep = "\<lambda>(prog :: rstr, r). rule_decision r \<noteq> Allow"
  have empty: "mm_inv ([] :: prefix_rule multimap)" "mm_values ([] :: prefix_rule multimap) k = []"
    by (simp_all add: mm_inv_def mm_values_def mm_get_vec_def)
  have swap: "map snd (filter (\<lambda>q. ?keep q \<and> fst q = k) ps)
      = filter (\<lambda>r. rule_decision r \<noteq> Allow) (map snd (filter (\<lambda>q. fst q = k) ps))" for ps
    by (induction ps) auto
  show "mm_values (rules_by_program (current_for_prefix_rules p allow_rules)) k =
      (if allow_rules = Honor then mm_values (rules_by_program p) k
       else filter (\<lambda>r. rule_decision r \<noteq> Allow) (mm_values (rules_by_program p) k))"
    using mm.fold_insert [OF empty(1), of "filter ?keep (mm_pairs (rules_by_program p))"]
    by (simp add: current_for_prefix_rules_def mm_insert_all_def empty(2) swap mm_pairs_values [OF assms])
  show "mm_inv (rules_by_program (current_for_prefix_rules p allow_rules))"
    using mm.fold_insert [OF empty(1), of "filter ?keep (mm_pairs (rules_by_program p))"] assms
    by (simp add: current_for_prefix_rules_def mm_insert_all_def)
qed

lemma current_for_environment_exact_matches:
  assumes "mm_inv (rules_by_program p)" "\<And>q. environment_policy = Some q \<Longrightarrow> mm_inv (rules_by_program q)"
  shows "exact_matches (current_for_environment p environment_policy allow_rules) cmd =
      exact_matches (current_for_prefix_rules p allow_rules) cmd
      @ (case environment_policy of None \<Rightarrow> [] | Some q \<Rightarrow> exact_matches q cmd)"
  using assms merge_overlay_matches [OF current_for_prefix_rules_values(2) [OF assms(1)]]
  by (auto simp: current_for_environment_def Let_def split: option.splits)

lemma restricting_rules_kept:
  assumes "mm_inv (rules_by_program p)" "m \<in> set (exact_matches p cmd)" "rule_match_decision m \<noteq> Allow"
  shows "m \<in> set (exact_matches (current_for_prefix_rules p allow_rules) cmd)"
proof -
  obtain r where r: "cmd \<noteq> []" "r \<in> set (mm_values (rules_by_program p) (hd cmd))" "rule_matches r cmd = Some m"
    using assms(2) by (auto simp: exact_matches_values set_filter_matches split: if_splits)
  moreover have "rule_decision r = rule_match_decision m"
    using r(3) by (auto simp: rule_matches_def split: option.splits)
  ultimately show ?thesis
    using assms(3) by (auto simp: exact_matches_values set_filter_matches current_for_prefix_rules_values [OF assms(1)])
qed

text \<open>
  C17. A rule that forbids is final: the request is refused when the policy in force, the manager's with
  the environment's merged in, matches one of the commands with a forbidding rule, also through the
  resolution of host executables. A forbidding rule for the first word of a command, of the manager's
  policy or of the environment's, always does so: no allowing rule, no overlay and no setting of the
  approval policy or of \<open>AllowPrefixRules\<close> changes that. A rule that forbids only the last component of
  a path is not consulted where a rule for the path itself matches.
\<close>

theorem forbidden_rule_is_final:
  assumes "policy_inv p" "pred_option policy_inv (req_environment_policy req)"
    and "cmd \<in> set (policy_commands cmds)" "rule_match_decision m = Forbidden"
    and "(\<exists>q. (q = p \<or> req_environment_policy req = Some q) \<and> m \<in> set (exact_matches q cmd))
      \<or> m \<in> set (matches_for_command_with_options env
          (current_for_environment p (req_environment_policy req) (req_allow_prefix_rules req)) cmd None resolving_options)"
  shows "\<exists>reason. create_for_parsed_commands env sp try_join p req cmds platform = Some (ForbiddenRequirement reason)"
proof -
  let ?p = "current_for_environment p (req_environment_policy req) (req_allow_prefix_rules req)"
  let ?f = "\<lambda>cmd. render_decision_for_unmatched_command sp cmd (request_context req (command_origin cmds)) platform"
  have inv: "mm_inv (rules_by_program p)" "\<And>q. req_environment_policy req = Some q \<Longrightarrow> mm_inv (rules_by_program q)"
    using assms(1,2) by (auto simp: policy_inv_def)
  have kept: "m \<in> set (exact_matches ?p cmd)" if "q = p \<or> req_environment_policy req = Some q" "m \<in> set (exact_matches q cmd)" for q
    using that restricting_rules_kept [OF inv(1) _ , of m cmd] assms(4)
    by (auto simp: current_for_environment_exact_matches [OF inv])
  have "m \<in> set (exact_matches ?p cmd) \<or> m \<in> set (matches_for_command_with_options env ?p cmd None resolving_options)"
    using assms(5) kept by blast
  then have "m \<in> set (matches_for_command_with_options env ?p cmd None resolving_options)"
    by (auto simp: matches_None)
  then have "m \<in> set (matches_for_command_with_options env ?p cmd (Some ?f) resolving_options)"
    by (subst matches_with_fallback) (auto split: list.splits)
  moreover have "policy_commands cmds \<noteq> []" using assms(3) by auto
  then obtain e where e: "check_multiple_with_options env ?p (policy_commands cmds) ?f resolving_options = Some e"
    using evaluation_exists by blast
  ultimately have "Forbidden \<le> eval_decision e" using command_match_bound [OF e assms(3)] assms(4) by fastforce
  then have "eval_decision e = Forbidden" by (simp add: Forbidden_le)
  then show ?thesis using requirement_cases(3) [of e] e by (auto simp: create_for_parsed_commands_def Let_def)
qed

text \<open>
  Where the allowing prefix rules are ignored, the manager's policy grants nothing: without an
  environment policy no request is skipped with \<open>bypass_sandbox\<close>, and no amendment is proposed.
\<close>

lemma ignored_rules_grant_nothing:
  assumes "policy_inv p" "req_allow_prefix_rules req = IgnoreForCyberModel" "req_environment_policy req = None"
    and "create_for_parsed_commands env sp try_join p req cmds platform = Some r"
  shows "r = Skip False None \<or> (\<exists>reason. r = NeedsApproval reason None) \<or> (\<exists>reason. r = ForbiddenRequirement reason)"
proof -
  let ?p = "current_for_prefix_rules p IgnoreForCyberModel"
  have inv: "mm_inv (rules_by_program p)" using assms(1) by (simp add: policy_inv_def)
  have "\<not> explicitly_allowed env ?p cmd" for cmd
  proof
    assume "explicitly_allowed env ?p cmd"
    then obtain m where "m \<in> set (matches_for_command_with_options env ?p cmd None resolving_options)"
      "rule_match_decision m = Allow" by (auto simp: explicitly_allowed_def list_ex_iff)
    then show False using matches_from_rules current_for_prefix_rules_values [OF inv]
      by (fastforce simp: from_rules_def)
  qed
  moreover have "policy_commands cmds \<noteq> []" using assms(4) create_Some_iff by blast
  ultimately have "\<not> list_all (explicitly_allowed env ?p) (policy_commands cmds)"
    by (cases "policy_commands cmds") simp_all
  moreover obtain f e where "r = requirement_for_evaluation env sp try_join ?p req cmds platform f e"
    using assms(2-4) by (auto simp: create_for_parsed_commands_def Let_def current_for_environment_def)
  ultimately show ?thesis using assms(2)
    by (cases "eval_decision e") (simp_all add: requirement_for_evaluation_def Let_def split: option.splits)
qed

section \<open>Amendments\<close>

lemma all_allowed:
  assumes "cmds \<noteq> []"
    and "\<And>cmd. cmd \<in> set cmds \<Longrightarrow> map_option eval_decision (check_with_options env p cmd f options) = Some Allow"
  shows "\<exists>e. check_multiple_with_options env p cmds f options = Some e \<and> eval_decision e = Allow"
proof -
  obtain e where e: "check_multiple_with_options env p cmds f options = Some e" using evaluation_exists [OF assms(1)] by blast
  obtain m where m: "m \<in> set (eval_matched_rules e)" "rule_match_decision m = eval_decision e"
    using evaluation_matches(3) [OF e] by blast
  then obtain cmd where cmd: "cmd \<in> set cmds" "m \<in> set (matches_for_command_with_options env p cmd (Some f) options)"
    by (auto simp: evaluation_matches(1) [OF e])
  have "Max (rule_match_decision ` set (matches_for_command_with_options env p cmd (Some f) options)) = Allow"
    using assms(2) [OF cmd(1)] by (simp add: check_with_options_def from_matches_Max matches_nonempty)
  then have "rule_match_decision m \<le> Allow" using cmd(2) by (metis List.finite_set Max_ge finite_imageI imageI)
  then show ?thesis using e m(2) by (simp add: decision_le_Allow)
qed

text \<open>
  A requested amendment does what it is proposed for: the prefix is not one of the banned ones,
  and once the rule is added the same request is skipped without asking.
\<close>

lemma requested_amendment_suffices:
  assumes "derive_requested_execpolicy_amendment_from_prefix_rule env (req_prefix_rule req) ms p (policy_commands cmds)
        (\<lambda>cmd. render_decision_for_unmatched_command sp cmd (request_context req (command_origin cmds)) platform)
        resolving_options = Some a"
    and "policy_commands cmds \<noteq> []" "add_prefix_rule p a Allow = Inr p'"
    and "req_allow_prefix_rules req = Honor" "req_environment_policy req = None"
  shows "a \<notin> set BANNED_PREFIX_SUGGESTIONS
    \<and> (\<exists>bypass a'. create_for_parsed_commands env sp try_join p' req cmds platform = Some (Skip bypass a'))"
proof -
  let ?f = "\<lambda>cmd. render_decision_for_unmatched_command sp cmd (request_context req (command_origin cmds)) platform"
  have a: "\<not> list_ex (\<lambda>banned. a = banned) BANNED_PREFIX_SUGGESTIONS"
    "prefix_rule_would_approve_all_commands env p a (policy_commands cmds) ?f resolving_options"
    using assms(1) by (auto simp: derive_requested_execpolicy_amendment_from_prefix_rule_def split: option.splits if_splits)
  obtain e where "check_multiple_with_options env p' (policy_commands cmds) ?f resolving_options = Some e"
    "eval_decision e = Allow"
    using all_allowed [OF assms(2), of env p' ?f] a(2) assms(3)
    by (auto simp: prefix_rule_would_approve_all_commands_def list_all_iff)
  then have "\<exists>bypass a'. create_for_parsed_commands env sp try_join p' req cmds platform = Some (Skip bypass a')"
    using assms(4,5) by (simp add: create_for_parsed_commands_def Let_def current_for_environment_def
        current_for_prefix_rules_def requirement_for_evaluation_def)
  with a(1) show ?thesis by (auto simp: list_ex_iff)
qed

lemma already_allowed_explicitly: "already_allowed env p cmd \<Longrightarrow> explicitly_allowed env p cmd"
proof -
  assume "already_allowed env p cmd"
  then obtain e m where e: "check_multiple_with_options env p [cmd] (\<lambda>_. Forbidden) resolving_options = Some e"
    and m: "m \<in> set (eval_matched_rules e)" "is_policy_match m" "rule_match_decision m = Allow"
    by (auto simp: already_allowed_def list_ex_iff split: option.splits)
  have "m \<in> set (matches_for_command_with_options env p cmd None resolving_options)"
    using m(1,2) by (auto simp: evaluation_matches(1) [OF e] matches_with_fallback split: list.splits)
  with m(2,3) show ?thesis by (auto simp: explicitly_allowed_def list_ex_iff)
qed

lemma matches_prefix_exact_self: "matches_prefix (rule_pattern (exact_rule first rest d)) (first # rest) = Some (first # rest)"
  unfolding matches_prefix_eq_Some_iff by (auto simp: exact_rule_def list_all2_conv_all_nth)

lemma added_rule_allows:
  assumes "mm_inv (rules_by_program p)" "add_prefix_rule p toks Allow = Inr p'"
  shows "explicitly_allowed env p' toks"
proof -
  obtain first rest where toks: "toks = first # rest"
    and p': "p' = p\<lparr>rules_by_program := mm_insert first (exact_rule first rest Allow) (rules_by_program p)\<rparr>"
    using assms(2) by (cases toks) (auto simp: add_prefix_rule_def)
  have "PrefixRuleMatch toks Allow None None \<in> set (exact_matches p' toks)"
    using matches_prefix_exact_self [of first rest Allow]
    by (auto simp: exact_matches_values p' mm.vals_insert [OF assms(1)] set_filter_matches toks rule_matches_def exact_rule_def)
  then show ?thesis by (force simp: explicitly_allowed_def matches_None list_ex_iff)
qed

lemma run_append_policy: "run_append faults path task mgr = (mgr', r) \<Longrightarrow> manager_policy mgr' = manager_policy mgr"
  by (auto simp: run_append_def split: if_splits option.splits prod.splits sum.splits)

lemma run_append_Ok:
  "run_append faults path task mgr = (mgr', Inr u) \<Longrightarrow> task (manager_file mgr) = (manager_file mgr', Inr ())"
  by (auto simp: run_append_def split: if_splits option.splits prod.splits sum.splits)


section \<open>Witnesses\<close>

definition sample_env :: path_env where
  "sample_env = \<lparr>env_home = None, env_cwd = Inr [RootDir]\<rparr>"

definition sample_request :: "rstr list \<Rightarrow> ask_for_approval \<Rightarrow> allow_prefix_rules \<Rightarrow> exec_approval_request" where
  "sample_request command approval allow_rules = \<lparr>req_command = command, req_approval_policy = approval,
     req_sandbox_kind = Restricted, req_environment_policy = None, req_sandbox_permissions = UseDefault,
     req_prefix_rule = Some [lit ''cargo'', lit ''test''], req_allow_prefix_rules = allow_rules\<rparr>"

definition single_command :: "rstr list \<Rightarrow> exec_policy_commands" where
  "single_command command = \<lparr>policy_commands = [command], command_origin = GenericOrigin\<rparr>"

theorem bypass_sandbox_only_if_allowed_witness:
  "let ms = matches_for_command_with_options sample_env (current_for_environment sample_policy
        (req_environment_policy (sample_request [lit ''git''] OnRequest Honor))
        (req_allow_prefix_rules (sample_request [lit ''git''] OnRequest Honor))) [lit ''git''] None resolving_options
    in ms \<noteq> [] \<and> (\<forall>m. m \<in> set ms \<longrightarrow> is_policy_match m \<and> rule_match_decision m = Allow)"
proof (rule bypass_sandbox_only_if_allowed)
  show "create_for_parsed_commands sample_env no_parsers (\<lambda>_. None) sample_policy
      (sample_request [lit ''git''] OnRequest Honor) (single_command [lit ''git'']) Posix = Some (Skip True None)"
    by code_simp
qed (simp add: single_command_def)

theorem dangerous_unmatched_never_skipped_witness:
  "\<exists>reason. create_for_parsed_commands sample_env no_parsers (\<lambda>_. None) sample_policy
      (sample_request [lit ''rm'', lit ''-rf''] Never Honor) (single_command [lit ''rm'', lit ''-rf'']) Posix
    = Some (ForbiddenRequirement reason)"
proof -
  have "matches_for_command_with_options sample_env (current_for_environment sample_policy
        (req_environment_policy (sample_request [lit ''rm'', lit ''-rf''] Never Honor))
        (req_allow_prefix_rules (sample_request [lit ''rm'', lit ''-rf''] Never Honor))) [lit ''rm'', lit ''-rf''] None
      resolving_options = []" by code_simp
  moreover have "dangerous_command_match_for_origin no_parsers [lit ''rm'', lit ''-rf'']
      (command_origin (single_command [lit ''rm'', lit ''-rf''])) Posix \<noteq> None" by code_simp
  moreover have "[lit ''rm'', lit ''-rf''] \<in> set (policy_commands (single_command [lit ''rm'', lit ''-rf'']))"
    by (simp add: single_command_def)
  moreover have "req_approval_policy (sample_request [lit ''rm'', lit ''-rf''] Never Honor) = Never"
    by (simp add: sample_request_def)
  ultimately show ?thesis using dangerous_unmatched_never_skipped by blast
qed

theorem rejected_prompts_never_asked_witness:
  "create_for_shell sample_env no_parsers (\<lambda>_. None) policy_empty (sample_request [lit ''rm'', lit ''-rf''] Never Honor)
     [RootDir, Normal (lit ''zsh'')] False Posix \<noteq> Some (NeedsApproval None None)"
  by (rule rejected_prompts_never_asked) (simp add: sample_request_def)

theorem forbidden_rule_is_final_witness:
  "\<exists>reason. create_for_parsed_commands sample_env no_parsers (\<lambda>_. None) sample_policy
      ((sample_request [lit ''git'', lit ''push''] OnRequest Honor)\<lparr>req_environment_policy := Some sample_overlay\<rparr>)
      (single_command [lit ''git'', lit ''push'']) Posix = Some (ForbiddenRequirement reason)"
proof (rule forbidden_rule_is_final [OF sample_policies_inv(1)])
  have "PrefixRuleMatch [lit ''git'', lit ''push''] Forbidden None None
      \<in> set (exact_matches sample_overlay [lit ''git'', lit ''push''])" by code_simp
  then show "(\<exists>q. (q = sample_policy
        \<or> req_environment_policy ((sample_request [lit ''git'', lit ''push''] OnRequest Honor)
            \<lparr>req_environment_policy := Some sample_overlay\<rparr>) = Some q)
        \<and> PrefixRuleMatch [lit ''git'', lit ''push''] Forbidden None None \<in> set (exact_matches q [lit ''git'', lit ''push'']))
      \<or> PrefixRuleMatch [lit ''git'', lit ''push''] Forbidden None None \<in> set (matches_for_command_with_options sample_env
          (current_for_environment sample_policy
            (req_environment_policy ((sample_request [lit ''git'', lit ''push''] OnRequest Honor)
              \<lparr>req_environment_policy := Some sample_overlay\<rparr>))
            (req_allow_prefix_rules ((sample_request [lit ''git'', lit ''push''] OnRequest Honor)
              \<lparr>req_environment_policy := Some sample_overlay\<rparr>)))
          [lit ''git'', lit ''push''] None resolving_options)" by auto
qed (simp_all add: sample_policies_inv(2) single_command_def sample_request_def)

definition sample_manager :: exec_policy_manager where
  "sample_manager = \<lparr>manager_policy = policy_empty, manager_file = []\<rparr>"

definition no_faults :: update_faults where
  "no_faults = \<lparr>semaphore_closed = False, task_lost = None\<rparr>"


end
