(* ===== verification/Seek_Sequence.thy ===== *)
theory Seek_Sequence
  imports Hexa_Prelude
begin

text \<open>
  Model of \<open>engine/apply-patch/src/seek_sequence.rs\<close>: the search for the old lines of a patch
  chunk in the lines of the file. Four passes over the candidate positions, each more lenient
  than the one before. The locale \<open>line_seeker\<close> is the contract the search offers to its
  client, the computation of replacements.
\<close>

section \<open>The search\<close>

datatype update_mode = NormalizeToLf | PreserveLineEndings

definition normalise_char :: "rchar \<Rightarrow> rchar" where
  "normalise_char c =
     (if c \<in> {0x2010, 0x2011, 0x2012, 0x2013, 0x2014, 0x2015, 0x2212} then 0x2D
      else if c \<in> {0x2018, 0x2019, 0x201A, 0x201B} then 0x27
      else if c \<in> {0x201C, 0x201D, 0x201E, 0x201F} then 0x22
      else if c \<in> {0x00A0, 0x2002, 0x2003, 0x2004, 0x2005, 0x2006, 0x2007, 0x2008, 0x2009, 0x200A,
                   0x202F, 0x205F, 0x3000} then 0x20
      else c)"

definition normalise :: "rstr \<Rightarrow> rstr" where
  "normalise s = map normalise_char (trim s)"

text \<open>One candidate position: every pattern line agrees with its file line after \<open>f\<close>.\<close>

definition match_at :: "(rstr \<Rightarrow> rstr) \<Rightarrow> rstr list \<Rightarrow> rstr list \<Rightarrow> nat \<Rightarrow> bool" where
  "match_at f ls pat i \<longleftrightarrow> list_all (\<lambda>k. f (ls ! (i + k)) = f (pat ! k)) [0..<length pat]"

text \<open>One pass: the first position of the inclusive range that matches.\<close>

definition seek_pass :: "(rstr \<Rightarrow> rstr) \<Rightarrow> rstr list \<Rightarrow> rstr list \<Rightarrow> nat \<Rightarrow> nat option" where
  "seek_pass f ls pat start = find (match_at f ls pat) [start..<Suc (length ls - length pat)]"

definition search_start :: "rstr list \<Rightarrow> rstr list \<Rightarrow> nat \<Rightarrow> bool \<Rightarrow> update_mode \<Rightarrow> nat" where
  "search_start ls pat start eof mode =
     (if eof \<and> length pat \<le> length ls then
        let eof_start = length ls - length pat in
        case mode of NormalizeToLf \<Rightarrow> eof_start | PreserveLineEndings \<Rightarrow> max eof_start start
      else start)"

definition seek_sequence ::
    "rstr list \<Rightarrow> rstr list \<Rightarrow> nat \<Rightarrow> bool \<Rightarrow> update_mode \<Rightarrow> nat option" where
  "seek_sequence ls pat start eof mode =
     (if pat = [] then Some start
      else if length ls < length pat then None
      else
        let from = search_start ls pat start eof mode in
        case seek_pass id ls pat from of Some i \<Rightarrow> Some i | None \<Rightarrow>
        (case seek_pass trim_end ls pat from of Some i \<Rightarrow> Some i | None \<Rightarrow>
        (case seek_pass trim ls pat from of Some i \<Rightarrow> Some i | None \<Rightarrow>
         seek_pass normalise ls pat from)))"

section \<open>Facts about one pass\<close>

lemma match_at_iff:
  assumes "i + length pat \<le> length ls"
  shows "match_at f ls pat i \<longleftrightarrow> map f (take (length pat) (drop i ls)) = map f pat"
proof -
  have len: "length (take (length pat) (drop i ls)) = length pat" using assms by simp
  have "map f (take (length pat) (drop i ls)) = map f pat \<longleftrightarrow>
      (\<forall>k<length pat. f (ls ! (i + k)) = f (pat ! k))"
    using assms by (simp only: map_equality_iff len) auto
  then show ?thesis by (auto simp: match_at_def list_all_iff)
qed

lemma match_at_weaken:
  assumes "match_at f ls pat i" "\<And>s t. f s = f t \<Longrightarrow> g s = g t"
  shows "match_at g ls pat i"
  using assms unfolding match_at_def list_all_iff by blast

lemma find_upt_Some_iff:
  "find P [a..<b] = Some i \<longleftrightarrow> a \<le> i \<and> i < b \<and> P i \<and> (\<forall>j. a \<le> j \<and> j < i \<longrightarrow> \<not> P j)"
proof
  assume "find P [a..<b] = Some i"
  then obtain k where k: "k < b - a" "P (a + k)" "i = a + k" "\<forall>j<k. \<not> P (a + j)"
    by (auto simp: find_Some_iff)
  then show "a \<le> i \<and> i < b \<and> P i \<and> (\<forall>j. a \<le> j \<and> j < i \<longrightarrow> \<not> P j)"
    by (auto simp: less_diff_conv) (metis le_Suc_ex nat_add_left_cancel_less)
next
  assume r: "a \<le> i \<and> i < b \<and> P i \<and> (\<forall>j. a \<le> j \<and> j < i \<longrightarrow> \<not> P j)"
  then have "i - a < length [a..<b] \<and> P ([a..<b] ! (i - a)) \<and> i = [a..<b] ! (i - a)
      \<and> (\<forall>j<i - a. \<not> P ([a..<b] ! j))"
    by auto
  then show "find P [a..<b] = Some i" unfolding find_Some_iff by blast
qed

lemma find_upt_None_iff: "find P [a..<b] = None \<longleftrightarrow> (\<forall>j. a \<le> j \<and> j < b \<longrightarrow> \<not> P j)"
  by (auto simp: find_None_iff)

lemma seek_pass_Some_iff:
  assumes "length pat \<le> length ls"
  shows "seek_pass f ls pat start = Some i \<longleftrightarrow>
     start \<le> i \<and> i + length pat \<le> length ls \<and> match_at f ls pat i
     \<and> (\<forall>j. start \<le> j \<and> j < i \<longrightarrow> \<not> match_at f ls pat j)"
  using assms unfolding seek_pass_def find_upt_Some_iff by auto

lemma seek_pass_None_iff:
  assumes "length pat \<le> length ls"
  shows "seek_pass f ls pat start = None \<longleftrightarrow>
     (\<forall>j. start \<le> j \<and> j + length pat \<le> length ls \<longrightarrow> \<not> match_at f ls pat j)"
  using assms unfolding seek_pass_def find_upt_None_iff by auto

text \<open>The four keys form a chain: agreement under one gives agreement under the next.\<close>

lemma normalise_coarsest: "trim s = trim t \<Longrightarrow> normalise s = normalise t"
  by (simp add: normalise_def)

lemma match_at_chain:
  "match_at id ls pat i \<Longrightarrow> match_at trim_end ls pat i"
  "match_at trim_end ls pat i \<Longrightarrow> match_at trim ls pat i"
  "match_at trim ls pat i \<Longrightarrow> match_at normalise ls pat i"
  by (erule match_at_weaken, simp, erule match_at_weaken, rule trim_end_eq_imp_trim_eq, assumption,
      erule match_at_weaken, rule normalise_coarsest, assumption)

section \<open>Facts about the search\<close>

lemma seek_sequence_Nil [simp]: "seek_sequence ls [] start eof mode = Some start"
  by (simp add: seek_sequence_def)

lemma seek_sequence_cases:
  assumes "seek_sequence ls pat start eof mode = Some i" "pat \<noteq> []"
  obtains f where "f \<in> {id, trim_end, trim, normalise}" "length pat \<le> length ls"
    "seek_pass f ls pat (search_start ls pat start eof mode) = Some i"
  using assms by (auto simp: seek_sequence_def Let_def split: if_splits option.splits)

lemma seek_sequence_found:
  assumes "seek_sequence ls pat start eof mode = Some i" "pat \<noteq> []"
  shows "search_start ls pat start eof mode \<le> i" "i + length pat \<le> length ls"
    "match_at normalise ls pat i"
proof -
  obtain f where f: "f \<in> {id, trim_end, trim, normalise}" and len: "length pat \<le> length ls"
    and pass: "seek_pass f ls pat (search_start ls pat start eof mode) = Some i"
    using seek_sequence_cases [OF assms] .
  show "search_start ls pat start eof mode \<le> i" "i + length pat \<le> length ls"
    using pass len by (auto simp: seek_pass_Some_iff)
  have "match_at f ls pat i" using pass len by (auto simp: seek_pass_Some_iff)
  then show "match_at normalise ls pat i" using f by (auto intro: match_at_chain)
qed

lemma seek_sequence_None_iff:
  assumes "pat \<noteq> []"
  shows "seek_sequence ls pat start eof mode = None \<longleftrightarrow>
    (\<forall>j. search_start ls pat start eof mode \<le> j \<and> j + length pat \<le> length ls
        \<longrightarrow> \<not> match_at normalise ls pat j)"
proof (cases "length pat \<le> length ls")
  case True
  then show ?thesis
    using assms unfolding seek_sequence_def Let_def
    by (auto split: option.splits simp: seek_pass_None_iff seek_pass_Some_iff dest: match_at_chain)
next
  case False
  then show ?thesis using assms by (auto simp: seek_sequence_def)
qed

lemma search_start_preserve: "start \<le> search_start ls pat start eof PreserveLineEndings"
  by (simp add: search_start_def Let_def)

section \<open>The contract of the search\<close>

text \<open>
  What the computation of replacements relies on. Both update modes keep the match inside the
  file; only the mode that preserves line endings promises that a match never starts before the
  cursor.
\<close>

locale bounded_seeker =
  fixes seek :: "rstr list \<Rightarrow> rstr list \<Rightarrow> nat \<Rightarrow> bool \<Rightarrow> nat option"
  assumes seek_empty: "seek ls [] start eof = Some start"
    and seek_bound: "seek ls pat start eof = Some i \<Longrightarrow> pat \<noteq> [] \<Longrightarrow> i + length pat \<le> length ls"
begin

lemma region_in_file:
  assumes "seek ls pat start eof = Some i" "start \<le> length ls"
  shows "i + length pat \<le> length ls"
  using assms seek_bound seek_empty by (cases "pat = []") auto

end

locale line_seeker = bounded_seeker +
  assumes seek_forward: "seek ls pat start eof = Some i \<Longrightarrow> pat \<noteq> [] \<Longrightarrow> start \<le> i"
begin

lemma region_after_cursor:
  assumes "seek ls pat start eof = Some i"
  shows "start \<le> i"
  using assms seek_forward seek_empty by (cases "pat = []") auto

text \<open>Two searches in a row give regions that do not overlap.\<close>

lemma regions_disjoint:
  assumes "seek ls pat start eof = Some i" "seek ls pat' (i + length pat) eof' = Some j"
  shows "i + length pat \<le> j"
  using assms(2) by (rule region_after_cursor)

text \<open>A context line found at \<open>idx\<close> moves the cursor to \<open>idx + 1\<close>, still inside the file.\<close>

lemma cursor_after_context:
  assumes "seek ls [ctx] start False = Some idx"
  shows "start \<le> idx" "idx + 1 \<le> length ls"
  using seek_forward [OF assms] seek_bound [OF assms] by simp_all

end

interpretation any_mode: bounded_seeker "\<lambda>ls pat start eof. seek_sequence ls pat start eof mode"
  for mode
  by unfold_locales (auto dest: seek_sequence_found)

interpretation preserve: line_seeker
  "\<lambda>ls pat start eof. seek_sequence ls pat start eof PreserveLineEndings"
  by unfold_locales (auto dest: seek_sequence_found intro: order_trans [OF search_start_preserve])

section \<open>Strictness before position\<close>

lemma seek_sequence_verbatim:
  assumes "pat \<noteq> []" "search_start ls pat start eof mode \<le> i" "take (length pat) (drop i ls) = pat"
  shows "\<exists>k. seek_sequence ls pat start eof mode = Some k \<and> k \<le> i
    \<and> take (length pat) (drop k ls) = pat
    \<and> (\<forall>j. search_start ls pat start eof mode \<le> j \<and> j < k \<longrightarrow> take (length pat) (drop j ls) \<noteq> pat)"
proof -
  let ?from = "search_start ls pat start eof mode"
  have fits: "i + length pat \<le> length ls"
  proof -
    have "length (take (length pat) (drop i ls)) = length pat" using assms(3) by simp
    moreover have "0 < length pat" using assms(1) by simp
    ultimately show ?thesis unfolding length_take length_drop by arith
  qed
  then have len: "length pat \<le> length ls" by simp
  have at: "match_at id ls pat j \<longleftrightarrow> take (length pat) (drop j ls) = pat"
    if "j + length pat \<le> length ls" for j
    using match_at_iff [OF that, of id] by simp
  obtain k where k: "seek_pass id ls pat ?from = Some k"
    using seek_pass_None_iff [OF len, of id ?from] at [OF fits] assms(2,3) fits by fastforce
  then have "k \<le> i"
    using assms(2,3) at [OF fits] unfolding seek_pass_Some_iff [OF len] by (meson not_le)
  moreover have "seek_sequence ls pat start eof mode = Some k"
    using assms(1) len k by (simp add: seek_sequence_def)
  moreover have "take (length pat) (drop k ls) = pat"
    using k at unfolding seek_pass_Some_iff [OF len] by blast
  moreover have "take (length pat) (drop j ls) \<noteq> pat" if "?from \<le> j" "j < k" for j
    using k at [of j] that unfolding seek_pass_Some_iff [OF len] by auto
  ultimately show ?thesis by blast
qed

section \<open>Properties\<close>

text \<open>
  A match is where it should be and the search misses none: the position found lies at or
  after the start of the search and the pattern fits there, each pattern line agrees with its
  file line up to surrounding white space and typographic punctuation, and when nothing is
  returned no position of the range agrees in that sense.
\<close>

lemma seek_sequence_correct:
  assumes "pat \<noteq> []"
  shows "case seek_sequence ls pat start eof mode of
      Some i \<Rightarrow> search_start ls pat start eof mode \<le> i \<and> i + length pat \<le> length ls
        \<and> map normalise (take (length pat) (drop i ls)) = map normalise pat
    | None \<Rightarrow> (\<forall>j. search_start ls pat start eof mode \<le> j \<and> j + length pat \<le> length ls
        \<longrightarrow> map normalise (take (length pat) (drop j ls)) \<noteq> map normalise pat)"
proof (cases "seek_sequence ls pat start eof mode")
  case None
  then have "\<forall>j. search_start ls pat start eof mode \<le> j \<and> j + length pat \<le> length ls
      \<longrightarrow> \<not> match_at normalise ls pat j"
    using seek_sequence_None_iff [OF assms] by simp
  with None show ?thesis by (simp add: match_at_iff)
next
  case (Some i)
  then show ?thesis using seek_sequence_found [OF Some assms] by (simp add: match_at_iff)
qed

end
