(* ===== verification/Text_File.thy ===== *)
theory Text_File
  imports Hexa_Prelude
begin

text \<open>
  Model of \<open>engine/apply-patch/src/text_file.rs\<close>: a file as logical lines that keep their line
  endings, rebuilt from a list of replacements. \<open>splice\<close> is the reference meaning of a list of
  replacements; \<open>reps_wf\<close> says that the list is in source order, inside the file and free of
  overlap, which is what the rebuilding loop relies on.
\<close>

section \<open>Data\<close>

type_synonym replacement = "nat \<times> nat \<times> rstr list"

datatype line_ending = Lf | CrLf | Cr

fun as_str :: "line_ending \<Rightarrow> rstr" where
  "as_str Lf = [NL]"
| "as_str CrLf = [CR, NL]"
| "as_str Cr = [CR]"

record source_line =
  line_text :: rstr
  line_end :: "line_ending option"

record source_file =
  file_lines :: "source_line list"
  preferred_ending :: line_ending

section \<open>Operations\<close>

text \<open>
  \<open>SourceFile::parse\<close>. The loop's slice from \<open>line_start\<close> to \<open>cursor\<close> is the first argument,
  the contents from \<open>cursor\<close> on the second.
\<close>

definition get_or_insert :: "'a option \<Rightarrow> 'a \<Rightarrow> 'a option" where
  "get_or_insert opt x = (case opt of None \<Rightarrow> Some x | Some y \<Rightarrow> Some y)"

fun parse_loop :: "rstr \<Rightarrow> rstr \<Rightarrow> source_line list \<Rightarrow> line_ending option
    \<Rightarrow> source_line list \<times> line_ending option" where
  "parse_loop cur [] ls pref =
     ((if cur = [] then ls else ls @ [\<lparr>line_text = cur, line_end = None\<rparr>]), pref)"
| "parse_loop cur (c # cs) ls pref =
     (if c = CR \<and> cs \<noteq> [] \<and> hd cs = NL then
        parse_loop [] (tl cs) (ls @ [\<lparr>line_text = cur, line_end = Some CrLf\<rparr>]) (get_or_insert pref CrLf)
      else if c = CR then
        parse_loop [] cs (ls @ [\<lparr>line_text = cur, line_end = Some Cr\<rparr>]) (get_or_insert pref Cr)
      else if c = NL then
        parse_loop [] cs (ls @ [\<lparr>line_text = cur, line_end = Some Lf\<rparr>]) (get_or_insert pref Lf)
      else parse_loop (cur @ [c]) cs ls pref)"

definition parse_source :: "rstr \<Rightarrow> source_file" where
  "parse_source contents = (case parse_loop [] contents [] None of
     (ls, pref) \<Rightarrow> \<lparr>file_lines = ls, preferred_ending = (case pref of None \<Rightarrow> Lf | Some e \<Rightarrow> e)\<rparr>)"

definition line_texts :: "source_file \<Rightarrow> rstr list" where
  "line_texts f = map line_text (file_lines f)"

text \<open>
  \<open>SourceFile::apply_replacements\<close>. \<open>None\<close> is the failure of the assertion that the replacements
  are in source order (and the underflow of the subtraction after it).
\<close>

definition inserted_line :: "line_ending \<Rightarrow> rstr \<Rightarrow> source_line" where
  "inserted_line e t = \<lparr>line_text = t, line_end = Some e\<rparr>"

fun rebuild_loop :: "line_ending \<Rightarrow> replacement list \<Rightarrow> nat \<Rightarrow> source_line list \<Rightarrow> source_line list
    \<Rightarrow> source_line list option" where
  "rebuild_loop e [] source_index source_lines new_lines = Some (new_lines @ source_lines)"
| "rebuild_loop e ((start_idx, old_len, new_segment) # reps) source_index source_lines new_lines =
     (if start_idx < source_index then None
      else rebuild_loop e reps (start_idx + old_len)
        (drop old_len (drop (start_idx - source_index) source_lines))
        (new_lines @ take (start_idx - source_index) source_lines @ map (inserted_line e) new_segment))"

definition fill_ending :: "line_ending \<Rightarrow> source_line \<Rightarrow> source_line" where
  "fill_ending e l = l\<lparr>line_end := get_or_insert (line_end l) e\<rparr>"

definition apply_source_replacements :: "source_file \<Rightarrow> replacement list \<Rightarrow> source_file option" where
  "apply_source_replacements f reps =
     (case rebuild_loop (preferred_ending f) reps 0 (file_lines f) [] of
        None \<Rightarrow> None
      | Some ls \<Rightarrow> Some (f\<lparr>file_lines := map (fill_ending (preferred_ending f)) ls\<rparr>))"

definition line_contents :: "source_line \<Rightarrow> rstr" where
  "line_contents l = line_text l @ (case line_end l of None \<Rightarrow> [] | Some e \<Rightarrow> as_str e)"

definition into_contents :: "source_file \<Rightarrow> rstr" where
  "into_contents f = concat (map line_contents (file_lines f))"

section \<open>Reference meaning of a list of replacements\<close>

text \<open>\<open>splice mk k xs reps\<close>: \<open>xs\<close> are the elements from index \<open>k\<close> on.\<close>

fun splice :: "('b \<Rightarrow> 'a) \<Rightarrow> nat \<Rightarrow> 'a list \<Rightarrow> (nat \<times> nat \<times> 'b list) list \<Rightarrow> 'a list" where
  "splice mk k xs [] = xs"
| "splice mk k xs ((s, n, new) # reps) =
     take (s - k) xs @ map mk new @ splice mk (s + n) (drop (s + n - k) xs) reps"

fun reps_wf :: "nat \<Rightarrow> nat \<Rightarrow> (nat \<times> nat \<times> 'b list) list \<Rightarrow> bool" where
  "reps_wf k len [] \<longleftrightarrow> k \<le> len"
| "reps_wf k len ((s, n, new) # reps) \<longleftrightarrow> k \<le> s \<and> s + n \<le> len \<and> reps_wf (s + n) len reps"

lemma reps_wf_le: "reps_wf k len reps \<Longrightarrow> k \<le> len"
  by (induction reps arbitrary: k) fastforce+

lemma splice_map:
  assumes "\<And>t. g (mk t) = mk' t"
  shows "map g (splice mk k xs reps) = splice mk' k (map g xs) reps"
  using assms by (induction mk k xs reps rule: splice.induct) (auto simp: take_map drop_map)

section \<open>The rebuilding loop\<close>

lemma rebuild_loop_splice:
  "reps_wf k len reps \<Longrightarrow>
   rebuild_loop e reps k ls acc = Some (acc @ splice (inserted_line e) k ls reps)"
proof (induction reps arbitrary: k ls acc)
  case Nil
  then show ?case by simp
next
  case (Cons r reps)
  obtain s n new where r: "r = (s, n, new)" by (cases r)
  with Cons.prems have "k \<le> s" "reps_wf (s + n) len reps" by auto
  then show ?case using Cons.IH by (simp add: r add.commute)
qed

lemma apply_source_replacements_splice:
  assumes "reps_wf 0 len reps"
  shows "apply_source_replacements f reps = Some (f\<lparr>file_lines :=
    map (fill_ending (preferred_ending f)) (splice (inserted_line (preferred_ending f)) 0 (file_lines f) reps)\<rparr>)"
  using rebuild_loop_splice [OF assms] by (simp add: apply_source_replacements_def)

section \<open>Parsing\<close>

lemma parse_loop_contents:
  "concat (map line_contents (fst (parse_loop cur cs ls pref))) =
   concat (map line_contents ls) @ cur @ cs"
proof (induction cur cs ls pref rule: parse_loop.induct)
  case (1 cur ls pref)
  show ?case by (simp add: line_contents_def)
next
  case (2 cur c cs ls pref)
  show ?case
  proof (cases "c = CR \<and> cs \<noteq> [] \<and> hd cs = NL")
    case True
    then have "cs = NL # tl cs" by (cases cs) auto
    with True show ?thesis using "2.IH"(1) by (auto simp: line_contents_def)
  next
    case False
    then show ?thesis using "2.IH"(2,3,4) by (auto simp: line_contents_def)
  qed
qed

lemma into_contents_parse_source: "into_contents (parse_source c) = c"
  using parse_loop_contents [of "[]" c "[]" None]
  by (simp add: into_contents_def parse_source_def case_prod_beta)

text \<open>Only the last line of a parsed file can lack an ending, and no line text holds one.\<close>

definition terminated :: "source_line \<Rightarrow> bool" where
  "terminated l \<longleftrightarrow> line_end l \<noteq> None"

definition plain_text :: "source_line \<Rightarrow> bool" where
  "plain_text l \<longleftrightarrow> NL \<notin> set (line_text l) \<and> CR \<notin> set (line_text l)"

lemma parse_loop_plain:
  "list_all plain_text ls \<Longrightarrow> NL \<notin> set cur \<Longrightarrow> CR \<notin> set cur \<Longrightarrow>
   list_all plain_text (fst (parse_loop cur cs ls pref))"
  by (induction cur cs ls pref rule: parse_loop.induct) (auto simp: plain_text_def)

lemma parse_loop_terminated:
  "list_all terminated ls \<Longrightarrow> list_all terminated (butlast (fst (parse_loop cur cs ls pref)))"
proof (induction cur cs ls pref rule: parse_loop.induct)
  case (1 cur ls pref)
  then show ?case by (auto simp: list_all_iff dest: in_set_butlastD)
next
  case (2 cur c cs ls pref)
  then show ?case by (auto simp: terminated_def)
qed

section \<open>Properties\<close>

text \<open>
  Parsing a source file into lines and writing it back gives the original contents, whatever
  mix of line endings it has; no line text holds a line break, and only the last line can lack an
  ending.
\<close>

lemma parse_source_round_trip:
  "into_contents (parse_source c) = c
   \<and> list_all plain_text (file_lines (parse_source c))
   \<and> list_all terminated (butlast (file_lines (parse_source c)))"
  using into_contents_parse_source [of c] parse_loop_plain [of "[]" "[]" c None]
    parse_loop_terminated [of "[]" "[]" c None]
  by (simp add: parse_source_def case_prod_beta)

end
