(* ===== verification/File_Update.thy ===== *)
theory File_Update
  imports Seek_Sequence Text_File Patch_Parser
begin

text \<open>
  Model of \<open>engine/apply-patch/src/file_update.rs\<close>: from the chunks of an update hunk to a list of
  replacements, and from the replacements to the new contents of the file, in the two update
  modes. A Rust panic (an index out of range, an underflow with overflow checks on, a failed
  assertion) is the error value \<open>Panic\<close>.
\<close>

section \<open>Errors\<close>

datatype io_error_kind = NotFound | OtherKind rstr

datatype apply_patch_error =
    ParseError parse_error
  | IoError rstr io_error_kind
  | ComputeReplacements rstr
  | PathUriError rstr
  | ImplicitInvocation
  | Panic

section \<open>Replacements\<close>

definition ends_in_empty :: "rstr list \<Rightarrow> bool" where
  "ends_in_empty ls \<longleftrightarrow> ls \<noteq> [] \<and> last ls = []"

text \<open>
  The loop over \<open>context_line_indices\<close>: one replacement for each run of changed lines between
  context lines, ended early by a context position that was cut off.
\<close>

fun context_splits ::
    "nat \<Rightarrow> rstr list \<Rightarrow> rstr list \<Rightarrow> (nat \<times> nat) list \<Rightarrow> nat \<Rightarrow> nat \<Rightarrow> replacement list
     \<Rightarrow> apply_patch_error + (nat \<times> nat \<times> replacement list)" where
  "context_splits start_idx pat new_slice [] old_start new_start reps = Inr (old_start, new_start, reps)"
| "context_splits start_idx pat new_slice ((old_context, new_context) # idxs) old_start new_start reps =
     (if length pat \<le> old_context \<or> length new_slice \<le> new_context then Inr (old_start, new_start, reps)
      else if old_start \<noteq> old_context \<or> new_start \<noteq> new_context then
        if old_context < old_start \<or> new_context < new_start then Inl Panic
        else context_splits start_idx pat new_slice idxs (old_context + 1) (new_context + 1)
          (reps @ [(start_idx + old_start, old_context - old_start,
                    take (new_context - new_start) (drop new_start new_slice))])
      else context_splits start_idx pat new_slice idxs (old_context + 1) (new_context + 1) reps)"

definition preserving_replacements ::
    "nat \<Rightarrow> rstr list \<Rightarrow> rstr list \<Rightarrow> (nat \<times> nat) list \<Rightarrow> apply_patch_error + replacement list" where
  "preserving_replacements start_idx pat new_slice idxs =
     res_bind (context_splits start_idx pat new_slice idxs 0 0 []) (\<lambda>(old_start, new_start, reps).
       if old_start \<noteq> length pat \<or> new_start \<noteq> length new_slice then
         if length pat < old_start \<or> length new_slice < new_start then Inl Panic
         else Inr (reps @ [(start_idx + old_start, length pat - old_start, drop new_start new_slice)])
       else Inr reps)"

definition insertion_idx :: "update_mode \<Rightarrow> rstr list \<Rightarrow> nat" where
  "insertion_idx mode original_lines =
     (case mode of
        NormalizeToLf \<Rightarrow> if ends_in_empty original_lines then length original_lines - 1 else length original_lines
      | PreserveLineEndings \<Rightarrow> length original_lines)"

text \<open>The cursor after the context line of a chunk.\<close>

definition seek_context ::
    "rstr list \<Rightarrow> rstr \<Rightarrow> update_mode \<Rightarrow> rstr option \<Rightarrow> nat \<Rightarrow> apply_patch_error + nat" where
  "seek_context original_lines path mode ctx line_index =
     (case ctx of
        None \<Rightarrow> Inr line_index
      | Some ctx_line \<Rightarrow>
        (case seek_sequence original_lines [ctx_line] line_index False mode of
           Some idx \<Rightarrow> Inr (idx + 1)
         | None \<Rightarrow> Inl (ComputeReplacements
             (lit ''Failed to find context '' @ quoted ctx_line @ lit '' in '' @ path))))"

text \<open>
  Where the old lines of a chunk are, with the pattern and the new lines that go with the match:
  a final empty pattern line is dropped when the first search fails.
\<close>

definition locate_chunk ::
    "rstr list \<Rightarrow> update_mode \<Rightarrow> update_file_chunk \<Rightarrow> nat \<Rightarrow> nat option \<times> rstr list \<times> rstr list" where
  "locate_chunk original_lines mode chunk line_index =
     (let pat = old_lines chunk; new_slice = new_lines chunk;
          found = seek_sequence original_lines pat line_index (is_end_of_file chunk) mode in
      if found = None \<and> ends_in_empty pat then
        let pat' = butlast pat;
            new' = (if ends_in_empty new_slice then butlast new_slice else new_slice) in
        (seek_sequence original_lines pat' line_index (is_end_of_file chunk) mode, pat', new')
      else (found, pat, new_slice))"

definition chunk_replacements ::
    "rstr list \<Rightarrow> rstr \<Rightarrow> update_mode \<Rightarrow> update_file_chunk \<Rightarrow> nat \<times> replacement list
     \<Rightarrow> apply_patch_error + (nat \<times> replacement list)" where
  "chunk_replacements original_lines path mode chunk = (\<lambda>(line_index0, reps).
     res_bind (seek_context original_lines path mode (change_context chunk) line_index0) (\<lambda>line_index.
     if old_lines chunk = [] then
       Inr (line_index, reps @ [(insertion_idx mode original_lines, 0, new_lines chunk)])
     else
       case locate_chunk original_lines mode chunk line_index of
         (None, _, _) \<Rightarrow> Inl (ComputeReplacements
           (lit ''Failed to find expected lines in '' @ path @ lit '':'' @ [NL] @ join [NL] (old_lines chunk)))
       | (Some start_idx, pat, new_slice) \<Rightarrow>
         (case mode of
            NormalizeToLf \<Rightarrow> Inr (start_idx + length pat, reps @ [(start_idx, length pat, new_slice)])
          | PreserveLineEndings \<Rightarrow>
            res_bind (preserving_replacements start_idx pat new_slice (context_line_indices chunk))
              (\<lambda>new_reps. Inr (start_idx + length pat, reps @ new_reps)))))"

fun chunks_loop ::
    "rstr list \<Rightarrow> rstr \<Rightarrow> update_mode \<Rightarrow> update_file_chunk list \<Rightarrow> nat \<times> replacement list
     \<Rightarrow> apply_patch_error + (nat \<times> replacement list)" where
  "chunks_loop original_lines path mode [] st = Inr st"
| "chunks_loop original_lines path mode (chunk # chunks) st =
     res_bind (chunk_replacements original_lines path mode chunk st)
       (chunks_loop original_lines path mode chunks)"

definition compute_replacements ::
    "rstr list \<Rightarrow> rstr \<Rightarrow> update_file_chunk list \<Rightarrow> update_mode \<Rightarrow> apply_patch_error + replacement list" where
  "compute_replacements original_lines path chunks mode =
     res_bind (chunks_loop original_lines path mode chunks (0, [])) (\<lambda>(_, reps).
       Inr (sort_key fst reps))"

section \<open>Applying replacements\<close>

fun remove_lines :: "nat \<Rightarrow> nat \<Rightarrow> 'a list \<Rightarrow> 'a list" where
  "remove_lines start_idx 0 ls = ls"
| "remove_lines start_idx (Suc n) ls =
     remove_lines start_idx n (if start_idx < length ls then take start_idx ls @ drop (Suc start_idx) ls else ls)"

text \<open>\<open>Vec::insert\<close> panics when the index is greater than the length.\<close>

fun insert_lines :: "nat \<Rightarrow> 'a list \<Rightarrow> 'a list \<Rightarrow> 'a list option" where
  "insert_lines idx [] ls = Some ls"
| "insert_lines idx (x # xs) ls =
     (if length ls < idx then None else insert_lines (Suc idx) xs (take idx ls @ [x] @ drop idx ls))"

fun apply_loop :: "'a list \<Rightarrow> (nat \<times> nat \<times> 'a list) list \<Rightarrow> 'a list option" where
  "apply_loop ls [] = Some ls"
| "apply_loop ls ((start_idx, old_len, new_segment) # reps) =
     (case insert_lines start_idx new_segment (remove_lines start_idx old_len ls) of
        None \<Rightarrow> None
      | Some ls' \<Rightarrow> apply_loop ls' reps)"

definition apply_replacements :: "'a list \<Rightarrow> (nat \<times> nat \<times> 'a list) list \<Rightarrow> 'a list option" where
  "apply_replacements ls reps = apply_loop ls (rev reps)"

section \<open>New contents\<close>

definition drop_final_empty :: "rstr list \<Rightarrow> rstr list" where
  "drop_final_empty ls = (if ends_in_empty ls then butlast ls else ls)"

definition normalized_contents ::
    "rstr \<Rightarrow> rstr \<Rightarrow> update_file_chunk list \<Rightarrow> apply_patch_error + rstr" where
  "normalized_contents original_contents path chunks =
     (let original_lines = drop_final_empty (split_char NL original_contents) in
      res_bind (compute_replacements original_lines path chunks NormalizeToLf) (\<lambda>reps.
      case apply_replacements original_lines reps of
        None \<Rightarrow> Inl Panic
      | Some ls \<Rightarrow> Inr (join [NL] (if ends_in_empty ls then ls else ls @ [[]]))))"

definition preserved_contents ::
    "rstr \<Rightarrow> rstr \<Rightarrow> update_file_chunk list \<Rightarrow> apply_patch_error + rstr" where
  "preserved_contents original_contents path chunks =
     (let source_file = parse_source original_contents in
      res_bind (compute_replacements (line_texts source_file) path chunks PreserveLineEndings) (\<lambda>reps.
      case apply_source_replacements source_file reps of
        None \<Rightarrow> Inl Panic
      | Some f \<Rightarrow> Inr (into_contents f)))"

definition new_contents_from_chunks ::
    "rstr \<Rightarrow> rstr \<Rightarrow> update_file_chunk list \<Rightarrow> update_mode \<Rightarrow> apply_patch_error + rstr" where
  "new_contents_from_chunks original_contents path chunks mode =
     (case mode of
        NormalizeToLf \<Rightarrow> normalized_contents original_contents path chunks
      | PreserveLineEndings \<Rightarrow> preserved_contents original_contents path chunks)"

section \<open>Applying replacements from the end\<close>

lemma remove_lines_eq: "s \<le> length ls \<Longrightarrow> remove_lines s n ls = take s ls @ drop (s + n) ls"
proof (induction s n ls rule: remove_lines.induct)
  case (1 s ls)
  then show ?case by simp
next
  case (2 s n ls)
  then show ?case by (cases "s < length ls") (simp_all add: add.commute)
qed

lemma insert_lines_eq: "idx \<le> length ls \<Longrightarrow> insert_lines idx xs ls = Some (take idx ls @ xs @ drop idx ls)"
proof (induction idx xs ls rule: insert_lines.induct)
  case (2 idx x xs ls)
  then have "length (take idx ls) = idx" by simp
  with 2 show ?case by simp
qed simp

lemma apply_loop_append:
  "apply_loop ls (xs @ ys) = (case apply_loop ls xs of None \<Rightarrow> None | Some ls' \<Rightarrow> apply_loop ls' ys)"
  by (induction ls xs rule: apply_loop.induct) (auto split: option.splits)

lemma apply_loop_step:
  assumes "s \<le> length ls"
  shows "apply_loop ls ((s, n, new) # reps) = apply_loop (take s ls @ new @ drop (s + n) ls) reps"
  using assms by (simp add: remove_lines_eq insert_lines_eq)

text \<open>In descending order no insertion can be out of range, overlapping or not.\<close>

lemma apply_loop_total:
  "sorted_wrt (\<ge>) (map fst reps) \<Longrightarrow> list_all (\<lambda>r. fst r \<le> length ls) reps \<Longrightarrow> \<exists>ls'. apply_loop ls reps = Some ls'"
proof (induction reps arbitrary: ls)
  case Nil
  then show ?case by simp
next
  case (Cons r reps)
  obtain s n new where r: "r = (s, n, new)" by (cases r)
  then have s: "s \<le> length ls" using Cons.prems by simp
  have "list_all (\<lambda>r. fst r \<le> length (take s ls @ new @ drop (s + n) ls)) reps"
    using Cons.prems s by (fastforce simp: r list_all_iff)
  then show ?case using Cons.IH Cons.prems by (simp only: r apply_loop_step [OF s]) simp
qed

lemma apply_replacements_total:
  assumes "sorted (map fst reps)" "list_all (\<lambda>r. fst r \<le> length ls) reps"
  shows "\<exists>ls'. apply_replacements ls reps = Some ls'"
  unfolding apply_replacements_def
  by (rule apply_loop_total) (use assms in \<open>simp_all add: rev_map [symmetric] sorted_wrt_rev\<close>)

lemma apply_loop_rev_splice:
  "reps_wf k (length ls) reps \<Longrightarrow> apply_loop ls (rev reps) = Some (take k ls @ splice (\<lambda>x. x) k (drop k ls) reps)"
proof (induction reps arbitrary: k)
  case Nil
  then show ?case by simp
next
  case (Cons r reps)
  obtain s n new where r: "r = (s, n, new)" by (cases r)
  then have wf: "k \<le> s" "s + n \<le> length ls" "reps_wf (s + n) (length ls) reps"
    using Cons.prems by auto
  let ?tail = "splice (\<lambda>x. x) (s + n) (drop (s + n) ls) reps"
  have "apply_loop ls (rev (r # reps)) = apply_loop (take (s + n) ls @ ?tail) [(s, n, new)]"
    using Cons.IH [OF wf(3)] by (simp add: apply_loop_append r)
  also have "\<dots> = Some (take s ls @ new @ ?tail)"
    using wf by (subst apply_loop_step) (simp_all add: min_def)
  also have "take s ls = take k ls @ take (s - k) (drop k ls)"
    using wf(1) by (metis le_add_diff_inverse take_add)
  finally show ?case using wf by (simp add: r)
qed

lemma apply_replacements_splice:
  "reps_wf 0 (length ls) reps \<Longrightarrow> apply_replacements ls reps = Some (splice (\<lambda>x. x) 0 ls reps)"
  using apply_loop_rev_splice [of 0 ls reps] by (simp add: apply_replacements_def)

section \<open>Sorting\<close>

lemma insort_key_between:
  "\<forall>a\<in>set xs. f a < f x \<Longrightarrow> \<forall>b\<in>set ys. f x \<le> f b \<Longrightarrow> insort_key f x (xs @ ys) = xs @ x # ys"
  by (induction xs) (auto simp: insort_is_Cons)

lemma sort_key_two_classes:
  assumes "sorted (map f (filter P xs))" "\<forall>x\<in>set xs. if P x then f x < m else f x = m"
  shows "sort_key f xs = filter P xs @ filter (\<lambda>x. \<not> P x) xs"
  using assms
proof (induction xs)
  case Nil
  then show ?case by simp
next
  case (Cons x xs)
  then have IH: "sort_key f xs = filter P xs @ filter (\<lambda>x. \<not> P x) xs" by (auto split: if_splits)
  show ?case
  proof (cases "P x")
    case True
    then have "\<forall>y\<in>set (filter P xs @ filter (\<lambda>x. \<not> P x) xs). f x \<le> f y"
      using Cons.prems by (auto split: if_splits)
    then show ?thesis using True IH by (simp add: insort_is_Cons)
  next
    case False
    then have "f x = m" using Cons.prems by simp
    then have "insort_key f x (filter P xs @ filter (\<lambda>x. \<not> P x) xs) = filter P xs @ x # filter (\<lambda>x. \<not> P x) xs"
      using Cons.prems by (intro insort_key_between) (auto split: if_splits)
    then show ?thesis using False IH by simp
  qed
qed

section \<open>Replacements in source order\<close>

lemma reps_wf_append: "reps_wf k m xs \<Longrightarrow> reps_wf m len ys \<Longrightarrow> m \<le> len \<Longrightarrow> reps_wf k len (xs @ ys)"
proof (induction xs arbitrary: k)
  case Nil
  then show ?case by (cases ys) auto
next
  case (Cons r xs)
  then show ?case by (cases r) auto
qed

lemma reps_wf_mono: "reps_wf k m xs \<Longrightarrow> j \<le> k \<Longrightarrow> m \<le> len \<Longrightarrow> reps_wf j len xs"
proof (induction xs arbitrary: k j)
  case (Cons r xs)
  then show ?case by (cases r) fastforce
qed simp

lemma reps_wf_filter: "reps_wf k m xs \<Longrightarrow> reps_wf k m (filter P xs)"
proof (induction xs arbitrary: k)
  case (Cons r xs)
  obtain s n new where r: "r = (s, n, new)" by (cases r)
  then have "k \<le> s" "s + n \<le> m" "reps_wf (s + n) m (filter P xs)" using Cons by auto
  then show ?case by (auto simp: r elim: reps_wf_mono)
qed simp

lemma reps_wf_bounds: "reps_wf k m xs \<Longrightarrow> (s, n, new) \<in> set xs \<Longrightarrow> k \<le> s \<and> s + n \<le> m"
proof (induction xs arbitrary: k)
  case (Cons r xs)
  then show ?case by (cases r) fastforce
qed simp

lemma reps_wf_sorted: "reps_wf k m xs \<Longrightarrow> sorted (map fst xs)"
proof (induction xs arbitrary: k)
  case (Cons r xs)
  obtain s n new where r: "r = (s, n, new)" by (cases r)
  then have "reps_wf (s + n) m xs" using Cons.prems by simp
  then show ?case using Cons.IH by (fastforce simp: r dest: reps_wf_bounds)
qed simp

section \<open>The replacements of one chunk\<close>

definition ordered_indices :: "(nat \<times> nat) list \<Rightarrow> bool" where
  "ordered_indices idxs \<longleftrightarrow> sorted_wrt (\<lambda>(a, b) (a', b'). a < a' \<and> b < b') idxs"

lemma wf_chunk_ordered: "wf_chunk c \<Longrightarrow> ordered_indices (context_line_indices c)"
  by (simp add: wf_chunk_def ordered_indices_def)

lemma context_splits_wf:
  assumes "ordered_indices idxs" "\<forall>(a, b)\<in>set idxs. i \<le> a \<and> j \<le> b" "i \<le> length pat" "j \<le> length new"
  shows "\<exists>i' j' extra. context_splits s pat new idxs i j reps = Inr (i', j', reps @ extra)
    \<and> i' \<le> length pat \<and> j' \<le> length new \<and> reps_wf (s + i) (s + i') extra"
  using assms
proof (induction s pat new idxs i j reps rule: context_splits.induct)
  case (1 s pat new i j reps)
  then show ?case by simp
next
  case (2 s pat new a b idxs i j reps)
  show ?case
  proof (cases "length pat \<le> a \<or> length new \<le> b")
    case True
    with 2 show ?thesis by auto
  next
    case False
    have le: "i \<le> a" "j \<le> b" using 2 by auto
    have ord: "ordered_indices idxs" "\<forall>(a', b')\<in>set idxs. a + 1 \<le> a' \<and> b + 1 \<le> b'"
      using "2.prems"(1) by (fastforce simp: ordered_indices_def)+
    let ?seg = "(s + i, a - i, take (b - j) (drop j new))"
    show ?thesis
    proof (cases "i \<noteq> a \<or> j \<noteq> b")
      case True
      then obtain i' j' extra where extra: "context_splits s pat new idxs (a + 1) (b + 1) (reps @ [?seg])
          = Inr (i', j', (reps @ [?seg]) @ extra)" "i' \<le> length pat" "j' \<le> length new" "reps_wf (s + (a + 1)) (s + i') extra"
        using 2(1) [OF False True _ ord] False le by fastforce
      have "reps_wf (s + a) (s + i') extra" using extra(4) by (rule reps_wf_mono) simp_all
      then have "reps_wf (s + i) (s + i') (?seg # extra)" using le reps_wf_le [OF extra(4)] by simp
      then show ?thesis using extra True False le by (auto intro!: exI [of _ "?seg # extra"])
    next
      case same: False
      then obtain i' j' extra where extra: "context_splits s pat new idxs (a + 1) (b + 1) reps
          = Inr (i', j', reps @ extra)" "i' \<le> length pat" "j' \<le> length new" "reps_wf (s + (a + 1)) (s + i') extra"
        using 2(2) [OF False same ord] False by fastforce
      have "reps_wf (s + i) (s + i') extra" using extra(4) by (rule reps_wf_mono) (use le in simp_all)
      then show ?thesis using extra same False by auto
    qed
  qed
qed

lemma preserving_replacements_wf:
  assumes "ordered_indices idxs"
  shows "\<exists>extra. preserving_replacements s pat new idxs = Inr extra \<and> reps_wf s (s + length pat) extra"
proof -
  obtain i j extra where extra: "context_splits s pat new idxs 0 0 [] = Inr (i, j, extra)"
      "i \<le> length pat" "j \<le> length new" "reps_wf s (s + i) extra"
    using context_splits_wf [OF assms, of 0 0 pat new s "[]"] by auto
  let ?tail = "(s + i, length pat - i, drop j new)"
  have "reps_wf s (s + length pat) (extra @ [?tail])"
    using extra by (intro reps_wf_append) auto
  moreover have "reps_wf s (s + length pat) extra" using extra(4) by (rule reps_wf_mono) (use extra in simp_all)
  ultimately show ?thesis using extra by (auto simp: preserving_replacements_def)
qed

section \<open>The cursor\<close>

lemma seek_context_bound:
  assumes "seek_context ls path mode ctx li = Inr li'" "li \<le> length ls"
  shows "li' \<le> length ls"
  using assms any_mode.seek_bound [of ls _ _ _ mode]
  by (fastforce simp: seek_context_def split: option.splits)

lemma seek_context_forward:
  assumes "seek_context ls path PreserveLineEndings ctx li = Inr li'"
  shows "li \<le> li'"
  using assms preserve.region_after_cursor
  by (fastforce simp: seek_context_def split: option.splits)

lemma locate_chunk_bound:
  assumes "locate_chunk ls mode chunk li = (Some s, pat, new)" "li \<le> length ls"
  shows "s + length pat \<le> length ls"
  using assms any_mode.region_in_file [of ls _ _ _ mode s]
  by (auto simp: locate_chunk_def Let_def split: if_splits)

lemma locate_chunk_forward:
  assumes "locate_chunk ls PreserveLineEndings chunk li = (Some s, pat, new)"
  shows "li \<le> s"
  using assms preserve.region_after_cursor [of ls _ _ _ s]
  by (auto simp: locate_chunk_def Let_def split: if_splits)

lemma seek_context_not_panic: "seek_context ls path mode ctx li \<noteq> Inl Panic"
  by (auto simp: seek_context_def split: option.splits)

section \<open>The loop over the chunks\<close>

text \<open>
  What holds between two chunks: the insertions at the end of the file apart, the replacements so
  far lie in source order before the cursor.
\<close>

definition before_end :: "nat \<Rightarrow> replacement \<Rightarrow> bool" where
  "before_end len r \<longleftrightarrow> fst r < len"

definition loop_inv :: "nat \<Rightarrow> nat \<times> replacement list \<Rightarrow> bool" where
  "loop_inv len = (\<lambda>(li, reps). li \<le> len \<and> reps_wf 0 li (filter (before_end len) reps)
     \<and> (\<forall>r\<in>set reps. \<not> before_end len r \<longrightarrow> fst r = len \<and> fst (snd r) = 0))"

lemma loop_inv_init: "loop_inv len (0, [])"
  by (simp add: loop_inv_def)

lemma loop_inv_advance: "loop_inv len (li, reps) \<Longrightarrow> li \<le> li' \<Longrightarrow> li' \<le> len \<Longrightarrow> loop_inv len (li', reps)"
  by (auto simp: loop_inv_def elim: reps_wf_mono)

lemma loop_inv_insert: "loop_inv len (li, reps) \<Longrightarrow> loop_inv len (li, reps @ [(len, 0, new)])"
  by (auto simp: loop_inv_def before_end_def)

lemma loop_inv_extend:
  assumes "loop_inv len (li, reps)" "reps_wf li li' extra" "li' \<le> len"
  shows "loop_inv len (li', reps @ extra)"
proof -
  have "reps_wf 0 li' (filter (before_end len) reps @ filter (before_end len) extra)"
    using assms reps_wf_le [OF assms(2)]
    by (intro reps_wf_append [where m = li]) (auto simp: loop_inv_def intro: reps_wf_filter)
  then show ?thesis
    using assms reps_wf_bounds [OF assms(2)] by (fastforce simp: loop_inv_def before_end_def)
qed

lemma chunk_replacements_inv:
  assumes inv: "loop_inv (length ls) st" and wf: "wf_chunk chunk"
  shows "case chunk_replacements ls path PreserveLineEndings chunk st of
      Inl e \<Rightarrow> e \<noteq> Panic | Inr st' \<Rightarrow> loop_inv (length ls) st'"
proof -
  obtain li0 reps where st: "st = (li0, reps)" by (cases st)
  show ?thesis
  proof (cases "seek_context ls path PreserveLineEndings (change_context chunk) li0")
    case (Inl e)
    then show ?thesis using seek_context_not_panic by (fastforce simp: chunk_replacements_def st)
  next
    case (Inr li)
    have inv': "loop_inv (length ls) (li, reps)"
      using inv seek_context_bound [OF Inr] seek_context_forward [OF Inr]
      by (auto simp: st loop_inv_def intro: loop_inv_advance elim: reps_wf_mono)
    then have li: "li \<le> length ls" by (simp add: loop_inv_def)
    obtain found pat new where loc: "locate_chunk ls PreserveLineEndings chunk li = (found, pat, new)"
      by (cases "locate_chunk ls PreserveLineEndings chunk li")
    show ?thesis
    proof (cases found)
      case None
      with Inr loc inv' show ?thesis
        by (simp add: chunk_replacements_def st insertion_idx_def loop_inv_insert)
    next
      case (Some s)
      obtain extra where extra: "preserving_replacements s pat new (context_line_indices chunk) = Inr extra"
          "reps_wf s (s + length pat) extra"
        using preserving_replacements_wf [OF wf_chunk_ordered [OF wf]] by blast
      have "reps_wf li (s + length pat) extra"
        using extra(2) by (rule reps_wf_mono) (use locate_chunk_forward loc Some in simp_all)
      then have "loop_inv (length ls) (s + length pat, reps @ extra)"
        using loop_inv_extend [OF inv'] locate_chunk_bound [of ls] loc Some li by blast
      with Inr loc Some extra inv' show ?thesis
        by (simp add: chunk_replacements_def st insertion_idx_def loop_inv_insert)
    qed
  qed
qed

lemma chunks_loop_inv:
  assumes "loop_inv (length ls) st" "list_all wf_chunk chunks"
  shows "case chunks_loop ls path PreserveLineEndings chunks st of
      Inl e \<Rightarrow> e \<noteq> Panic | Inr st' \<Rightarrow> loop_inv (length ls) st'"
  using assms
proof (induction chunks arbitrary: st)
  case (Cons c cs)
  then show ?case
    using chunk_replacements_inv [OF Cons.prems(1), of c path]
    by (cases "chunk_replacements ls path PreserveLineEndings c st") auto
qed simp

lemma loop_inv_sorted:
  assumes "loop_inv len (li, reps)"
  shows "reps_wf 0 len (sort_key fst reps)"
proof -
  let ?P = "before_end len"
  have "sort_key fst reps = filter ?P reps @ filter (\<lambda>r. \<not> ?P r) reps"
    using assms by (intro sort_key_two_classes [where m = len])
      (auto simp: loop_inv_def before_end_def dest: reps_wf_sorted)
  moreover have "reps_wf li len (filter (\<lambda>r. \<not> ?P r) reps)"
  proof -
    have "\<forall>r\<in>set rs. fst r = len \<and> fst (snd r) = 0 \<Longrightarrow> li \<le> len \<Longrightarrow> reps_wf li len rs" for rs :: "replacement list" and li
      by (induction rs arbitrary: li) auto
    then show ?thesis using assms by (simp add: loop_inv_def)
  qed
  ultimately show ?thesis using assms by (auto simp: loop_inv_def intro: reps_wf_append)
qed

lemma compute_replacements_preserve:
  assumes "list_all wf_chunk chunks"
  shows "case compute_replacements ls path chunks PreserveLineEndings of
      Inl e \<Rightarrow> e \<noteq> Panic | Inr reps \<Rightarrow> reps_wf 0 (length ls) reps"
  using chunks_loop_inv [OF loop_inv_init assms, of ls path]
  by (auto simp: compute_replacements_def loop_inv_sorted split: sum.splits)

section \<open>A chunk that matches verbatim\<close>

lemma splice_skip:
  assumes "reps_wf (k + n) len reps"
  shows "splice mk k xs reps = take n xs @ splice mk (k + n) (drop n xs) reps"
proof (cases reps)
  case Nil
  then show ?thesis by simp
next
  case (Cons r rest)
  obtain s m new where r: "r = (s, m, new)" by (cases r)
  then have "k + n \<le> s" using assms Cons by simp
  then obtain d where d: "s = k + n + d" using le_Suc_ex by blast
  have "take (s - k) xs = take n xs @ take (s - (k + n)) (drop n xs)"
    using take_add [of n d xs] by (simp add: d)
  moreover have "drop (s + m - k) xs = drop (s + m - (k + n)) (drop n xs)"
    by (simp add: d add.commute add.left_commute)
  ultimately show ?thesis by (simp add: Cons r)
qed

lemma take_seg_Suc:
  assumes "j \<le> b" "b < length xs" "b < m"
  shows "take (m - j) (drop j xs) = take (b - j) (drop j xs) @ xs ! b # take (m - Suc b) (drop (Suc b) xs)"
proof -
  have "take (m - j) (drop j xs) = take ((b - j) + Suc (m - Suc b)) (drop j xs)"
    using assms by (intro arg_cong [of _ _ "\<lambda>n. take n (drop j xs)"]) simp
  also have "\<dots> = take (b - j) (drop j xs) @ take (Suc (m - Suc b)) (drop b xs)"
    using assms(1) by (simp only: take_add drop_drop) simp
  also have "drop b xs = xs ! b # drop (Suc b) xs" using assms(2) by (rule Cons_nth_drop_Suc [symmetric])
  finally show ?thesis by simp
qed

text \<open>
  Where the file has the old lines verbatim, replacing the runs between context lines has the
  same effect on the lines as replacing the whole region.
\<close>

definition agreeing_indices :: "rstr list \<Rightarrow> rstr list \<Rightarrow> (nat \<times> nat) list \<Rightarrow> bool" where
  "agreeing_indices pat new idxs \<longleftrightarrow> ordered_indices idxs
     \<and> (\<forall>(a, b)\<in>set idxs. a < length pat \<and> b < length new \<and> pat ! a = new ! b)"

lemma wf_chunk_agreeing: "wf_chunk c \<Longrightarrow> agreeing_indices (old_lines c) (new_lines c) (context_line_indices c)"
  by (auto simp: wf_chunk_def agreeing_indices_def ordered_indices_def list_all_iff)

lemma context_splits_verbatim:
  assumes "agreeing_indices pat new idxs" "\<forall>(a, b)\<in>set idxs. i \<le> a \<and> j \<le> b"
    and "i \<le> length pat" "j \<le> length new" "take (length pat) (drop s ls) = pat" "s + length pat \<le> length ls"
    and "context_splits s pat new idxs i j reps = Inr (i', j', reps @ extra)"
    and "reps_wf (s + i') (length ls) rest"
  shows "splice (\<lambda>x. x) (s + i) (drop (s + i) ls) (extra @ rest)
    = take (j' - j) (drop j new) @ splice (\<lambda>x. x) (s + i') (drop (s + i') ls) rest \<and> j \<le> j'"
  using assms
proof (induction idxs arbitrary: i j reps extra)
  case Nil
  then show ?case by simp
next
  case (Cons p idxs)
  obtain a b where p: "p = (a, b)" by (cases p)
  have le: "i \<le> a" "j \<le> b" and bd: "a < length pat" "b < length new" "pat ! a = new ! b"
    using Cons.prems(1,2) by (auto simp: p agreeing_indices_def)
  have ord: "agreeing_indices pat new idxs" "\<forall>(a', b')\<in>set idxs. a + 1 \<le> a' \<and> b + 1 \<le> b'"
    using Cons.prems(1) by (fastforce simp: p agreeing_indices_def ordered_indices_def)+
  define seg where "seg = (if i \<noteq> a \<or> j \<noteq> b then [(s + i, a - i, take (b - j) (drop j new))] else [])"
  have step: "context_splits s pat new (p # idxs) i j reps = context_splits s pat new idxs (a + 1) (b + 1) (reps @ seg)"
    using le bd by (auto simp: p seg_def)
  obtain i2 j2 tail where tail: "context_splits s pat new idxs (a + 1) (b + 1) (reps @ seg) = Inr (i2, j2, (reps @ seg) @ tail)"
      "reps_wf (s + (a + 1)) (s + i2) tail"
    using context_splits_wf [of idxs "a + 1" "b + 1" pat new s "reps @ seg"] ord bd
    by (auto simp: agreeing_indices_def)
  have eqs: "i2 = i'" "j2 = j'" "extra = seg @ tail" using Cons.prems(7) step tail(1) by auto
  let ?sp = "splice (\<lambda>x. x)"
  have IH: "?sp (s + (a + 1)) (drop (s + (a + 1)) ls) (tail @ rest)
      = take (j' - (b + 1)) (drop (b + 1) new) @ ?sp (s + i') (drop (s + i') ls) rest" "b + 1 \<le> j'"
    using Cons.IH [OF ord(1) ord(2) _ _ Cons.prems(5,6), of "reps @ seg" tail] tail(1) eqs bd Cons.prems(8)
    by auto
  have wf: "reps_wf ((s + a) + 1) (length ls) (tail @ rest)"
    using tail(2) Cons.prems(8) reps_wf_le [OF Cons.prems(8)] by (auto simp: eqs add.assoc intro: reps_wf_append)
  have "take (length pat) (drop s ls) ! a = pat ! a" by (simp only: Cons.prems(5))
  then have "drop (s + a) ls ! 0 = pat ! a" using Cons.prems(6) bd(1) by simp
  moreover have "drop (s + a) ls \<noteq> []" using Cons.prems(6) bd(1) by simp
  ultimately have hd: "take 1 (drop (s + a) ls) = [new ! b]"
    using bd(3) by (cases "drop (s + a) ls") auto
  have "?sp (s + a) (drop (s + a) ls) (tail @ rest) = new ! b # ?sp (s + (a + 1)) (drop (s + (a + 1)) ls) (tail @ rest)"
    using splice_skip [OF wf, of "\<lambda>x. x" "drop (s + a) ls"] hd by (simp add: add.commute add.left_commute)
  moreover have "?sp (s + i) (drop (s + i) ls) (extra @ rest) = take (b - j) (drop j new) @ ?sp (s + a) (drop (s + a) ls) (tail @ rest)"
    using le by (auto simp: eqs(3) seg_def add.commute)
  ultimately show ?case using IH take_seg_Suc [OF le(2) bd(2), of j'] le by simp
qed

lemma preserving_replacements_verbatim:
  assumes "agreeing_indices pat new idxs" "take (length pat) (drop s ls) = pat" "s + length pat \<le> length ls"
    and "preserving_replacements s pat new idxs = Inr reps"
  shows "splice (\<lambda>x. x) 0 ls reps = take s ls @ new @ drop (s + length pat) ls"
proof -
  let ?sp = "splice (\<lambda>x. x)"
  obtain i j extra where sp: "context_splits s pat new idxs 0 0 [] = Inr (i, j, [] @ extra)"
      "i \<le> length pat" "j \<le> length new" "reps_wf s (s + i) extra"
    using context_splits_wf [of idxs 0 0 pat new s "[]"] assms(1) by (auto simp: agreeing_indices_def)
  define tail where "tail = (if i \<noteq> length pat \<or> j \<noteq> length new
    then [(s + i, length pat - i, drop j new)] else [])"
  have reps: "reps = extra @ tail"
    using assms(4) sp by (auto simp: preserving_replacements_def tail_def split: if_splits)
  have tailwf: "reps_wf (s + i) (length ls) tail" using sp assms(3) by (simp add: tail_def)
  have "?sp s (drop s ls) reps = take j new @ ?sp (s + i) (drop (s + i) ls) tail"
    using context_splits_verbatim [OF assms(1) _ _ _ assms(2,3) sp(1) tailwf] by (simp add: reps)
  also have "?sp (s + i) (drop (s + i) ls) tail = drop j new @ drop (s + length pat) ls"
    using sp by (auto simp: tail_def add.commute)
  finally have "?sp s (drop s ls) reps = new @ drop (s + length pat) ls" by simp
  moreover have "reps_wf (0 + s) (length ls) reps"
    unfolding reps using sp(4) tailwf reps_wf_le [OF tailwf] by (auto intro: reps_wf_append)
  ultimately show ?thesis using splice_skip [of 0 s "length ls" reps "\<lambda>x. x" ls] by simp
qed


text \<open>A single chunk whose old lines occur verbatim, in either mode.\<close>

lemma single_chunk_located:
  assumes "change_context c = None" "\<not> is_end_of_file c" "old_lines c \<noteq> []"
    and "take (length (old_lines c)) (drop i ls) = old_lines c"
    and "\<forall>j<i. take (length (old_lines c)) (drop j ls) \<noteq> old_lines c"
  shows "locate_chunk ls mode c 0 = (Some i, old_lines c, new_lines c)" "i + length (old_lines c) \<le> length ls"
proof -
  have start: "search_start ls (old_lines c) 0 False mode = 0" by (simp add: search_start_def)
  then obtain k where k: "seek_sequence ls (old_lines c) 0 False mode = Some k" "k \<le> i"
      "take (length (old_lines c)) (drop k ls) = old_lines c"
    using seek_sequence_verbatim [of "old_lines c" ls 0 False mode i] assms by auto
  then have "k = i" using assms(5) by (metis le_neq_implies_less)
  then show "locate_chunk ls mode c 0 = (Some i, old_lines c, new_lines c)"
    using k assms(2) by (simp add: locate_chunk_def)
  show "i + length (old_lines c) \<le> length ls"
    using any_mode.seek_bound [OF k(1) assms(3)] \<open>k = i\<close> by simp
qed

lemma single_chunk_verbatim:
  assumes "wf_chunk c" "change_context c = None" "\<not> is_end_of_file c" "old_lines c \<noteq> []"
    and "take (length (old_lines c)) (drop i ls) = old_lines c"
    and "\<forall>j<i. take (length (old_lines c)) (drop j ls) \<noteq> old_lines c"
  shows "\<exists>reps. compute_replacements ls path [c] mode = Inr reps \<and> reps_wf 0 (length ls) reps
    \<and> splice (\<lambda>x. x) 0 ls reps = take i ls @ new_lines c @ drop (i + length (old_lines c)) ls"
proof -
  note loc = single_chunk_located [OF assms(2-6)]
  show ?thesis
  proof (cases mode)
    case NormalizeToLf
    then show ?thesis using loc assms
      by (simp add: compute_replacements_def chunk_replacements_def seek_context_def)
  next
    case PreserveLineEndings
    obtain reps where reps: "preserving_replacements i (old_lines c) (new_lines c) (context_line_indices c) = Inr reps"
        "reps_wf i (i + length (old_lines c)) reps"
      using preserving_replacements_wf [OF wf_chunk_ordered [OF assms(1)]] by blast
    have sorted: "sort_key fst reps = reps"
      using reps_wf_sorted [OF reps(2)] by (metis sort_key_stable sorted_sort_id sort_key_id_if_sorted)
    have "splice (\<lambda>x. x) 0 ls reps = take i ls @ new_lines c @ drop (i + length (old_lines c)) ls"
      by (rule preserving_replacements_verbatim [OF wf_chunk_agreeing [OF assms(1)] assms(5) loc(2) reps(1)])
    moreover have "reps_wf 0 (length ls) reps" using reps(2) by (rule reps_wf_mono) (use loc in simp_all)
    ultimately show ?thesis using loc(1) reps sorted assms PreserveLineEndings
      by (simp add: compute_replacements_def chunk_replacements_def seek_context_def)
  qed
qed

section \<open>No panic in either mode\<close>

lemma chunks_loop_normalize_inv:
  assumes "li \<le> length ls" "list_all (\<lambda>r. fst r \<le> length ls) reps"
  shows "case chunks_loop ls path NormalizeToLf chunks (li, reps) of
      Inl e \<Rightarrow> e \<noteq> Panic | Inr (li', reps') \<Rightarrow> list_all (\<lambda>r. fst r \<le> length ls) reps'"
  using assms
proof (induction chunks arbitrary: li reps)
  case (Cons c cs)
  show ?case
  proof (cases "chunk_replacements ls path NormalizeToLf c (li, reps)")
    case (Inl e)
    then have "e \<noteq> Panic"
      using seek_context_not_panic [of ls path NormalizeToLf "change_context c" li]
      by (cases "seek_context ls path NormalizeToLf (change_context c) li")
        (auto simp: chunk_replacements_def split: if_splits prod.splits option.splits)
    then show ?thesis using Inl by simp
  next
    case (Inr st)
    obtain li' reps' where st: "st = (li', reps')" by (cases st)
    have "li' \<le> length ls \<and> list_all (\<lambda>r. fst r \<le> length ls) reps'"
      using Inr Cons.prems unfolding st chunk_replacements_def
      by (auto simp: insertion_idx_def res_iffs dest!: seek_context_bound locate_chunk_bound
          split: if_splits prod.splits option.splits)
    then show ?thesis using Cons.IH Inr st by simp
  qed
qed simp

lemma normalized_contents_not_panic: "normalized_contents contents path chunks \<noteq> Inl Panic"
proof -
  let ?ls = "drop_final_empty (split_char NL contents)"
  show ?thesis
  proof (cases "chunks_loop ?ls path NormalizeToLf chunks (0, [])")
    case (Inl e)
    then show ?thesis using chunks_loop_normalize_inv [of 0 ?ls "[]" path chunks]
      by (simp add: normalized_contents_def compute_replacements_def)
  next
    case (Inr st)
    obtain li reps where st: "st = (li, reps)" by (cases st)
    have "list_all (\<lambda>r. fst r \<le> length ?ls) reps"
      using chunks_loop_normalize_inv [of 0 ?ls "[]" path chunks] Inr st by simp
    then obtain ls' where "apply_replacements ?ls (sort_key fst reps) = Some ls'"
      using apply_replacements_total [of "sort_key fst reps" ?ls] by (auto simp: list_all_iff)
    then show ?thesis using Inr st by (simp add: normalized_contents_def compute_replacements_def)
  qed
qed

lemma preserved_contents_splice:
  assumes "list_all wf_chunk chunks"
  shows "case preserved_contents contents path chunks of
      Inl e \<Rightarrow> e \<noteq> Panic \<and> compute_replacements (line_texts (parse_source contents)) path chunks PreserveLineEndings = Inl e
    | Inr result \<Rightarrow> \<exists>reps.
        compute_replacements (line_texts (parse_source contents)) path chunks PreserveLineEndings = Inr reps
        \<and> reps_wf 0 (length (file_lines (parse_source contents))) reps
        \<and> result = concat (map (line_contents \<circ> fill_ending (preferred_ending (parse_source contents)))
            (splice (inserted_line (preferred_ending (parse_source contents))) 0 (file_lines (parse_source contents)) reps))"
  using compute_replacements_preserve [OF assms, of "line_texts (parse_source contents)" path]
  by (auto simp: preserved_contents_def Let_def apply_source_replacements_splice into_contents_def
      line_texts_def o_def split: sum.splits)

definition sample_crlf :: rstr where
  "sample_crlf = lit ''a'' @ [CR, NL] @ lit ''b'' @ [NL] @ lit ''d''"

section \<open>Properties\<close>

text \<open>
  C5. In the mode that preserves line endings, updating a file with well-formed chunks never
  panics, and its result is the source file with the computed replacements spliced in: they are
  in source order, do not overlap and lie in the file, every line outside them keeps its text and
  its own ending, and only inserted lines and an unterminated last line get the preferred one.
\<close>

theorem preserved_contents_refines:
  assumes "list_all wf_chunk chunks"
  shows "case preserved_contents contents path chunks of
      Inl e \<Rightarrow> e \<noteq> Panic \<and> compute_replacements (line_texts (parse_source contents)) path chunks PreserveLineEndings = Inl e
    | Inr result \<Rightarrow> \<exists>reps.
        compute_replacements (line_texts (parse_source contents)) path chunks PreserveLineEndings = Inr reps
        \<and> reps_wf 0 (length (file_lines (parse_source contents))) reps
        \<and> result = concat (map (line_contents \<circ> fill_ending (preferred_ending (parse_source contents)))
            (splice (inserted_line (preferred_ending (parse_source contents))) 0 (file_lines (parse_source contents)) reps))"
  using assms by (rule preserved_contents_splice)

theorem preserved_contents_refines_witness:
  "\<exists>reps. reps_wf 0 (length (file_lines (parse_source sample_crlf))) reps
     \<and> lit ''a'' @ [CR, NL] @ lit ''c'' @ [CR, NL] @ lit ''d'' @ [CR, NL]
       = concat (map (line_contents \<circ> fill_ending (preferred_ending (parse_source sample_crlf)))
            (splice (inserted_line (preferred_ending (parse_source sample_crlf))) 0 (file_lines (parse_source sample_crlf)) reps))"
proof -
  have "list_all wf_chunk [sample_chunk]" by code_simp
  moreover have "preserved_contents sample_crlf (lit ''f'') [sample_chunk]
      = Inr (lit ''a'' @ [CR, NL] @ lit ''c'' @ [CR, NL] @ lit ''d'' @ [CR, NL])" by code_simp
  ultimately show ?thesis using preserved_contents_refines [of "[sample_chunk]" sample_crlf "lit ''f''"] by auto
qed

text \<open>
  A chunk whose old lines occur verbatim in the file is applied at their first occurrence,
  and there the old lines become the new ones while every other line stays. Both modes agree,
  although one replaces the whole region and the other only the runs between context lines.
\<close>

lemma compute_replacements_verbatim:
  assumes "wf_chunk c" "change_context c = None" "\<not> is_end_of_file c" "old_lines c \<noteq> []"
    and "take (length (old_lines c)) (drop i ls) = old_lines c"
    and "\<forall>j<i. take (length (old_lines c)) (drop j ls) \<noteq> old_lines c"
  shows "\<exists>reps. compute_replacements ls path [c] mode = Inr reps \<and> reps_wf 0 (length ls) reps
    \<and> splice (\<lambda>x. x) 0 ls reps = take i ls @ new_lines c @ drop (i + length (old_lines c)) ls"
  using assms by (rule single_chunk_verbatim)

end
