(* ===== verification/Executor_Files.thy ===== *)
theory Executor_Files
  imports File_Update Absolute_Path
begin

text \<open>
  Model of the file system interface \<open>ExecutorFileSystem\<close> (\<open>engine/file-system/src/lib.rs\<close>) as far as
  patches use it, and of its direct implementation \<open>DirectFileSystem\<close>
  (\<open>engine/exec-server/src/local_file_system.rs\<close>).

  A trait object is a record of functions over a state; an operation that may write returns the new
  state also when it fails. The locale \<open>text_files\<close> is what the clients rely on. The direct
  implementation calls the operating system, whose state is a finite tree without symbolic links:
  each absolute path has a text, bytes that are not UTF-8, or a directory. Faults of the operating
  system (no space, no permission) are the functions of \<open>os_faults\<close>; a failed write or removal may
  leave anything at its own path. The operations with \<open>follow_symlinks\<close> off belong to the
  platform module \<open>no_follow\<close>, which is a parameter.
\<close>

section \<open>The interface\<close>

record file_metadata =
  is_directory :: bool
  is_file :: bool
  is_symlink :: bool
  metadata_size :: nat

text \<open>The Boolean arguments are the options in the order \<open>recursive\<close>, \<open>force\<close>, \<open>follow_symlinks\<close>.\<close>

record ('s, 'u) executor_fs =
  read_file_text :: "'u \<Rightarrow> bool \<Rightarrow> 's \<Rightarrow> io_error_kind + rstr"
  write_file :: "'u \<Rightarrow> rstr \<Rightarrow> bool \<Rightarrow> 's \<Rightarrow> 's \<times> (io_error_kind + unit)"
  create_directory :: "'u \<Rightarrow> bool \<Rightarrow> bool \<Rightarrow> 's \<Rightarrow> 's \<times> (io_error_kind + unit)"
  get_metadata :: "'u \<Rightarrow> bool \<Rightarrow> 's \<Rightarrow> io_error_kind + file_metadata"
  remove :: "'u \<Rightarrow> bool \<Rightarrow> bool \<Rightarrow> bool \<Rightarrow> 's \<Rightarrow> 's \<times> (io_error_kind + unit)"

text \<open>
  The contract, for the states that satisfy \<open>inv\<close>: \<open>files s\<close> gives the text files of a state. What is
  read is there; a write that succeeds changes the one file, and one that fails because the parent
  is missing changes none; directories are created without touching files; and the removal of a
  file touches only that file.
\<close>

locale text_files =
  fixes fs :: "('s, 'u) executor_fs"
    and files :: "'s \<Rightarrow> 'u \<Rightarrow> rstr option"
    and inv :: "'s \<Rightarrow> bool"
    and follow :: bool
  assumes read_Ok: "inv s \<Longrightarrow> read_file_text fs u follow s = Inr c \<Longrightarrow> files s u = Some c"
    and read_NotFound: "inv s \<Longrightarrow> read_file_text fs u follow s = Inl NotFound \<Longrightarrow> files s u = None"
    and write_Ok: "inv s \<Longrightarrow> write_file fs u c follow s = (s', Inr ()) \<Longrightarrow> files s' = (files s)(u \<mapsto> c)"
    and write_NotFound: "inv s \<Longrightarrow> write_file fs u c follow s = (s', Inl NotFound) \<Longrightarrow> files s' = files s"
    and create_files: "inv s \<Longrightarrow> create_directory fs u recursive follow s = (s', r) \<Longrightarrow> files s' = files s"
    and remove_Ok: "inv s \<Longrightarrow> remove fs u False False follow s = (s', Inr ()) \<Longrightarrow> files s u = Some c
      \<Longrightarrow> files s' = (files s)(u := None)"
    and remove_frame: "inv s \<Longrightarrow> remove fs u False False follow s = (s', r) \<Longrightarrow> files s u = Some c \<Longrightarrow> v \<noteq> u
      \<Longrightarrow> files s' v = files s v"
    and write_inv: "inv s \<Longrightarrow> write_file fs u c follow s = (s', r) \<Longrightarrow> inv s'"
    and create_inv: "inv s \<Longrightarrow> create_directory fs u recursive follow s = (s', r) \<Longrightarrow> inv s'"
    and remove_inv: "inv s \<Longrightarrow> remove fs u recursive force follow s = (s', r) \<Longrightarrow> inv s'"

section \<open>The operating system\<close>

datatype os_node = TextNode rstr | BytesNode nat | DirNode

type_synonym os = "(path \<times> os_node) list"

definition os_set :: "path \<Rightarrow> os_node \<Rightarrow> os \<Rightarrow> os" where
  "os_set p n s = (p, n) # filter (\<lambda>e. fst e \<noteq> p) s"

definition os_del :: "path \<Rightarrow> os \<Rightarrow> os" where
  "os_del p s = filter (\<lambda>e. fst e \<noteq> p) s"

definition os_leave :: "path \<Rightarrow> os_node option \<Rightarrow> os \<Rightarrow> os" where
  "os_leave p left s = (case left of None \<Rightarrow> os_del p s | Some n \<Rightarrow> os_set p n s)"

record os_faults =
  fault_read :: "os \<Rightarrow> path \<Rightarrow> rstr option"
  fault_write :: "os \<Rightarrow> path \<Rightarrow> (rstr \<times> os_node option) option"
  fault_create :: "os \<Rightarrow> path \<Rightarrow> rstr option"
  fault_remove :: "os \<Rightarrow> path \<Rightarrow> (rstr \<times> os_node option) option"

text \<open>The first prefix of a path that is not a directory decides how its resolution fails.\<close>

definition os_resolve :: "os \<Rightarrow> path \<Rightarrow> io_error_kind + unit" where
  "os_resolve s p =
     (case find (\<lambda>n. map_of s (take n p) \<noteq> Some DirNode) [1..<length p] of
        None \<Rightarrow> Inr ()
      | Some n \<Rightarrow>
        (case map_of s (take n p) of
           None \<Rightarrow> Inl NotFound
         | Some _ \<Rightarrow> Inl (OtherKind (lit ''Not a directory''))))"

text \<open>\<open>open\<close> for reading and \<open>metadata\<close>: the node at the path.\<close>

definition os_stat :: "os_faults \<Rightarrow> os \<Rightarrow> path \<Rightarrow> io_error_kind + os_node" where
  "os_stat f s p =
     (case fault_read f s p of
        Some e \<Rightarrow> Inl (OtherKind e)
      | None \<Rightarrow> res_bind (os_resolve s p) (\<lambda>_.
          case map_of s p of None \<Rightarrow> Inl NotFound | Some n \<Rightarrow> Inr n))"

definition os_write :: "os_faults \<Rightarrow> path \<Rightarrow> rstr \<Rightarrow> os \<Rightarrow> os \<times> (io_error_kind + unit)" where
  "os_write f p c s =
     (case os_resolve s p of
        Inl e \<Rightarrow> (s, Inl e)
      | Inr _ \<Rightarrow>
        if map_of s p = Some DirNode then (s, Inl (OtherKind (lit ''Is a directory'')))
        else case fault_write f s p of
          Some (e, left) \<Rightarrow> (os_leave p left s, Inl (OtherKind e))
        | None \<Rightarrow> (os_set p (TextNode c) s, Inr ()))"

fun os_make_dirs :: "path list \<Rightarrow> os \<Rightarrow> os \<times> (io_error_kind + unit)" where
  "os_make_dirs [] s = (s, Inr ())"
| "os_make_dirs (q # qs) s =
     (case map_of s q of
        None \<Rightarrow> os_make_dirs qs (os_set q DirNode s)
      | Some DirNode \<Rightarrow> os_make_dirs qs s
      | Some _ \<Rightarrow> (s, Inl (OtherKind (lit ''Not a directory''))))"

definition os_create_dir_all :: "os_faults \<Rightarrow> path \<Rightarrow> os \<Rightarrow> os \<times> (io_error_kind + unit)" where
  "os_create_dir_all f p s =
     (case fault_create f s p of
        Some e \<Rightarrow> (s, Inl (OtherKind e))
      | None \<Rightarrow> os_make_dirs (map (\<lambda>n. take n p) [1..<Suc (length p)]) s)"

definition os_create_dir :: "os_faults \<Rightarrow> path \<Rightarrow> os \<Rightarrow> os \<times> (io_error_kind + unit)" where
  "os_create_dir f p s =
     (case fault_create f s p of
        Some e \<Rightarrow> (s, Inl (OtherKind e))
      | None \<Rightarrow>
        (case os_resolve s p of
           Inl e \<Rightarrow> (s, Inl e)
         | Inr _ \<Rightarrow>
           if map_of s p \<noteq> None then (s, Inl (OtherKind (lit ''File exists'')))
           else (os_set p DirNode s, Inr ())))"

definition os_below :: "path \<Rightarrow> path \<Rightarrow> bool" where
  "os_below p q \<longleftrightarrow> length p < length q \<and> take (length p) q = p"

definition os_remove_node :: "os_faults \<Rightarrow> path \<Rightarrow> (os \<Rightarrow> os) \<Rightarrow> os \<Rightarrow> os \<times> (io_error_kind + unit)" where
  "os_remove_node f p act s =
     (case fault_remove f s p of
        Some (e, left) \<Rightarrow> (os_leave p left s, Inl (OtherKind e))
      | None \<Rightarrow> (act s, Inr ()))"

definition os_remove_dir :: "os_faults \<Rightarrow> path \<Rightarrow> os \<Rightarrow> os \<times> (io_error_kind + unit)" where
  "os_remove_dir f p s =
     (if list_ex (\<lambda>e. os_below p (fst e)) s then (s, Inl (OtherKind (lit ''Directory not empty'')))
      else os_remove_node f p (os_del p) s)"

definition os_remove_dir_all :: "os_faults \<Rightarrow> path \<Rightarrow> os \<Rightarrow> os \<times> (io_error_kind + unit)" where
  "os_remove_dir_all f p s =
     (case fault_remove f s p of
        Some (e, _) \<Rightarrow> (s, Inl (OtherKind e))
      | None \<Rightarrow> (filter (\<lambda>e. fst e \<noteq> p \<and> \<not> os_below p (fst e)) s, Inr ()))"

section \<open>The direct file system\<close>

definition MAX_READ_FILE_BYTES :: nat where
  "MAX_READ_FILE_BYTES = 512 * 1024 * 1024"

definition file_too_large_error :: io_error_kind where
  "file_too_large_error = OtherKind (lit ''file is too large to read: limit is 536870912 bytes'')"

definition utf8_len :: "rstr \<Rightarrow> nat" where
  "utf8_len s = sum_list (map (\<lambda>c. if c < 128 then 1 else if c < 2048 then 2 else if c < 65536 then 3 else 4) s)"

fun node_len :: "os_node \<Rightarrow> nat" where
  "node_len (TextNode t) = utf8_len t"
| "node_len (BytesNode n) = n"
| "node_len DirNode = 0"

text \<open>A URI that has a path on the host is identified with that path.\<close>

definition to_abs_path :: "path \<Rightarrow> io_error_kind + path" where
  "to_abs_path p = (if is_absolute p then Inr p else Inl (OtherKind (lit ''invalid path'')))"

definition open_file_for_read :: "os_faults \<Rightarrow> path \<Rightarrow> os \<Rightarrow> io_error_kind + os_node" where
  "open_file_for_read f u s =
     res_bind (to_abs_path u) (\<lambda>p.
     res_bind (os_stat f s p) (\<lambda>n.
       if n = DirNode then Inl (OtherKind (lit ''path `'' @ path_string p @ lit ''` is not a file'')) else Inr n))"

text \<open>\<open>read_file\<close> and then \<open>String::from_utf8\<close>, as the interface's \<open>read_file_text\<close> does.\<close>

definition direct_read_file :: "os_faults \<Rightarrow> path \<Rightarrow> os \<Rightarrow> io_error_kind + os_node" where
  "direct_read_file f u s =
     res_bind (open_file_for_read f u s) (\<lambda>n.
       if MAX_READ_FILE_BYTES < node_len n then Inl file_too_large_error else Inr n)"

definition direct_read_file_text ::
    "(os, path) executor_fs \<Rightarrow> os_faults \<Rightarrow> path \<Rightarrow> bool \<Rightarrow> os \<Rightarrow> io_error_kind + rstr" where
  "direct_read_file_text no_follow f u follow s =
     (if follow then
        res_bind (direct_read_file f u s) (\<lambda>n.
          case n of TextNode t \<Rightarrow> Inr t | _ \<Rightarrow> Inl (OtherKind (lit ''invalid utf-8'')))
      else read_file_text no_follow u follow s)"

definition direct_write_file ::
    "(os, path) executor_fs \<Rightarrow> os_faults \<Rightarrow> path \<Rightarrow> rstr \<Rightarrow> bool \<Rightarrow> os \<Rightarrow> os \<times> (io_error_kind + unit)" where
  "direct_write_file no_follow f u c follow s =
     (case to_abs_path u of
        Inl e \<Rightarrow> (s, Inl e)
      | Inr p \<Rightarrow> if follow then os_write f p c s else write_file no_follow p c follow s)"

definition direct_create_directory ::
    "(os, path) executor_fs \<Rightarrow> os_faults \<Rightarrow> path \<Rightarrow> bool \<Rightarrow> bool \<Rightarrow> os \<Rightarrow> os \<times> (io_error_kind + unit)" where
  "direct_create_directory no_follow f u recursive follow s =
     (case to_abs_path u of
        Inl e \<Rightarrow> (s, Inl e)
      | Inr p \<Rightarrow>
        if \<not> follow then create_directory no_follow p recursive follow s
        else if recursive then os_create_dir_all f p s
        else os_create_dir f p s)"

definition node_metadata :: "os_node \<Rightarrow> file_metadata" where
  "node_metadata n = \<lparr>is_directory = (n = DirNode), is_file = (n \<noteq> DirNode), is_symlink = False,
     metadata_size = node_len n\<rparr>"

definition direct_get_metadata ::
    "(os, path) executor_fs \<Rightarrow> os_faults \<Rightarrow> path \<Rightarrow> bool \<Rightarrow> os \<Rightarrow> io_error_kind + file_metadata" where
  "direct_get_metadata no_follow f u follow s =
     res_bind (to_abs_path u) (\<lambda>p.
       if \<not> follow then get_metadata no_follow p follow s
       else res_bind (os_stat f s p) (\<lambda>n. Inr (node_metadata n)))"

definition direct_remove ::
    "(os, path) executor_fs \<Rightarrow> os_faults \<Rightarrow> path \<Rightarrow> bool \<Rightarrow> bool \<Rightarrow> bool \<Rightarrow> os \<Rightarrow> os \<times> (io_error_kind + unit)" where
  "direct_remove no_follow f u recursive force follow s =
     (case to_abs_path u of
        Inl e \<Rightarrow> (s, Inl e)
      | Inr p \<Rightarrow>
        if \<not> follow then remove no_follow p recursive force follow s
        else case os_stat f s p of
          Inr DirNode \<Rightarrow> if recursive then os_remove_dir_all f p s else os_remove_dir f p s
        | Inr _ \<Rightarrow> os_remove_node f p (os_del p) s
        | Inl NotFound \<Rightarrow> if force then (s, Inr ()) else (s, Inl NotFound)
        | Inl e \<Rightarrow> (s, Inl e))"

definition direct_fs :: "(os, path) executor_fs \<Rightarrow> os_faults \<Rightarrow> (os, path) executor_fs" where
  "direct_fs no_follow f = \<lparr>read_file_text = direct_read_file_text no_follow f,
     write_file = direct_write_file no_follow f, create_directory = direct_create_directory no_follow f,
     get_metadata = direct_get_metadata no_follow f, remove = direct_remove no_follow f\<rparr>"

section \<open>The direct file system keeps the contract\<close>

definition os_files :: "os \<Rightarrow> path \<Rightarrow> rstr option" where
  "os_files s p = (case map_of s p of Some (TextNode t) \<Rightarrow> Some t | _ \<Rightarrow> None)"

lemma map_of_filter_key: "map_of (filter (\<lambda>e. fst e \<noteq> p) s) q = (if q = p then None else map_of s q)"
  by (induction s) auto

lemma os_files_set: "os_files (os_set p n s) = (os_files s)(p := (case n of TextNode t \<Rightarrow> Some t | _ \<Rightarrow> None))"
  by (auto simp: os_files_def os_set_def map_of_filter_key)

lemma os_files_del: "os_files (os_del p s) = (os_files s)(p := None)"
  by (auto simp: os_files_def os_del_def map_of_filter_key)

lemma os_files_leave: "q \<noteq> p \<Longrightarrow> os_files (os_leave p left s) q = os_files s q"
  by (simp add: os_leave_def os_files_set os_files_del split: option.split)

lemma os_files_new_dir: "map_of s p = None \<Longrightarrow> os_files (os_set p DirNode s) = os_files s"
  by (auto simp: os_files_set os_files_def)

lemma os_make_dirs_files: "os_make_dirs qs s = (s', r) \<Longrightarrow> os_files s' = os_files s"
  by (induction qs s rule: os_make_dirs.induct) (auto simp: os_files_new_dir split: option.splits os_node.splits)

lemma os_remove_node_frame: "os_remove_node f p (os_del p) s = (s', r) \<Longrightarrow> q \<noteq> p \<Longrightarrow> os_files s' q = os_files s q"
  by (auto simp: os_remove_node_def os_files_leave os_files_del split: option.splits prod.splits)

lemma os_remove_node_Ok: "os_remove_node f p act s = (s', Inr u) \<Longrightarrow> s' = act s"
  by (auto simp: os_remove_node_def split: option.splits prod.splits)

lemma os_stat_Inr: "os_stat f s p = Inr n \<Longrightarrow> map_of s p = Some n"
  by (auto simp: os_stat_def res_iffs split: option.splits)

text \<open>The tree: whatever has a node stands in directories.\<close>

definition os_inv :: "os \<Rightarrow> bool" where
  "os_inv s \<longleftrightarrow> (\<forall>p n. map_of s p \<noteq> None \<longrightarrow> 1 \<le> n \<longrightarrow> n < length p \<longrightarrow> map_of s (take n p) = Some DirNode)"

lemma os_resolve_Ok: "os_resolve s p = Inr u \<longleftrightarrow> (\<forall>n. 1 \<le> n \<longrightarrow> n < length p \<longrightarrow> map_of s (take n p) = Some DirNode)"
proof (cases "find (\<lambda>n. map_of s (take n p) \<noteq> Some DirNode) [1..<length p]")
  case None
  then have "os_resolve s p = Inr u" by (simp add: os_resolve_def)
  moreover have "\<forall>n \<in> set [1..<length p]. map_of s (take n p) = Some DirNode" using None by (simp add: find_None_iff)
  ultimately show ?thesis by auto
next
  case (Some n)
  then have "n \<in> set [1..<length p]" "map_of s (take n p) \<noteq> Some DirNode" by (auto simp: find_Some_iff nth_mem)
  moreover have "os_resolve s p \<noteq> Inr u" using Some by (simp add: os_resolve_def split: option.splits)
  ultimately show ?thesis by auto
qed

lemma os_resolve_present: "os_inv s \<Longrightarrow> map_of s p \<noteq> None \<Longrightarrow> os_resolve s p = Inr ()"
  by (simp add: os_resolve_Ok os_inv_def)

text \<open>A leaf is a path that is no proper prefix of a path with a node.\<close>

lemma os_inv_leaf:
  assumes "os_inv s" "os_resolve s p = Inr u" "map_of s' = (map_of s)(p := n)"
    and "\<And>q. map_of s q \<noteq> None \<Longrightarrow> \<not> os_below p q"
  shows "os_inv s'"
proof -
  have "map_of s' (take k q) = Some DirNode" if q: "map_of s' q \<noteq> None" "1 \<le> k" "k < length q" for q k
  proof (cases "q = p")
    case True
    then have "map_of s (take k q) = Some DirNode" using assms(2) q by (simp add: os_resolve_Ok)
    moreover have "take k q \<noteq> p" using True q(3) by (metis length_take min.absorb4 nat_neq_iff)
    ultimately show ?thesis by (simp add: assms(3))
  next
    case False
    then have "map_of s q \<noteq> None" using q(1) by (simp add: assms(3))
    moreover from this have "\<not> os_below p q" by (rule assms(4))
    then have "take k q \<noteq> p" using q(3) by (auto simp: os_below_def)
    ultimately show ?thesis using assms(1) q by (simp add: assms(3) os_inv_def)
  qed
  then show ?thesis by (simp add: os_inv_def)
qed

lemma not_dir_leaf: "os_inv s \<Longrightarrow> p \<noteq> [] \<Longrightarrow> map_of s p \<noteq> Some DirNode \<Longrightarrow> map_of s q \<noteq> None \<Longrightarrow> \<not> os_below p q"
  unfolding os_inv_def os_below_def by (metis One_nat_def Suc_leI length_greater_0_conv)

lemma map_of_os_set: "map_of (os_set p n s) = (map_of s)(p \<mapsto> n)"
  by (auto simp: os_set_def map_of_filter_key)

lemma map_of_os_del: "map_of (os_del p s) = (map_of s)(p := None)"
  by (auto simp: os_del_def map_of_filter_key)

lemma map_of_os_leave: "map_of (os_leave p left s) = (map_of s)(p := left)"
  by (simp add: os_leave_def map_of_os_set map_of_os_del split: option.split)

lemma os_write_inv: "os_inv s \<Longrightarrow> p \<noteq> [] \<Longrightarrow> os_write f p c s = (s', r) \<Longrightarrow> os_inv s'"
  using not_dir_leaf [of s p]
  by (auto simp: os_write_def map_of_os_set map_of_os_leave split: sum.splits if_splits option.splits
      intro: os_inv_leaf [of s p])

lemma os_make_dirs_inv:
  assumes "os_inv s" "1 \<le> m" "m \<le> Suc (length p)" "\<And>k. 1 \<le> k \<Longrightarrow> k < m \<Longrightarrow> map_of s (take k p) = Some DirNode"
    and "os_make_dirs (map (\<lambda>n. take n p) [m..<Suc (length p)]) s = (s', r)"
  shows "os_inv s'"
  using assms
proof (induction "Suc (length p) - m" arbitrary: m s)
  case 0
  then show ?case by simp
next
  case (Suc d)
  let ?q = "take m p"
  have m: "m \<le> length p" using Suc.hyps(2) by simp
  then have upt: "[m..<Suc (length p)] = m # [Suc m..<Suc (length p)]" by (simp add: upt_conv_Cons del: upt_Suc)
  have res: "os_resolve s ?q = Inr ()" using Suc.prems(4) m by (simp add: os_resolve_Ok min_def)
  have step: "os_inv s'" if "os_inv t" "map_of t = (map_of s)(?q \<mapsto> DirNode)"
    "os_make_dirs (map (\<lambda>n. take n p) [Suc m..<Suc (length p)]) t = (s', r)" for t
  proof (rule Suc.hyps(1) [of "Suc m" t])
    show "map_of t (take k p) = Some DirNode" if "1 \<le> k" "k < Suc m" for k
      using that Suc.prems(4) [of k] \<open>map_of t = _\<close> by (cases "k = m") auto
  qed (use that m Suc.hyps(2) in simp_all)
  show ?case
  proof (cases "map_of s ?q")
    case None
    have "os_inv (os_set ?q DirNode s)"
    proof (rule os_inv_leaf [OF Suc.prems(1) res map_of_os_set])
      show "\<not> os_below ?q q" if "map_of s q \<noteq> None" for q
        using Suc.prems(2) m None by (intro not_dir_leaf [OF Suc.prems(1) _ _ that]) auto
    qed
    then show ?thesis using None Suc.prems(5) step [of "os_set ?q DirNode s"] by (simp add: upt map_of_os_set del: upt_Suc)
  next
    case (Some n)
    then show ?thesis
      using Suc.prems(1,5) step [of s] fun_upd_triv [of "map_of s" ?q] by (cases n) (simp_all add: upt del: upt_Suc fun_upd_triv)
  qed
qed

lemma os_create_dir_inv: "os_inv s \<Longrightarrow> p \<noteq> [] \<Longrightarrow> os_create_dir f p s = (s', r) \<Longrightarrow> os_inv s'"
  using not_dir_leaf [of s p]
  by (auto simp: os_create_dir_def map_of_os_set split: sum.splits if_splits option.splits intro: os_inv_leaf [of s p])

lemma os_remove_node_inv:
  assumes "os_inv s" "map_of s p \<noteq> None" "\<And>q. map_of s q \<noteq> None \<Longrightarrow> \<not> os_below p q"
    and "os_remove_node f p (os_del p) s = (s', r)"
  shows "os_inv s'"
  using assms(4) os_inv_leaf [OF assms(1) os_resolve_present [OF assms(1,2)] _ assms(3)]
  by (auto simp: os_remove_node_def map_of_os_leave map_of_os_del split: option.splits)

lemma os_remove_dir_inv:
  assumes "os_inv s" "map_of s p \<noteq> None" "os_remove_dir f p s = (s', r)"
  shows "os_inv s'"
proof (cases "list_ex (\<lambda>e. os_below p (fst e)) s")
  case False
  then have "\<not> os_below p q" if "map_of s q \<noteq> None" for q
    using that by (auto simp: list_ex_iff dest!: map_of_SomeD)
  then show ?thesis using assms False os_remove_node_inv [OF assms(1,2)] by (simp add: os_remove_dir_def)
qed (use assms in \<open>simp add: os_remove_dir_def\<close>)

lemma map_of_filter_tree: "map_of (filter (\<lambda>e. P (fst e)) s) q = (if P q then map_of s q else None)"
  by (induction s) auto

lemma os_remove_dir_all_inv:
  assumes "os_inv s" "os_remove_dir_all f p s = (s', r)"
  shows "os_inv s'"
proof -
  let ?keep = "\<lambda>q. q \<noteq> p \<and> \<not> os_below p q"
  have keep: "?keep (take n q)" if "?keep q" "n < length q" for q n
    using that by (auto simp: os_below_def min_def split: if_splits)
  have "os_inv (filter (\<lambda>e. ?keep (fst e)) s)"
    using assms(1) keep by (auto simp: os_inv_def map_of_filter_tree [of ?keep] simp del: not_None_eq split: if_splits)
  then show ?thesis using assms by (auto simp: os_remove_dir_all_def split: option.splits)
qed

lemma to_abs_path_Inr: "to_abs_path u = Inr p \<longleftrightarrow> p = u \<and> is_absolute u"
  by (auto simp: to_abs_path_def)

lemma absolute_nonempty: "is_absolute u \<Longrightarrow> u \<noteq> []"
  by (simp add: is_absolute_def)

lemma to_abs_path_Inl: "to_abs_path u = Inl e \<Longrightarrow> e \<noteq> NotFound"
  by (auto simp: to_abs_path_def split: if_splits)

lemma os_stat_NotFound:
  assumes "os_inv s" "os_stat f s p = Inl NotFound"
  shows "map_of s p = None"
proof (rule ccontr)
  assume present: "map_of s p \<noteq> None"
  with assms os_resolve_present [OF assms(1) present] show False
    by (auto simp: os_stat_def split: option.splits)
qed

lemma direct_read_Ok: "direct_read_file_text nf f u True s = Inr c \<Longrightarrow> os_files s u = Some c"
  by (auto simp: direct_read_file_text_def direct_read_file_def open_file_for_read_def res_iffs to_abs_path_Inr
      os_files_def dest!: os_stat_Inr split: if_splits os_node.splits)

lemma direct_read_NotFound: "os_inv s \<Longrightarrow> direct_read_file_text nf f u True s = Inl NotFound \<Longrightarrow> os_files s u = None"
  by (auto simp: direct_read_file_text_def direct_read_file_def open_file_for_read_def res_iffs to_abs_path_Inr
      os_files_def file_too_large_error_def dest: to_abs_path_Inl dest!: os_stat_NotFound split: if_splits os_node.splits)

lemma direct_write:
  assumes "direct_write_file nf f u c True s = (s', r)"
  shows "r = Inr () \<Longrightarrow> os_files s' = (os_files s)(u \<mapsto> c)"
    "r = Inl NotFound \<Longrightarrow> os_files s' = os_files s"
    "os_inv s \<Longrightarrow> os_inv s'"
  using assms os_write_inv [of s u f c s' r] absolute_nonempty [of u]
  by (auto simp: direct_write_file_def os_write_def to_abs_path_Inr os_files_set
      split: sum.splits if_splits option.splits)

lemma direct_create:
  assumes "direct_create_directory nf f u recursive True s = (s', r)"
  shows "os_files s' = os_files s" "os_inv s \<Longrightarrow> os_inv s'"
proof -
  have cases: "s' = s \<or> is_absolute u \<and> os_create_dir_all f u s = (s', r) \<or> is_absolute u \<and> os_create_dir f u s = (s', r)"
    using assms by (auto simp: direct_create_directory_def to_abs_path_Inr split: sum.splits if_splits)
  then show "os_files s' = os_files s"
    by (auto simp: os_create_dir_all_def os_create_dir_def os_files_new_dir
        split: option.splits sum.splits if_splits dest: os_make_dirs_files)
  assume inv: "os_inv s"
  have "os_inv s'" if "os_create_dir_all f u s = (s', r)"
    using that os_make_dirs_inv [OF inv, of 1 u] inv by (auto simp: os_create_dir_all_def simp del: upt_Suc split: option.splits)
  with inv show "os_inv s'" using cases os_create_dir_inv absolute_nonempty by blast
qed

lemma direct_remove_file:
  assumes "os_inv s" "direct_remove nf f u False False True s = (s', r)" "os_files s u = Some c"
  shows "s' = s \<and> r \<noteq> Inr () \<or> os_remove_node f u (os_del u) s = (s', r)"
proof -
  have node: "map_of s u = Some (TextNode c)" using assms(3) by (auto simp: os_files_def split: option.splits os_node.splits)
  show ?thesis
    using assms(2) node os_stat_NotFound [OF assms(1), of f u] os_stat_Inr [of f s u]
    by (auto simp: direct_remove_def to_abs_path_Inr split: sum.splits if_splits os_node.splits io_error_kind.splits)
qed

lemma direct_remove_inv:
  assumes "os_inv s" "direct_remove nf f u recursive force True s = (s', r)"
  shows "os_inv s'"
proof -
  have leaf: "os_inv s'" if "is_absolute u" "map_of s u = Some n" "n \<noteq> DirNode" "os_remove_node f u (os_del u) s = (s', r)" for n
    using os_remove_node_inv [OF assms(1) _ not_dir_leaf [OF assms(1) absolute_nonempty [OF that(1)]] that(4)] that(2,3) by simp
  show ?thesis
    using assms
    by (auto simp: direct_remove_def to_abs_path_Inr split: sum.splits if_splits os_node.splits io_error_kind.splits
        intro: os_remove_dir_inv [OF assms(1)] os_remove_dir_all_inv [OF assms(1)] leaf dest!: os_stat_Inr)
qed

lemma direct_fs_sel:
  "read_file_text (direct_fs nf f) = direct_read_file_text nf f" "write_file (direct_fs nf f) = direct_write_file nf f"
  "create_directory (direct_fs nf f) = direct_create_directory nf f" "remove (direct_fs nf f) = direct_remove nf f"
  "get_metadata (direct_fs nf f) = direct_get_metadata nf f"
  by (simp_all add: direct_fs_def)

lemma direct_remove_Ok:
  assumes "os_inv s" "direct_remove nf f u False False True s = (s', Inr ())" "os_files s u = Some c"
  shows "os_files s' = (os_files s)(u := None)"
  using direct_remove_file [OF assms] os_remove_node_Ok [of f u "os_del u" s s'] by (auto simp: os_files_del)

lemma direct_remove_frame:
  assumes "os_inv s" "direct_remove nf f u False False True s = (s', r)" "os_files s u = Some c" "v \<noteq> u"
  shows "os_files s' v = os_files s v"
  using direct_remove_file [OF assms(1-3)] os_remove_node_frame [OF _ assms(4)] by auto

interpretation direct: text_files "direct_fs nf f" os_files os_inv True for nf f
  by (rule text_files.intro; unfold direct_fs_sel)
    (assumption | rule refl direct_read_Ok direct_read_NotFound direct_write direct_create direct_remove_Ok
      direct_remove_frame direct_remove_inv)+

end
