(* ===== verification/Apply_Patch.thy ===== *)
theory Apply_Patch
  imports Executor_Files
begin

text \<open>
  Model of \<open>engine/apply-patch/src/lib.rs\<close> and \<open>invocation.rs\<close>: applying the hunks of a patch to a
  file system, the record of what was changed, and the verification of a patch before it is applied.

  The functions take the file system as a record of operations over its state, and the operations
  of \<open>PathUri\<close> as a record \<open>uri_ops\<close>: its convention, joining path text, the parent, and the
  native spelling. The
  heredoc extraction by a syntax tree and the rendering of unified diffs come from third-party
  crates and are parameters. Output streams are texts that may refuse every write.
\<close>

section \<open>Paths and errors\<close>

datatype path_convention = PosixConvention | WindowsConvention

record 'u uri_ops =
  uri_convention :: "'u \<Rightarrow> path_convention option"
  uri_join :: "'u \<Rightarrow> rstr \<Rightarrow> rstr + 'u"
  uri_parent :: "'u \<Rightarrow> 'u option"
  uri_native :: "'u \<Rightarrow> rstr"

fun resolve_path :: "'u uri_ops \<Rightarrow> 'u \<Rightarrow> hunk \<Rightarrow> rstr + 'u" where
  "resolve_path ops cwd (UpdateFile path move_path chunks) = uri_join ops cwd path"
| "resolve_path ops cwd (AddFile path contents) = uri_join ops cwd path"
| "resolve_path ops cwd (DeleteFile path) = uri_join ops cwd path"

text \<open>Errors of \<open>anyhow\<close>: a message, a path error, an I/O error with its context, or an error of the patch.\<close>

datatype anyhow_error =
    AnyMessage rstr
  | AnyUri rstr
  | AnyContext rstr io_error_kind
  | AnyPatch apply_patch_error

fun io_error_text :: "io_error_kind \<Rightarrow> rstr" where
  "io_error_text NotFound = lit ''No such file or directory (os error 2)''"
| "io_error_text (OtherKind message) = message"

fun parse_error_text :: "parse_error \<Rightarrow> rstr" where
  "parse_error_text (InvalidPatchError message) = lit ''invalid patch: '' @ message"
| "parse_error_text (InvalidHunkError message n) =
     lit ''invalid hunk at line '' @ nat_string n @ lit '', '' @ message"

fun apply_patch_error_text :: "apply_patch_error \<Rightarrow> rstr" where
  "apply_patch_error_text (ParseError e) = parse_error_text e"
| "apply_patch_error_text (IoError ctx source) = ctx @ lit '': '' @ io_error_text source"
| "apply_patch_error_text (ComputeReplacements message) = message"
| "apply_patch_error_text (PathUriError message) = message"
| "apply_patch_error_text ImplicitInvocation = lit ''patch detected without explicit call to apply_patch. Rerun as ['' @ [34]
     @ lit ''apply_patch'' @ [34] @ lit '', '' @ [34] @ lit ''<patch>'' @ [34] @ lit '']''"
| "apply_patch_error_text Panic = []"

fun anyhow_text :: "anyhow_error \<Rightarrow> rstr" where
  "anyhow_text (AnyMessage message) = message"
| "anyhow_text (AnyUri message) = message"
| "anyhow_text (AnyContext ctx _) = ctx"
| "anyhow_text (AnyPatch e) = apply_patch_error_text e"

definition io_error_from :: "io_error_kind \<Rightarrow> apply_patch_error" where
  "io_error_from e = IoError (lit ''I/O error'') e"

section \<open>What was changed\<close>

datatype 'u applied_patch_file_change =
    AppliedAdd rstr "rstr option"
  | AppliedDelete rstr
  | AppliedUpdate "'u option" rstr "rstr option" rstr

record 'u applied_patch_change =
  change_path :: 'u
  file_change :: "'u applied_patch_file_change"

record 'u applied_patch_delta =
  delta_changes :: "'u applied_patch_change list"
  delta_exact :: bool

definition empty_delta :: "'u applied_patch_delta" where
  "empty_delta = \<lparr>delta_changes = [], delta_exact = True\<rparr>"

definition append_delta :: "'u applied_patch_delta \<Rightarrow> 'u applied_patch_delta \<Rightarrow> 'u applied_patch_delta" where
  "append_delta d other = \<lparr>delta_changes = delta_changes d @ delta_changes other,
     delta_exact = (delta_exact d \<and> delta_exact other)\<rparr>"

definition push_change :: "'u \<Rightarrow> 'u applied_patch_file_change \<Rightarrow> 'u applied_patch_delta \<Rightarrow> 'u applied_patch_delta" where
  "push_change u c d = d\<lparr>delta_changes := delta_changes d @ [\<lparr>change_path = u, file_change = c\<rparr>]\<rparr>"

record affected_paths =
  added :: "rstr list"
  modified :: "rstr list"
  deleted :: "rstr list"

record apply_patch_options =
  update_file_mode :: update_mode
  follow_symlinks :: bool

definition default_patch_options :: apply_patch_options where
  "default_patch_options = \<lparr>update_file_mode = NormalizeToLf, follow_symlinks = True\<rparr>"

section \<open>File operations\<close>

definition ensure_not_directory :: "('s, 'u) executor_fs \<Rightarrow> 'u \<Rightarrow> bool \<Rightarrow> 's \<Rightarrow> io_error_kind + unit" where
  "ensure_not_directory fs u follow s =
     res_bind (get_metadata fs u follow s) (\<lambda>metadata.
       if is_directory metadata then Inl (OtherKind (lit ''path is a directory'')) else Inr ())"

definition remove_failure_was_side_effect_free ::
    "('s, 'u) executor_fs \<Rightarrow> 'u \<Rightarrow> rstr option \<Rightarrow> bool \<Rightarrow> 's \<Rightarrow> bool" where
  "remove_failure_was_side_effect_free fs u expected_content follow s =
     (case expected_content of
        Some expected \<Rightarrow> read_file_text fs u follow s = Inr expected
      | None \<Rightarrow> False)"

definition note_existing_path_delta_support ::
    "('s, 'u) executor_fs \<Rightarrow> 'u \<Rightarrow> bool \<Rightarrow> 's \<Rightarrow> bool \<Rightarrow> bool" where
  "note_existing_path_delta_support fs u follow s exact =
     (case get_metadata fs u follow s of
        Inr metadata \<Rightarrow> if is_file metadata \<and> \<not> is_symlink metadata then exact else False
      | Inl NotFound \<Rightarrow> exact
      | Inl _ \<Rightarrow> False)"

definition read_optional_file_text_for_delta ::
    "('s, 'u) executor_fs \<Rightarrow> 'u \<Rightarrow> bool \<Rightarrow> 's \<Rightarrow> bool \<Rightarrow> bool \<times> rstr option" where
  "read_optional_file_text_for_delta fs u follow s exact =
     (let exact' = note_existing_path_delta_support fs u follow s exact in
      case read_file_text fs u follow s of
        Inr content \<Rightarrow> (exact', Some content)
      | Inl NotFound \<Rightarrow> (exact', None)
      | Inl _ \<Rightarrow> (False, None))"

definition write_file_with_missing_parent_retry ::
    "'u uri_ops \<Rightarrow> ('s, 'u) executor_fs \<Rightarrow> 'u \<Rightarrow> rstr \<Rightarrow> bool \<Rightarrow> 's \<Rightarrow> 's \<times> (anyhow_error + unit)" where
  "write_file_with_missing_parent_retry ops fs u contents follow s =
     (case write_file fs u contents follow s of
        (s1, Inr _) \<Rightarrow> (s1, Inr ())
      | (s1, Inl NotFound) \<Rightarrow>
        (case (case uri_parent ops u of
                 Some dir \<Rightarrow> create_directory fs dir True follow s1
               | None \<Rightarrow> (s1, Inr ())) of
           (s2, Inl e) \<Rightarrow> (s2, Inl (AnyContext (lit ''Failed to create parent directories for '' @ uri_native ops u) e))
         | (s2, Inr _) \<Rightarrow>
           (case write_file fs u contents follow s2 of
              (s3, Inl e) \<Rightarrow> (s3, Inl (AnyContext (lit ''Failed to write file '' @ uri_native ops u) e))
            | (s3, Inr _) \<Rightarrow> (s3, Inr ())))
      | (s1, Inl e) \<Rightarrow> (s1, Inl (AnyContext (lit ''Failed to write file '' @ uri_native ops u) e)))"

definition derive_new_contents_from_chunks ::
    "'u uri_ops \<Rightarrow> ('s, 'u) executor_fs \<Rightarrow> 'u \<Rightarrow> update_file_chunk list \<Rightarrow> update_mode \<Rightarrow> bool \<Rightarrow> 's
     \<Rightarrow> apply_patch_error + rstr \<times> rstr" where
  "derive_new_contents_from_chunks ops fs u chunks mode follow s =
     res_bind (map_err (IoError (lit ''Failed to read file to update '' @ uri_native ops u)) (read_file_text fs u follow s))
       (\<lambda>original. res_bind (new_contents_from_chunks original (uri_native ops u) chunks mode)
         (\<lambda>new_contents. Inr (original, new_contents)))"

section \<open>Applying a hunk\<close>

text \<open>The state of the loop is the file system's state and the delta.\<close>

definition apply_add ::
    "'u uri_ops \<Rightarrow> ('s, 'u) executor_fs \<Rightarrow> bool \<Rightarrow> 'u \<Rightarrow> rstr \<Rightarrow> 's \<times> 'u applied_patch_delta
     \<Rightarrow> ('s \<times> 'u applied_patch_delta) \<times> (anyhow_error + unit)" where
  "apply_add ops fs follow u contents = (\<lambda>(s, d).
     let (exact, overwritten) = read_optional_file_text_for_delta fs u follow s (delta_exact d);
         d = d\<lparr>delta_exact := exact\<rparr> in
     case write_file_with_missing_parent_retry ops fs u contents follow s of
       (s', Inl e) \<Rightarrow> ((s', d\<lparr>delta_exact := False\<rparr>), Inl e)
     | (s', Inr _) \<Rightarrow> ((s', push_change u (AppliedAdd contents overwritten) d), Inr ()))"

text \<open>\<open>ensure_not_directory\<close> and \<open>remove\<close>, as they end a deletion and a move.\<close>

definition remove_original ::
    "'u uri_ops \<Rightarrow> ('s, 'u) executor_fs \<Rightarrow> bool \<Rightarrow> rstr \<Rightarrow> 'u \<Rightarrow> rstr option \<Rightarrow> 's \<times> 'u applied_patch_delta
     \<Rightarrow> ('s \<times> 'u applied_patch_delta) \<times> (anyhow_error + unit)" where
  "remove_original ops fs follow message u expected = (\<lambda>(s, d).
     case ensure_not_directory fs u follow s of
       Inl e \<Rightarrow> ((s, d), Inl (AnyContext (message @ uri_native ops u) e))
     | Inr _ \<Rightarrow>
       (case remove fs u False False follow s of
          (s', Inl e) \<Rightarrow>
            ((s', d\<lparr>delta_exact := (delta_exact d \<and> remove_failure_was_side_effect_free fs u expected follow s')\<rparr>),
             Inl (AnyContext (message @ uri_native ops u) e))
        | (s', Inr _) \<Rightarrow> ((s', d), Inr ())))"

definition apply_delete ::
    "'u uri_ops \<Rightarrow> ('s, 'u) executor_fs \<Rightarrow> bool \<Rightarrow> 'u \<Rightarrow> 's \<times> 'u applied_patch_delta
     \<Rightarrow> ('s \<times> 'u applied_patch_delta) \<times> (anyhow_error + unit)" where
  "apply_delete ops fs follow u = (\<lambda>(s, d).
     let exact = note_existing_path_delta_support fs u follow s (delta_exact d);
         deleted_content = (case read_file_text fs u follow s of Inr content \<Rightarrow> Some content | Inl _ \<Rightarrow> None);
         d = d\<lparr>delta_exact := (exact \<and> deleted_content \<noteq> None)\<rparr> in
     case remove_original ops fs follow (lit ''Failed to delete file '') u deleted_content (s, d) of
       (st, Inl e) \<Rightarrow> (st, Inl e)
     | ((s', d'), Inr _) \<Rightarrow>
       ((s', case deleted_content of Some content \<Rightarrow> push_change u (AppliedDelete content) d' | None \<Rightarrow> d'), Inr ()))"

definition apply_move ::
    "'u uri_ops \<Rightarrow> ('s, 'u) executor_fs \<Rightarrow> bool \<Rightarrow> 'u \<Rightarrow> 'u \<Rightarrow> rstr \<Rightarrow> rstr \<Rightarrow> 's \<times> 'u applied_patch_delta
     \<Rightarrow> ('s \<times> 'u applied_patch_delta) \<times> (anyhow_error + unit)" where
  "apply_move ops fs follow u dest original new_contents = (\<lambda>(s, d).
     let (exact, overwritten) = read_optional_file_text_for_delta fs dest follow s (delta_exact d);
         d = d\<lparr>delta_exact := exact\<rparr> in
     case write_file_with_missing_parent_retry ops fs dest new_contents follow s of
       (s', Inl e) \<Rightarrow> ((s', d\<lparr>delta_exact := False\<rparr>), Inl e)
     | (s', Inr _) \<Rightarrow>
       let dest_write_change_index = length (delta_changes d);
           d = push_change dest (AppliedAdd new_contents overwritten) d in
       case remove_original ops fs follow (lit ''Failed to remove original '') u (Some original) (s', d) of
         (st, Inl e) \<Rightarrow> (st, Inl e)
       | ((s'', d'), Inr _) \<Rightarrow>
         ((s'', d'\<lparr>delta_changes := (delta_changes d')[dest_write_change_index :=
            \<lparr>change_path = u, file_change = AppliedUpdate (Some dest) original overwritten new_contents\<rparr>]\<rparr>), Inr ()))"

definition apply_in_place ::
    "'u uri_ops \<Rightarrow> ('s, 'u) executor_fs \<Rightarrow> bool \<Rightarrow> 'u \<Rightarrow> rstr \<Rightarrow> rstr \<Rightarrow> 's \<times> 'u applied_patch_delta
     \<Rightarrow> ('s \<times> 'u applied_patch_delta) \<times> (anyhow_error + unit)" where
  "apply_in_place ops fs follow u original new_contents = (\<lambda>(s, d).
     case write_file fs u new_contents follow s of
       (s', Inl e) \<Rightarrow>
         ((s', d\<lparr>delta_exact := False\<rparr>), Inl (AnyContext (lit ''Failed to write file '' @ uri_native ops u) e))
     | (s', Inr _) \<Rightarrow> ((s', push_change u (AppliedUpdate None original None new_contents) d), Inr ()))"

definition apply_update ::
    "'u uri_ops \<Rightarrow> ('s, 'u) executor_fs \<Rightarrow> apply_patch_options \<Rightarrow> 'u \<Rightarrow> 'u \<Rightarrow> rstr option \<Rightarrow> update_file_chunk list
     \<Rightarrow> 's \<times> 'u applied_patch_delta \<Rightarrow> ('s \<times> 'u applied_patch_delta) \<times> (anyhow_error + unit)" where
  "apply_update ops fs options cwd u move_path chunks = (\<lambda>(s, d).
     let follow = follow_symlinks options;
         d = d\<lparr>delta_exact := note_existing_path_delta_support fs u follow s (delta_exact d)\<rparr> in
     case derive_new_contents_from_chunks ops fs u chunks (update_file_mode options) follow s of
       Inl e \<Rightarrow> ((s, d), Inl (AnyPatch e))
     | Inr (original, new_contents) \<Rightarrow>
       (case move_path of
          Some dest \<Rightarrow>
            (case uri_join ops cwd dest of
               Inl e \<Rightarrow> ((s, d), Inl (AnyUri e))
             | Inr dest_uri \<Rightarrow> apply_move ops fs follow u dest_uri original new_contents (s, d))
        | None \<Rightarrow> apply_in_place ops fs follow u original new_contents (s, d)))"

definition apply_hunk ::
    "'u uri_ops \<Rightarrow> ('s, 'u) executor_fs \<Rightarrow> apply_patch_options \<Rightarrow> 'u \<Rightarrow> hunk \<Rightarrow> 's \<times> 'u applied_patch_delta
     \<Rightarrow> ('s \<times> 'u applied_patch_delta) \<times> (anyhow_error + unit)" where
  "apply_hunk ops fs options cwd h st =
     (case resolve_path ops cwd h of
        Inl e \<Rightarrow> (st, Inl (AnyUri e))
      | Inr u \<Rightarrow>
        (case h of
           AddFile _ contents \<Rightarrow> apply_add ops fs (follow_symlinks options) u contents st
         | DeleteFile _ \<Rightarrow> apply_delete ops fs (follow_symlinks options) u st
         | UpdateFile _ move_path chunks \<Rightarrow> apply_update ops fs options cwd u move_path chunks st))"

fun record_affected :: "hunk \<Rightarrow> affected_paths \<Rightarrow> affected_paths" where
  "record_affected (AddFile path contents) a = a\<lparr>added := added a @ [path]\<rparr>"
| "record_affected (DeleteFile path) a = a\<lparr>deleted := deleted a @ [path]\<rparr>"
| "record_affected (UpdateFile path move_path chunks) a =
     a\<lparr>modified := modified a @ [hunk_path (UpdateFile path move_path chunks)]\<rparr>"

fun hunks_loop ::
    "'u uri_ops \<Rightarrow> ('s, 'u) executor_fs \<Rightarrow> apply_patch_options \<Rightarrow> 'u \<Rightarrow> hunk list \<Rightarrow> affected_paths
     \<Rightarrow> 's \<times> 'u applied_patch_delta \<Rightarrow> ('s \<times> 'u applied_patch_delta) \<times> (anyhow_error + affected_paths)" where
  "hunks_loop ops fs options cwd [] a st = (st, Inr a)"
| "hunks_loop ops fs options cwd (h # hs) a st =
     (case apply_hunk ops fs options cwd h st of
        (st', Inl e) \<Rightarrow> (st', Inl e)
      | (st', Inr _) \<Rightarrow> hunks_loop ops fs options cwd hs (record_affected h a) st')"

definition apply_hunks_to_files ::
    "'u uri_ops \<Rightarrow> ('s, 'u) executor_fs \<Rightarrow> apply_patch_options \<Rightarrow> 'u \<Rightarrow> hunk list
     \<Rightarrow> 's \<times> 'u applied_patch_delta \<Rightarrow> ('s \<times> 'u applied_patch_delta) \<times> (anyhow_error + affected_paths)" where
  "apply_hunks_to_files ops fs options cwd hs st =
     (if hs = [] then (st, Inl (AnyMessage (lit ''No files were modified.'')))
      else hunks_loop ops fs options cwd hs \<lparr>added = [], modified = [], deleted = []\<rparr> st)"

section \<open>Output\<close>

record writer =
  written :: rstr
  refuses :: "io_error_kind option"

definition writeln :: "writer \<Rightarrow> rstr \<Rightarrow> writer \<times> (io_error_kind + unit)" where
  "writeln w l = (case refuses w of Some e \<Rightarrow> (w, Inl e) | None \<Rightarrow> (w\<lparr>written := written w @ l @ [NL]\<rparr>, Inr ()))"

fun write_lines :: "writer \<Rightarrow> rstr list \<Rightarrow> writer \<times> (io_error_kind + unit)" where
  "write_lines w [] = (w, Inr ())"
| "write_lines w (l # ls) = (case writeln w l of (w', Inl e) \<Rightarrow> (w', Inl e) | (w', Inr _) \<Rightarrow> write_lines w' ls)"

definition print_summary :: "affected_paths \<Rightarrow> writer \<Rightarrow> writer \<times> (io_error_kind + unit)" where
  "print_summary affected out =
     write_lines out (lit ''Success. Updated the following files:'' # map (\<lambda>p. lit ''A '' @ p) (added affected)
       @ map (\<lambda>p. lit ''M '' @ p) (modified affected) @ map (\<lambda>p. lit ''D '' @ p) (deleted affected))"

text \<open>\<open>downcast_ref\<close> finds the I/O error under a context.\<close>

fun hunk_failure :: "anyhow_error \<Rightarrow> apply_patch_error" where
  "hunk_failure (AnyContext ctx io) = io_error_from io"
| "hunk_failure e = IoError (anyhow_text e) (OtherKind (anyhow_text e))"

definition apply_hunks_with_options ::
    "'u uri_ops \<Rightarrow> ('s, 'u) executor_fs \<Rightarrow> apply_patch_options \<Rightarrow> 'u \<Rightarrow> hunk list \<Rightarrow> 's \<times> writer \<times> writer
     \<Rightarrow> ('s \<times> writer \<times> writer) \<times> (apply_patch_error \<times> 'u applied_patch_delta + 'u applied_patch_delta)" where
  "apply_hunks_with_options ops fs options cwd hs = (\<lambda>(s, out, err).
     case apply_hunks_to_files ops fs options cwd hs (s, empty_delta) of
       ((s', d), Inr affected) \<Rightarrow>
         (case print_summary affected out of
            (out', Inl e) \<Rightarrow> ((s', out', err), Inl (io_error_from e, d))
          | (out', Inr _) \<Rightarrow> ((s', out', err), Inr d))
     | ((s', d), Inl (AnyPatch Panic)) \<Rightarrow> ((s', out, err), Inl (Panic, d))
     | ((s', d), Inl error) \<Rightarrow>
         (case writeln err (anyhow_text error) of
            (err', Inl e) \<Rightarrow> ((s', out, err'), Inl (io_error_from e, d))
          | (err', Inr _) \<Rightarrow> ((s', out, err'), Inl (hunk_failure error, d))))"

fun parse_failure_line :: "parse_error \<Rightarrow> rstr" where
  "parse_failure_line (InvalidPatchError message) = lit ''Invalid patch: '' @ message"
| "parse_failure_line (InvalidHunkError message n) = lit ''Invalid patch hunk on line '' @ nat_string n @ lit '': '' @ message"

definition apply_patch_with_options ::
    "'u uri_ops \<Rightarrow> ('s, 'u) executor_fs \<Rightarrow> rstr \<Rightarrow> apply_patch_options \<Rightarrow> 'u \<Rightarrow> 's \<times> writer \<times> writer
     \<Rightarrow> ('s \<times> writer \<times> writer) \<times> (apply_patch_error \<times> 'u applied_patch_delta + 'u applied_patch_delta)" where
  "apply_patch_with_options ops fs txt options cwd = (\<lambda>(s, out, err).
     case parse_patch txt of
       Inr source \<Rightarrow> apply_hunks_with_options ops fs options cwd (args_hunks source) (s, out, err)
     | Inl e \<Rightarrow>
       (case writeln err (parse_failure_line e) of
          (err', Inl io) \<Rightarrow> ((s, out, err'), Inl (io_error_from io, empty_delta))
        | (err', Inr _) \<Rightarrow> ((s, out, err'), Inl (ParseError e, empty_delta))))"

definition apply_patch ::
    "'u uri_ops \<Rightarrow> ('s, 'u) executor_fs \<Rightarrow> rstr \<Rightarrow> 'u \<Rightarrow> 's \<times> writer \<times> writer
     \<Rightarrow> ('s \<times> writer \<times> writer) \<times> (apply_patch_error \<times> 'u applied_patch_delta + 'u applied_patch_delta)" where
  "apply_patch ops fs txt cwd st = apply_patch_with_options ops fs txt default_patch_options cwd st"

section \<open>Invocations\<close>

definition APPLY_PATCH_COMMANDS :: "rstr list" where
  "APPLY_PATCH_COMMANDS = [lit ''apply_patch'', lit ''applypatch'']"

datatype apply_patch_shell = UnixShell | PowerShellShell | CmdShell

datatype extract_heredoc_error =
    CommandDidNotStartWithApplyPatch
  | FailedToLoadBashGrammar rstr
  | HeredocNotUtf8 rstr
  | FailedToParsePatchIntoAst
  | FailedToFindHeredocBody

datatype maybe_apply_patch =
    PatchBody apply_patch_args
  | ShellParseError extract_heredoc_error
  | PatchParseError parse_error
  | NotApplyPatch

fun path_segments :: "path_convention \<Rightarrow> rstr \<Rightarrow> rstr list" where
  "path_segments PosixConvention s = split_char SLASH s"
| "path_segments WindowsConvention s = split_char SLASH (map (\<lambda>c. if c = 92 then SLASH else c) s)"

definition classify_shell_name :: "rstr \<Rightarrow> path_convention \<Rightarrow> rstr option" where
  "classify_shell_name shell convention =
     map_option (\<lambda>basename.
       to_ascii_lowercase (case rsplit_once 46 basename of
           Some (stem, _) \<Rightarrow> if stem \<noteq> [] then stem else basename
         | None \<Rightarrow> basename))
       (last_opt (path_segments convention shell))"

definition classify_shell :: "rstr \<Rightarrow> rstr \<Rightarrow> path_convention \<Rightarrow> apply_patch_shell option" where
  "classify_shell shell flag convention =
     (case classify_shell_name shell convention of
        None \<Rightarrow> None
      | Some name \<Rightarrow>
        if name \<in> set [lit ''bash'', lit ''zsh'', lit ''sh''] \<and> flag \<in> set [lit ''-lc'', lit ''-c''] then Some UnixShell
        else if name \<in> set [lit ''pwsh'', lit ''powershell''] \<and> to_ascii_lowercase flag = lit ''-command'' then Some PowerShellShell
        else if name = lit ''cmd'' \<and> to_ascii_lowercase flag = lit ''/c'' then Some CmdShell
        else None)"

definition can_skip_flag :: "rstr \<Rightarrow> rstr \<Rightarrow> path_convention \<Rightarrow> bool" where
  "can_skip_flag shell flag convention =
     (case classify_shell_name shell convention of
        None \<Rightarrow> False
      | Some name \<Rightarrow> name \<in> set [lit ''pwsh'', lit ''powershell''] \<and> to_ascii_lowercase flag = lit ''-noprofile'')"

definition parse_shell_script :: "'u uri_ops \<Rightarrow> rstr list \<Rightarrow> 'u \<Rightarrow> (apply_patch_shell \<times> rstr) option" where
  "parse_shell_script ops argv cwd =
     (case uri_convention ops cwd of
        None \<Rightarrow> None
      | Some convention \<Rightarrow>
        (case argv of
           [shell, flag, script] \<Rightarrow> map_option (\<lambda>shell_type. (shell_type, script)) (classify_shell shell flag convention)
         | [shell, skip_flag, flag, script] \<Rightarrow>
             if \<not> can_skip_flag shell skip_flag convention then None
             else map_option (\<lambda>shell_type. (shell_type, script)) (classify_shell shell flag convention)
         | _ \<Rightarrow> None))"

text \<open>\<open>extract\<close> is \<open>extract_apply_patch_from_bash\<close>, which all shells use.\<close>

definition maybe_parse_apply_patch ::
    "'u uri_ops \<Rightarrow> (rstr \<Rightarrow> extract_heredoc_error + rstr \<times> rstr option) \<Rightarrow> rstr list \<Rightarrow> 'u \<Rightarrow> maybe_apply_patch" where
  "maybe_parse_apply_patch ops extract argv cwd =
     (let direct = (case argv of [cmd, body] \<Rightarrow> if cmd \<in> set APPLY_PATCH_COMMANDS then Some body else None | _ \<Rightarrow> None) in
      case direct of
        Some body \<Rightarrow> (case parse_patch body of Inr source \<Rightarrow> PatchBody source | Inl e \<Rightarrow> PatchParseError e)
      | None \<Rightarrow>
        (case parse_shell_script ops argv cwd of
           None \<Rightarrow> NotApplyPatch
         | Some (shell, script) \<Rightarrow>
           (case extract script of
              Inr (body, dir) \<Rightarrow>
                (case parse_patch body of
                   Inr source \<Rightarrow> PatchBody (source\<lparr>workdir := dir\<rparr>)
                 | Inl e \<Rightarrow> PatchParseError e)
            | Inl CommandDidNotStartWithApplyPatch \<Rightarrow> NotApplyPatch
            | Inl e \<Rightarrow> ShellParseError e)))"

section \<open>Verification before applying\<close>

datatype 'u apply_patch_file_change =
    ChangeAdd rstr
  | ChangeDelete rstr
  | ChangeUpdate rstr "'u option" rstr

record 'u apply_patch_action =
  action_changes :: "('u \<times> 'u apply_patch_file_change) list"
  action_mode :: update_mode
  action_patch :: rstr
  action_cwd :: 'u

datatype 'u maybe_apply_patch_verified =
    VerifiedBody "'u apply_patch_action"
  | VerifiedShellParseError extract_heredoc_error
  | CorrectnessError apply_patch_error
  | VerifiedNotApplyPatch

text \<open>The diff of two texts with a number of context lines is the parameter \<open>text_diff\<close>.\<close>

definition unified_diff_from_chunks_with_context_and_mode ::
    "'u uri_ops \<Rightarrow> ('s, 'u) executor_fs \<Rightarrow> (rstr \<Rightarrow> rstr \<Rightarrow> nat \<Rightarrow> rstr) \<Rightarrow> 'u \<Rightarrow> update_file_chunk list \<Rightarrow> nat \<Rightarrow> update_mode
     \<Rightarrow> 's \<Rightarrow> apply_patch_error + rstr \<times> rstr \<times> rstr" where
  "unified_diff_from_chunks_with_context_and_mode ops fs text_diff u chunks ctx mode s =
     res_bind (derive_new_contents_from_chunks ops fs u chunks mode True s)
       (\<lambda>(original, new_contents). Inr (text_diff original new_contents ctx, original, new_contents))"

definition unified_diff_from_chunks_with_mode ::
    "'u uri_ops \<Rightarrow> ('s, 'u) executor_fs \<Rightarrow> (rstr \<Rightarrow> rstr \<Rightarrow> nat \<Rightarrow> rstr) \<Rightarrow> 'u \<Rightarrow> update_file_chunk list \<Rightarrow> update_mode
     \<Rightarrow> 's \<Rightarrow> apply_patch_error + rstr \<times> rstr \<times> rstr" where
  "unified_diff_from_chunks_with_mode ops fs text_diff u chunks mode s =
     unified_diff_from_chunks_with_context_and_mode ops fs text_diff u chunks 1 mode s"

definition verify_hunk ::
    "'u uri_ops \<Rightarrow> ('s, 'u) executor_fs \<Rightarrow> (rstr \<Rightarrow> rstr \<Rightarrow> nat \<Rightarrow> rstr) \<Rightarrow> 'u \<Rightarrow> update_mode \<Rightarrow> 's \<Rightarrow> hunk \<Rightarrow> 'u
     \<Rightarrow> apply_patch_error + 'u apply_patch_file_change" where
  "verify_hunk ops fs text_diff cwd mode s h u =
     (case h of
        AddFile _ contents \<Rightarrow> Inr (ChangeAdd contents)
      | DeleteFile _ \<Rightarrow>
          res_bind (map_err (IoError (lit ''Failed to read '' @ uri_native ops u)) (read_file_text fs u True s))
            (\<lambda>content. Inr (ChangeDelete content))
      | UpdateFile _ move_path chunks \<Rightarrow>
          res_bind (unified_diff_from_chunks_with_mode ops fs text_diff u chunks mode s) (\<lambda>(diff, _, contents).
          res_bind (case move_path of
              None \<Rightarrow> Inr None
            | Some dest \<Rightarrow> map_err PathUriError (res_bind (uri_join ops cwd dest) (\<lambda>d. Inr (Some d))))
            (\<lambda>dest_uri. Inr (ChangeUpdate diff dest_uri contents))))"

fun verify_loop ::
    "'u uri_ops \<Rightarrow> ('s, 'u) executor_fs \<Rightarrow> (rstr \<Rightarrow> rstr \<Rightarrow> nat \<Rightarrow> rstr) \<Rightarrow> 'u \<Rightarrow> update_mode \<Rightarrow> 's \<Rightarrow> hunk list
     \<Rightarrow> ('u \<times> 'u apply_patch_file_change) list \<Rightarrow> apply_patch_error + ('u \<times> 'u apply_patch_file_change) list" where
  "verify_loop ops fs text_diff cwd mode s [] changes = Inr changes"
| "verify_loop ops fs text_diff cwd mode s (h # hs) changes =
     res_bind (map_err PathUriError (resolve_path ops cwd h)) (\<lambda>u.
       if u \<in> set (map fst changes) then
         Inl (ParseError (InvalidPatchError (lit ''multiple operations target '' @ uri_native ops u)))
       else res_bind (verify_hunk ops fs text_diff cwd mode s h u) (\<lambda>c.
         verify_loop ops fs text_diff cwd mode s hs (changes @ [(u, c)])))"

definition try_verify_apply_patch_args ::
    "'u uri_ops \<Rightarrow> ('s, 'u) executor_fs \<Rightarrow> (rstr \<Rightarrow> rstr \<Rightarrow> nat \<Rightarrow> rstr) \<Rightarrow> apply_patch_args \<Rightarrow> 'u \<Rightarrow> update_mode \<Rightarrow> 's
     \<Rightarrow> apply_patch_error + 'u apply_patch_action" where
  "try_verify_apply_patch_args ops fs text_diff args cwd mode s =
     res_bind (case workdir args of
         None \<Rightarrow> Inr cwd
       | Some dir \<Rightarrow> map_err PathUriError (uri_join ops cwd dir)) (\<lambda>effective_cwd.
     res_bind (verify_loop ops fs text_diff effective_cwd mode s (args_hunks args) []) (\<lambda>changes.
       Inr \<lparr>action_changes = changes, action_mode = mode, action_patch = patch args, action_cwd = effective_cwd\<rparr>))"

definition verify_apply_patch_args_with_mode ::
    "'u uri_ops \<Rightarrow> ('s, 'u) executor_fs \<Rightarrow> (rstr \<Rightarrow> rstr \<Rightarrow> nat \<Rightarrow> rstr) \<Rightarrow> apply_patch_args \<Rightarrow> 'u \<Rightarrow> update_mode \<Rightarrow> 's
     \<Rightarrow> 'u maybe_apply_patch_verified" where
  "verify_apply_patch_args_with_mode ops fs text_diff args cwd mode s =
     (case try_verify_apply_patch_args ops fs text_diff args cwd mode s of
        Inr action \<Rightarrow> VerifiedBody action
      | Inl e \<Rightarrow> CorrectnessError e)"

definition maybe_parse_apply_patch_verified_with_mode ::
    "'u uri_ops \<Rightarrow> ('s, 'u) executor_fs \<Rightarrow> (rstr \<Rightarrow> rstr \<Rightarrow> nat \<Rightarrow> rstr)
     \<Rightarrow> (rstr \<Rightarrow> extract_heredoc_error + rstr \<times> rstr option) \<Rightarrow> rstr list \<Rightarrow> 'u \<Rightarrow> update_mode \<Rightarrow> 's
     \<Rightarrow> 'u maybe_apply_patch_verified" where
  "maybe_parse_apply_patch_verified_with_mode ops fs text_diff extract argv cwd mode s =
     (if (case argv of [body] \<Rightarrow> res_ok (parse_patch body) | _ \<Rightarrow> False) then CorrectnessError ImplicitInvocation
      else if (case parse_shell_script ops argv cwd of Some (_, script) \<Rightarrow> res_ok (parse_patch script) | None \<Rightarrow> False)
      then CorrectnessError ImplicitInvocation
      else case maybe_parse_apply_patch ops extract argv cwd of
        PatchBody args \<Rightarrow> verify_apply_patch_args_with_mode ops fs text_diff args cwd mode s
      | ShellParseError e \<Rightarrow> VerifiedShellParseError e
      | PatchParseError e \<Rightarrow> CorrectnessError (ParseError e)
      | NotApplyPatch \<Rightarrow> VerifiedNotApplyPatch)"

section \<open>Replaying a delta\<close>

text \<open>The texts after a recorded change, and whether the record tells the truth about those before it.\<close>

fun replay_change :: "'u applied_patch_change \<Rightarrow> ('u \<Rightarrow> rstr option) \<Rightarrow> 'u \<Rightarrow> rstr option" where
  "replay_change \<lparr>change_path = u, file_change = AppliedAdd content _\<rparr> F = F(u \<mapsto> content)"
| "replay_change \<lparr>change_path = u, file_change = AppliedDelete _\<rparr> F = F(u := None)"
| "replay_change \<lparr>change_path = u, file_change = AppliedUpdate None _ _ new_content\<rparr> F = F(u \<mapsto> new_content)"
| "replay_change \<lparr>change_path = u, file_change = AppliedUpdate (Some dest) _ _ new_content\<rparr> F = F(u := None, dest \<mapsto> new_content)"

fun change_fits :: "'u applied_patch_change \<Rightarrow> ('u \<Rightarrow> rstr option) \<Rightarrow> bool" where
  "change_fits \<lparr>change_path = u, file_change = AppliedAdd _ overwritten\<rparr> F \<longleftrightarrow> F u = overwritten"
| "change_fits \<lparr>change_path = u, file_change = AppliedDelete content\<rparr> F \<longleftrightarrow> F u = Some content"
| "change_fits \<lparr>change_path = u, file_change = AppliedUpdate None old _ _\<rparr> F \<longleftrightarrow> F u = Some old"
| "change_fits \<lparr>change_path = u, file_change = AppliedUpdate (Some dest) old overwritten _\<rparr> F \<longleftrightarrow>
     F u = Some old \<and> F dest = overwritten \<and> dest \<noteq> u"

fun delta_run :: "('u \<Rightarrow> rstr option) \<Rightarrow> 'u applied_patch_change list \<Rightarrow> ('u \<Rightarrow> rstr option) \<Rightarrow> bool" where
  "delta_run F [] F' \<longleftrightarrow> F' = F"
| "delta_run F (c # cs) F' \<longleftrightarrow> change_fits c F \<and> delta_run (replay_change c F) cs F'"

lemma delta_run_append: "delta_run F (cs @ cs') F'' \<longleftrightarrow> (\<exists>F'. delta_run F cs F' \<and> delta_run F' cs' F'')"
  by (induction cs arbitrary: F) auto

text \<open>
  A step from \<open>(s, d)\<close> to \<open>(s', d')\<close> is accounted for: if the delta is still exact, it was exact
  before, and the changes that were added lead from the files before to the files after.
\<close>

definition accounts ::
    "('s \<Rightarrow> bool) \<Rightarrow> ('s \<Rightarrow> 'u \<Rightarrow> rstr option) \<Rightarrow> 's \<times> 'u applied_patch_delta \<Rightarrow> 's \<times> 'u applied_patch_delta \<Rightarrow> bool" where
  "accounts ok files st st' \<longleftrightarrow> ok (fst st') \<and> (delta_exact (snd st') \<longrightarrow> delta_exact (snd st)
     \<and> (\<exists>cs. delta_changes (snd st') = delta_changes (snd st) @ cs \<and> delta_run (files (fst st)) cs (files (fst st'))))"

text \<open>A hunk that renames a file to its own path.\<close>

fun moves_onto_itself :: "'u uri_ops \<Rightarrow> 'u \<Rightarrow> hunk \<Rightarrow> bool" where
  "moves_onto_itself ops cwd (UpdateFile path (Some dest) chunks) \<longleftrightarrow> uri_join ops cwd dest = uri_join ops cwd path"
| "moves_onto_itself ops cwd _ \<longleftrightarrow> False"

definition result_delta :: "apply_patch_error \<times> 'u applied_patch_delta + 'u applied_patch_delta \<Rightarrow> 'u applied_patch_delta" where
  "result_delta r = (case r of Inl (_, d) \<Rightarrow> d | Inr d \<Rightarrow> d)"

context text_files
begin

lemma accounts_trans: "accounts inv files st st' \<Longrightarrow> accounts inv files st' st'' \<Longrightarrow> accounts inv files st st''"
  by (auto simp: accounts_def delta_run_append)

lemma accounts_stay:
  "inv s' \<Longrightarrow> (delta_exact d' \<Longrightarrow> delta_exact d \<and> files s' = files s \<and> delta_changes d' = delta_changes d)
    \<Longrightarrow> accounts inv files (s, d) (s', d')"
  by (auto simp: accounts_def)

lemma note_support_exact: "note_existing_path_delta_support fs u follow s exact \<Longrightarrow> exact"
  by (auto simp: note_existing_path_delta_support_def split: sum.splits if_splits io_error_kind.splits)

lemma read_optional_exact:
  assumes "inv s" "read_optional_file_text_for_delta fs u follow s exact = (True, content)"
  shows "exact" "files s u = content"
  using assms note_support_exact [of u s exact] read_Ok [OF assms(1)] read_NotFound [OF assms(1)]
  by (auto simp: read_optional_file_text_for_delta_def Let_def split: sum.splits io_error_kind.splits)

lemma retry_Ok:
  assumes "inv s" "write_file_with_missing_parent_retry ops fs u c follow s = (s', r)"
  shows "inv s'" "r = Inr () \<Longrightarrow> files s' = (files s)(u \<mapsto> c)"
proof -
  obtain s1 r1 where 1: "write_file fs u c follow s = (s1, r1)" by fastforce
  obtain s2 r2 where 2: "(case uri_parent ops u of Some dir \<Rightarrow> create_directory fs dir True follow s1 | None \<Rightarrow> (s1, Inr ())) = (s2, r2)"
    by fastforce
  obtain s3 r3 where 3: "write_file fs u c follow s2 = (s3, r3)" by fastforce
  have inv1: "inv s1" using write_inv [OF assms(1) 1] .
  have inv2: "inv s2" "files s2 = files s1"
    using 2 create_inv [OF inv1] create_files [OF inv1] inv1 by (auto split: option.splits)
  have inv3: "inv s3" using write_inv [OF inv2(1) 3] .
  have step: "(s', r) = (case r1 of Inr _ \<Rightarrow> (s1, Inr ())
     | Inl NotFound \<Rightarrow> (case r2 of Inl e \<Rightarrow> (s2, Inl (AnyContext (lit ''Failed to create parent directories for '' @ uri_native ops u) e))
         | Inr _ \<Rightarrow> (case r3 of Inl e \<Rightarrow> (s3, Inl (AnyContext (lit ''Failed to write file '' @ uri_native ops u) e)) | Inr _ \<Rightarrow> (s3, Inr ())))
     | Inl e \<Rightarrow> (s1, Inl (AnyContext (lit ''Failed to write file '' @ uri_native ops u) e)))"
    using assms(2) by (simp add: write_file_with_missing_parent_retry_def 1 2 3 split: sum.splits io_error_kind.splits)
  then show "inv s'" using inv1 inv2(1) inv3 by (auto split: sum.splits io_error_kind.splits)
  assume "r = Inr ()"
  then consider "r1 = Inr ()" "s' = s1" | "r1 = Inl NotFound" "r3 = Inr ()" "s' = s3"
    using step by (auto split: sum.splits io_error_kind.splits)
  then show "files s' = (files s)(u \<mapsto> c)"
    using write_Ok [OF assms(1)] write_Ok [OF inv2(1)] write_NotFound [OF assms(1)] inv2(2) 1 3 by cases auto
qed

lemma apply_add_accounts:
  assumes "inv s" "apply_add ops fs follow u c (s, d) = (st', r)"
  shows "accounts inv files (s, d) st'"
proof -
  obtain exact overwritten where ro: "read_optional_file_text_for_delta fs u follow s (delta_exact d) = (exact, overwritten)"
    by fastforce
  obtain s1 r1 where w: "write_file_with_missing_parent_retry ops fs u c follow s = (s1, r1)" by fastforce
  note inv1 = retry_Ok [OF assms(1) w]
  show ?thesis
  proof (cases r1)
    case (Inl e)
    then show ?thesis using assms(2) inv1(1) by (auto simp: apply_add_def ro w accounts_def)
  next
    case (Inr x)
    then have "st' = (s1, push_change u (AppliedAdd c overwritten) (d\<lparr>delta_exact := exact\<rparr>))"
      using assms(2) by (simp add: apply_add_def ro w)
    then show ?thesis using inv1 Inr read_optional_exact [OF assms(1), of u "delta_exact d" overwritten] ro
      by (auto simp: accounts_def push_change_def)
  qed
qed

lemma remove_original_accounts:
  assumes "inv s" "remove_original ops fs follow message u expected (s, d) = ((s', d'), r)"
  shows "inv s'" "delta_changes d' = delta_changes d"
    "delta_exact d' \<Longrightarrow> expected = Some c \<Longrightarrow> files s u = Some c \<Longrightarrow>
      delta_exact d \<and> files s' = (if r = Inr () then (files s)(u := None) else files s)"
proof -
  obtain s1 r1 where rm: "remove fs u False False follow s = (s1, r1)" by fastforce
  note defs = remove_original_def rm
  show "inv s'" using assms remove_inv [OF assms(1) rm] by (auto simp: defs split: sum.splits)
  show "delta_changes d' = delta_changes d" using assms(2) by (auto simp: defs split: sum.splits)
  assume ex: "delta_exact d'" "expected = Some c" "files s u = Some c"
  have same: "files s1 = files s" if "read_file_text fs u follow s1 = Inr c"
    using read_Ok [OF remove_inv [OF assms(1) rm] that] remove_frame [OF assms(1) rm ex(3)] ex(3) by (metis ext)
  show "delta_exact d \<and> files s' = (if r = Inr () then (files s)(u := None) else files s)"
    using assms(2) ex same remove_Ok [OF assms(1), of u s1 c] rm
    by (auto simp: defs remove_failure_was_side_effect_free_def split: sum.splits)
qed

lemma apply_delete_accounts:
  assumes "inv s" "apply_delete ops fs follow u (s, d) = (st', r)"
  shows "accounts inv files (s, d) st'"
proof -
  define content where "content = (case read_file_text fs u follow s of Inr c \<Rightarrow> Some c | Inl _ \<Rightarrow> None)"
  define d1 where "d1 = d\<lparr>delta_exact := (note_existing_path_delta_support fs u follow s (delta_exact d) \<and> content \<noteq> None)\<rparr>"
  obtain s2 d2 r2 where rm: "remove_original ops fs follow (lit ''Failed to delete file '') u content (s, d1) = ((s2, d2), r2)"
    by (metis surj_pair)
  have st': "st' = (s2, if r2 = Inr () then (case content of Some c \<Rightarrow> push_change u (AppliedDelete c) d2 | None \<Rightarrow> d2) else d2)"
  proof -
    have "apply_delete ops fs follow u (s, d) =
      (case remove_original ops fs follow (lit ''Failed to delete file '') u content (s, d1) of
         (st, Inl e) \<Rightarrow> (st, Inl e)
       | ((s', d'), Inr _) \<Rightarrow> ((s', case content of Some c \<Rightarrow> push_change u (AppliedDelete c) d' | None \<Rightarrow> d'), Inr ()))"
      by (simp only: apply_delete_def content_def d1_def Let_def prod.case)
    then show ?thesis using assms(2) rm by (cases r2) auto
  qed
  note facts = remove_original_accounts [OF assms(1) rm]
  show ?thesis
  proof (cases content)
    case None
    then have "\<not> delta_exact d2"
      using rm by (auto simp: d1_def remove_original_def split: sum.splits prod.splits)
    then show ?thesis using facts(1) None by (simp add: st' accounts_def)
  next
    case (Some c)
    then have "files s u = Some c" using read_Ok [OF assms(1)] by (auto simp: content_def split: sum.splits)
    then show ?thesis using facts Some note_support_exact [of u s "delta_exact d"]
      by (auto simp: st' accounts_def push_change_def d1_def)
  qed
qed

lemma apply_move_accounts:
  assumes "inv s" "apply_move ops fs follow u dest original new (s, d) = (st', r)"
    and "files s u = Some original" "dest \<noteq> u"
  shows "accounts inv files (s, d) st'"
proof -
  obtain exact overwritten where ro: "read_optional_file_text_for_delta fs dest follow s (delta_exact d) = (exact, overwritten)"
    by fastforce
  obtain s1 r1 where w: "write_file_with_missing_parent_retry ops fs dest new follow s = (s1, r1)" by fastforce
  note inv1 = retry_Ok [OF assms(1) w]
  define d1 where "d1 = push_change dest (AppliedAdd new overwritten) (d\<lparr>delta_exact := exact\<rparr>)"
  obtain s2 d2 r2 where rm: "remove_original ops fs follow (lit ''Failed to remove original '') u (Some original) (s1, d1) = ((s2, d2), r2)"
    by (metis surj_pair)
  note facts = remove_original_accounts [OF inv1(1) rm]
  note exact = read_optional_exact [OF assms(1), of dest "delta_exact d" overwritten]
  show ?thesis
  proof (cases r1)
    case (Inl e)
    then show ?thesis using assms(2) inv1(1) by (auto simp: apply_move_def ro w accounts_def)
  next
    case (Inr x)
    then have files1: "files s1 = (files s)(dest \<mapsto> new)" using inv1(2) by simp
    have "st' = (s2, if r2 = Inr () then d2\<lparr>delta_changes := (delta_changes d2)[length (delta_changes d) :=
        \<lparr>change_path = u, file_change = AppliedUpdate (Some dest) original overwritten new\<rparr>]\<rparr> else d2)"
      using assms(2) rm Inr by (auto simp: apply_move_def ro w d1_def Let_def split: sum.splits)
    then show ?thesis using facts files1 exact ro assms(3,4)
      by (auto simp: accounts_def d1_def push_change_def fun_upd_twist)
  qed
qed

lemma apply_in_place_accounts:
  assumes "inv s" "apply_in_place ops fs follow u original new (s, d) = (st', r)" "files s u = Some original"
  shows "accounts inv files (s, d) st'"
proof -
  obtain s1 r1 where w: "write_file fs u new follow s = (s1, r1)" by fastforce
  show ?thesis
    using assms(2,3) write_inv [OF assms(1) w] write_Ok [OF assms(1), of u new s1] w
    by (auto simp: apply_in_place_def accounts_def push_change_def split: sum.splits)
qed

lemma derive_original:
  "inv s \<Longrightarrow> derive_new_contents_from_chunks ops fs u chunks mode follow s = Inr (original, new) \<Longrightarrow> files s u = Some original"
  using read_Ok by (auto simp: derive_new_contents_from_chunks_def res_iffs)

lemma apply_update_accounts:
  assumes "inv s" "apply_update ops fs options cwd u move_path chunks (s, d) = (st', r)" "follow_symlinks options = follow"
    and "\<And>dest. move_path = Some dest \<Longrightarrow> uri_join ops cwd dest \<noteq> Inr u"
  shows "accounts inv files (s, d) st'"
proof -
  let ?d = "d\<lparr>delta_exact := note_existing_path_delta_support fs u follow s (delta_exact d)\<rparr>"
  have first: "accounts inv files (s, d) (s, ?d)"
    using assms(1) note_support_exact [of u s "delta_exact d"] by (intro accounts_stay) auto
  show ?thesis
  proof (cases "derive_new_contents_from_chunks ops fs u chunks (update_file_mode options) follow s")
    case (Inl e)
    then show ?thesis using assms(2,3) first by (simp add: apply_update_def)
  next
    case (Inr contents)
    then obtain original new where c: "contents = (original, new)" by fastforce
    note orig = derive_original [OF assms(1) Inr [unfolded c]]
    show ?thesis
      using assms(2-4) first Inr c accounts_trans [OF first] apply_move_accounts [OF assms(1) _ orig]
        apply_in_place_accounts [OF assms(1) _ orig]
      by (auto simp: apply_update_def Let_def split: option.splits sum.splits)
  qed
qed

lemma apply_hunk_accounts:
  assumes "inv s" "apply_hunk ops fs options cwd h (s, d) = (st', r)" "follow_symlinks options = follow"
    and "\<not> moves_onto_itself ops cwd h"
  shows "accounts inv files (s, d) st'"
proof (cases "resolve_path ops cwd h")
  case (Inl e)
  then show ?thesis using assms(1,2) by (auto simp: apply_hunk_def intro: accounts_stay)
next
  case (Inr u)
  show ?thesis
  proof (cases h)
    case (UpdateFile path move_path chunks)
    then have join: "uri_join ops cwd path = Inr u" using Inr by simp
    have "uri_join ops cwd dest \<noteq> Inr u" if "move_path = Some dest" for dest
      using assms(4) that by (simp add: UpdateFile join)
    then show ?thesis
      using assms(2,3) Inr UpdateFile by (intro apply_update_accounts [OF assms(1)]) (auto simp: apply_hunk_def)
  qed (use assms Inr apply_add_accounts [OF assms(1)] apply_delete_accounts [OF assms(1)] in \<open>auto simp: apply_hunk_def\<close>)
qed

lemma hunks_loop_accounts:
  assumes "inv (fst st)" "hunks_loop ops fs options cwd hs a st = (st', r)" "follow_symlinks options = follow"
    and "list_all (\<lambda>h. \<not> moves_onto_itself ops cwd h) hs"
  shows "accounts inv files st st'"
  using assms(1,2,4)
proof (induction hs arbitrary: a st)
  case Nil
  then show ?case by (cases st) (auto intro: accounts_stay)
next
  case (Cons h hs)
  obtain st1 r1 where h: "apply_hunk ops fs options cwd h st = (st1, r1)" by fastforce
  have one: "accounts inv files st st1"
    using apply_hunk_accounts [of "fst st" ops options cwd h "snd st" st1 r1] Cons.prems h assms(3) by simp
  then have "inv (fst st1)" by (simp add: accounts_def)
  then show ?case
    using Cons.prems h one Cons.IH [of st1] by (cases r1) (auto intro: accounts_trans)
qed

lemma apply_hunks_accounts:
  assumes "inv s" "apply_hunks_with_options ops fs options cwd hs (s, out, err) = ((s', out', err'), r)"
    and "follow_symlinks options = follow" "list_all (\<lambda>h. \<not> moves_onto_itself ops cwd h) hs"
  shows "accounts inv files (s, empty_delta) (s', result_delta r)"
proof -
  obtain s1 d1 r1 where h: "apply_hunks_to_files ops fs options cwd hs (s, empty_delta) = ((s1, d1), r1)" by (metis surj_pair)
  have "accounts inv files (s, empty_delta) (s1, d1)"
  proof (cases "hs = []")
    case True
    then show ?thesis using h assms(1) by (auto simp: apply_hunks_to_files_def intro: accounts_stay)
  next
    case False
    then have "hunks_loop ops fs options cwd hs \<lparr>added = [], modified = [], deleted = []\<rparr> (s, empty_delta) = ((s1, d1), r1)"
      using h by (simp add: apply_hunks_to_files_def)
    from hunks_loop_accounts [OF _ this assms(3,4)] show ?thesis using assms(1) by simp
  qed
  moreover have "s' = s1" "result_delta r = d1"
    using assms(2) h by (auto simp: apply_hunks_with_options_def result_delta_def split: sum.splits prod.splits anyhow_error.splits apply_patch_error.splits)
  ultimately show ?thesis by simp
qed

end

context text_files
begin

lemma apply_move_writes:
  assumes "inv s" "apply_move ops fs follow u dest original new (s, d) = ((s', d'), Inr ())"
    and "files s u = Some original" "dest \<noteq> u"
  shows "files s' dest = Some new"
proof -
  obtain s1 r1 where w: "write_file_with_missing_parent_retry ops fs dest new follow s = (s1, r1)" by fastforce
  note inv1 = retry_Ok [OF assms(1) w]
  obtain d1 s2 d2 r2 where rm: "remove_original ops fs follow (lit ''Failed to remove original '') u (Some original) (s1, d1) = ((s2, d2), r2)"
    and ok: "r1 = Inr ()" "r2 = Inr ()" "s' = s2"
    using assms(2) w by (auto simp: apply_move_def Let_def split: sum.splits prod.splits)
  have "remove fs u False False follow s1 = (s2, Inr ())"
    using rm ok(2) by (auto simp: remove_original_def split: sum.splits prod.splits)
  moreover have "files s1 = (files s)(dest \<mapsto> new)" using inv1(2) ok(1) by simp
  ultimately show ?thesis
    using remove_frame [OF inv1(1), of u s2 "Inr ()" original dest] assms(3,4) ok(3) by simp
qed

end

text \<open>A parsed patch on the direct file system is accounted for by its delta.\<close>

lemma direct_patch_accounts:
  assumes "os_inv s" "parse_patch txt = Inr args" "follow_symlinks options"
    and "list_all (\<lambda>h. \<not> moves_onto_itself ops cwd h) (args_hunks args)"
    and "apply_patch_with_options ops (direct_fs nf f) txt options cwd (s, out, err) = ((s', out', err'), r)"
  shows "accounts os_inv os_files (s, empty_delta) (s', result_delta r)"
proof -
  have "apply_hunks_with_options ops (direct_fs nf f) options cwd (args_hunks args) (s, out, err) = ((s', out', err'), r)"
    using assms(2,5) by (simp add: apply_patch_with_options_def)
  from direct.apply_hunks_accounts [OF assms(1) this] assms(3,4) show ?thesis by simp
qed

section \<open>Properties\<close>

text \<open>
  C3. An exact delta is a faithful account of what a patch did to the files: on the direct file
  system, under any faults of the operating system and whether the patch succeeds or fails half way,
  if the delta reports itself exact then each recorded change names the contents it replaced, and
  replaying the changes on the files before gives the files after. Excluded are patches that rename
  a file to its own path.
\<close>

theorem exact_delta_replays:
  assumes "os_inv s" "parse_patch txt = Inr args" "follow_symlinks options"
    and "list_all (\<lambda>h. \<not> moves_onto_itself ops cwd h) (args_hunks args)"
    and "apply_patch_with_options ops (direct_fs nf f) txt options cwd (s, out, err) = ((s', out', err'), r)"
    and "delta_exact (result_delta r)"
  shows "os_inv s' \<and> delta_run (os_files s) (delta_changes (result_delta r)) (os_files s')"
  using direct_patch_accounts [OF assms(1-5)] assms(6) by (auto simp: accounts_def empty_delta_def)

text \<open>
  A patch that renames a file to its own path loses the file: the hunk succeeds, the file is
  gone afterwards, and the delta nevertheless records an update with new contents at that path.
\<close>

lemma self_move_deletes_file:
  assumes "os_inv s" "follow_symlinks options"
    and "uri_join ops cwd path = Inr u" "uri_join ops cwd dest = Inr u"
    and "apply_hunk ops (direct_fs nf f) options cwd (UpdateFile path (Some dest) chunks) (s, d) = ((s', d'), Inr ())"
  shows "os_files s' u = None
    \<and> (\<exists>old overwritten new. last (delta_changes d') = \<lparr>change_path = u, file_change = AppliedUpdate (Some u) old overwritten new\<rparr>)"
proof -
  let ?fs = "direct_fs nf f"
  define d1 where "d1 = d\<lparr>delta_exact := note_existing_path_delta_support ?fs u True s (delta_exact d)\<rparr>"
  obtain old new where mv: "apply_move ops ?fs True u u old new (s, d1) = ((s', d'), Inr ())"
    using assms(2-5) by (auto simp: apply_hunk_def apply_update_def d1_def Let_def split: sum.splits)
  obtain exact overwritten where ro: "read_optional_file_text_for_delta ?fs u True s (delta_exact d1) = (exact, overwritten)"
    by fastforce
  obtain s1 r1 where w: "write_file_with_missing_parent_retry ops ?fs u new True s = (s1, r1)" by fastforce
  note inv1 = direct.retry_Ok [OF assms(1) w]
  obtain s2 d2 r2 where rm: "remove_original ops ?fs True (lit ''Failed to remove original '') u (Some old)
      (s1, push_change u (AppliedAdd new overwritten) (d1\<lparr>delta_exact := exact\<rparr>)) = ((s2, d2), r2)"
    by (metis surj_pair)
  have r1: "r1 = Inr ()" and r2: "r2 = Inr ()" and st: "s' = s2"
    "d' = d2\<lparr>delta_changes := (delta_changes d2)[length (delta_changes d1) :=
        \<lparr>change_path = u, file_change = AppliedUpdate (Some u) old overwritten new\<rparr>]\<rparr>"
    using mv by (auto simp: apply_move_def ro w rm Let_def split: sum.splits)
  have "os_files s1 u = Some new" using inv1(2) r1 by simp
  moreover obtain "remove ?fs u False False True s1 = (s2, Inr ())"
    using rm r2 by (auto simp: remove_original_def split: sum.splits prod.splits)
  ultimately have "os_files s2 u = None" using direct.remove_Ok [OF inv1(1)] by fastforce
  moreover have "delta_changes d2 = delta_changes d1 @ [\<lparr>change_path = u, file_change = AppliedAdd new overwritten\<rparr>]"
    using direct.remove_original_accounts(2) [OF inv1(1) rm] by (simp add: push_change_def)
  ultimately show ?thesis by (auto simp: st)
qed

text \<open>
  What is shown for approval is what is written: when a verified update of a file promises new
  contents and the hunk is then applied in the same mode to the same state, the file, or the
  destination of the move, has exactly those contents.
\<close>

lemma verified_update_is_written:
  assumes "os_inv s" "follow_symlinks options" "resolve_path ops cwd (UpdateFile path move_path chunks) = Inr u"
    and "verify_hunk ops (direct_fs nf f) text_diff cwd (update_file_mode options) s (UpdateFile path move_path chunks) u
        = Inr (ChangeUpdate diff dest new)"
    and "dest \<noteq> Some u"
    and "apply_hunk ops (direct_fs nf f) options cwd (UpdateFile path move_path chunks) (s, d) = ((s', d'), Inr ())"
  shows "os_files s' (case dest of None \<Rightarrow> u | Some v \<Rightarrow> v) = Some new"
proof -
  let ?fs = "direct_fs nf f"
  define d1 where "d1 = d\<lparr>delta_exact := note_existing_path_delta_support ?fs u True s (delta_exact d)\<rparr>"
  obtain old where derive: "derive_new_contents_from_chunks ops ?fs u chunks (update_file_mode options) True s = Inr (old, new)"
    using assms(4) by (auto simp: verify_hunk_def unified_diff_from_chunks_with_mode_def
        unified_diff_from_chunks_with_context_and_mode_def res_iffs)
  note old = direct.derive_original [OF assms(1) derive]
  show ?thesis
  proof (cases dest)
    case None
    then have "move_path = None" using assms(4) by (auto simp: verify_hunk_def res_iffs split: option.splits)
    then have "apply_in_place ops ?fs True u old new (s, d1) = ((s', d'), Inr ())"
      using assms(2,3,6) derive by (simp add: apply_hunk_def apply_update_def d1_def)
    then show ?thesis using None direct.write_Ok [OF assms(1), of nf f u new s']
      by (auto simp: apply_in_place_def split: sum.splits prod.splits)
  next
    case (Some v)
    then obtain q where "move_path = Some q" "uri_join ops cwd q = Inr v"
      using assms(4) by (auto simp: verify_hunk_def res_iffs map_err_eq_Inr_iff split: option.splits)
    then have "apply_move ops ?fs True u v old new (s, d1) = ((s', d'), Inr ())"
      using assms(2,3,6) derive by (simp add: apply_hunk_def apply_update_def d1_def)
    then show ?thesis using Some assms(5) direct.apply_move_writes [OF assms(1) _ old] by auto
  qed
qed

section \<open>Witnesses\<close>

text \<open>Paths of the host in place of URIs, and an operating system without faults.\<close>

definition posix_ops :: "path uri_ops" where
  "posix_ops = \<lparr>uri_convention = \<lambda>_. Some PosixConvention, uri_join = \<lambda>base p. Inr (absolutize_from (path_of p) base),
     uri_parent = parent, uri_native = path_string\<rparr>"

definition no_os_faults :: os_faults where
  "no_os_faults = \<lparr>fault_read = \<lambda>_ _. None, fault_write = \<lambda>_ _. None, fault_create = \<lambda>_ _. None, fault_remove = \<lambda>_ _. None\<rparr>"

definition unsupported_fs :: "(os, path) executor_fs" where
  "unsupported_fs = \<lparr>read_file_text = \<lambda>_ _ _. Inl (OtherKind []), write_file = \<lambda>_ _ _ s. (s, Inl (OtherKind [])),
     create_directory = \<lambda>_ _ _ s. (s, Inl (OtherKind [])), get_metadata = \<lambda>_ _ _. Inl (OtherKind []),
     remove = \<lambda>_ _ _ _ s. (s, Inl (OtherKind []))\<rparr>"

definition sample_fs :: "(os, path) executor_fs" where
  "sample_fs = direct_fs unsupported_fs no_os_faults"

definition sample_dir :: path where
  "sample_dir = [RootDir, Normal (lit ''w'')]"

definition sample_os :: os where
  "sample_os = fst (write_file sample_fs (sample_dir @ [Normal (lit ''a'')]) (lit ''x'' @ [NL]) True
     (fst (create_directory sample_fs sample_dir True True [])))"

lemma sample_os_inv: "os_inv sample_os"
proof -
  have "os_inv []" by (simp add: os_inv_def)
  then show ?thesis
    unfolding sample_os_def sample_fs_def
    using direct.create_inv [OF _ surjective_pairing] direct.write_inv [OF _ surjective_pairing] by blast
qed

definition sample_move_patch :: "char list \<Rightarrow> rstr" where
  "sample_move_patch dest = join [NL] (map lit [''*** Begin Patch'', ''*** Update File: a'', ''*** Move to: '' @ dest, ''@@'', ''-x'', ''+y'',
     ''*** End Patch''])"

definition sample_writer :: writer where
  "sample_writer = \<lparr>written = [], refuses = None\<rparr>"

definition sample_move :: "char list \<Rightarrow> (os \<times> writer \<times> writer) \<times> (apply_patch_error \<times> path applied_patch_delta + path applied_patch_delta)" where
  "sample_move dest = apply_patch_with_options posix_ops sample_fs (sample_move_patch dest) default_patch_options sample_dir
     (sample_os, sample_writer, sample_writer)"

theorem exact_delta_replays_witness:
  "delta_run (os_files sample_os) (delta_changes (result_delta (snd (sample_move ''b'')))) (os_files (fst (fst (sample_move ''b''))))"
proof -
  have patch: "parse_patch (sample_move_patch ''b'') = Inr (projr (parse_patch (sample_move_patch ''b'')))" by code_simp
  have "follow_symlinks default_patch_options" by code_simp
  moreover have "list_all (\<lambda>h. \<not> moves_onto_itself posix_ops sample_dir h) (args_hunks (projr (parse_patch (sample_move_patch ''b''))))"
    by code_simp
  moreover have "apply_patch_with_options posix_ops (direct_fs unsupported_fs no_os_faults) (sample_move_patch ''b'') default_patch_options
      sample_dir (sample_os, sample_writer, sample_writer)
    = ((fst (fst (sample_move ''b'')), fst (snd (fst (sample_move ''b''))), snd (snd (fst (sample_move ''b'')))), snd (sample_move ''b''))"
    by (simp add: sample_move_def sample_fs_def)
  moreover have "delta_exact (result_delta (snd (sample_move ''b'')))" by code_simp
  ultimately show ?thesis using exact_delta_replays [OF sample_os_inv patch] by blast
qed

definition sample_update :: "rstr option \<Rightarrow> hunk" where
  "sample_update dest = UpdateFile (lit ''a'') dest [\<lparr>change_context = None, old_lines = [lit ''x''], new_lines = [lit ''y''],
     context_line_indices = [], is_end_of_file = False\<rparr>]"

definition sample_apply :: "rstr option \<Rightarrow> (os \<times> path applied_patch_delta) \<times> (anyhow_error + unit)" where
  "sample_apply dest = apply_hunk posix_ops sample_fs default_patch_options sample_dir (sample_update dest) (sample_os, empty_delta)"

end
