(* ===== verification/Diff_Tracker.thy ===== *)
theory Diff_Tracker
  imports Apply_Patch "HOL-Library.AList" "HOL-Library.List_Lexorder"
begin

text \<open>
  Model of \<open>engine/core/src/turn_diff_tracker.rs\<close>: the net diff of a turn, computed from the deltas of
  the patches that were applied, without reading the files again.

  A hash map is an association list with distinct keys, in the order in which it happens to iterate.
  The unified diff of two texts, the Git object id, and the relative spelling of a path are the
  parameters in \<open>diff_ops\<close>. The diff of two texts is taken as a function of them: the source stops the
  comparison after 100 ms and then uses a coarser diff, so a diff that runs into the limit may differ from
  one computed again. Revisions are natural numbers: a turn does not reach \<open>2 ^ 64\<close> of them.
\<close>

section \<open>State\<close>

record tracked_content =
  content_text :: rstr
  content_revision :: nat

record 'u tracked_path =
  environment :: rstr
  tracked_uri :: 'u

record 'u diff_cache_key =
  left_path :: "'u tracked_path"
  left_revision :: "nat option"
  right_path :: "'u tracked_path"
  right_revision :: "nat option"

record 'u turn_diff_tracker =
  valid :: bool
  display_roots :: "(rstr \<times> 'u) list"
  baseline_by_path :: "('u tracked_path \<times> tracked_content) list"
  current_by_path :: "('u tracked_path \<times> tracked_content) list"
  origin_by_current_path :: "('u tracked_path \<times> 'u tracked_path) list"
  next_revision :: nat
  rendered_diffs :: "('u diff_cache_key \<times> rstr option) list"
  unified_diff :: "rstr option"

record 'u diff_ops =
  text_unified_diff :: "rstr \<Rightarrow> rstr \<Rightarrow> rstr \<Rightarrow> rstr \<Rightarrow> rstr"
  git_blob_oid :: "rstr \<Rightarrow> rstr"
  relative_path_from :: "'u \<Rightarrow> 'u \<Rightarrow> rstr option"
  native_path_string :: "'u \<Rightarrow> rstr"

definition new_tracker :: "(rstr \<times> 'u) list \<Rightarrow> 'u turn_diff_tracker" where
  "new_tracker roots = \<lparr>valid = True,
     display_roots = foldl (\<lambda>m (env, root). AList.update env root m) [] roots, baseline_by_path = [], current_by_path = [],
     origin_by_current_path = [], next_revision = 0, rendered_diffs = [], unified_diff = None\<rparr>"

section \<open>Changes\<close>

definition tracks :: "('k \<times> 'v) list \<Rightarrow> 'k \<Rightarrow> bool" where
  "tracks m k \<longleftrightarrow> map_of m k \<noteq> None"

definition tracked_content_of :: "rstr \<Rightarrow> 'u turn_diff_tracker \<Rightarrow> tracked_content \<times> 'u turn_diff_tracker" where
  "tracked_content_of content t =
     (\<lparr>content_text = content, content_revision = next_revision t\<rparr>, t\<lparr>next_revision := next_revision t + 1\<rparr>)"

definition set_baseline :: "'u tracked_path \<Rightarrow> rstr \<Rightarrow> 'u turn_diff_tracker \<Rightarrow> 'u turn_diff_tracker" where
  "set_baseline p content t =
     (let (c, t') = tracked_content_of content t in t'\<lparr>baseline_by_path := AList.update p c (baseline_by_path t')\<rparr>)"

definition set_current :: "'u tracked_path \<Rightarrow> rstr \<Rightarrow> 'u turn_diff_tracker \<Rightarrow> 'u turn_diff_tracker" where
  "set_current p content t =
     (let (c, t') = tracked_content_of content t in t'\<lparr>current_by_path := AList.update p c (current_by_path t')\<rparr>)"

definition untracked :: "'u tracked_path \<Rightarrow> 'u turn_diff_tracker \<Rightarrow> bool" where
  "untracked p t \<longleftrightarrow> \<not> tracks (current_by_path t) p \<and> \<not> tracks (baseline_by_path t) p"

definition forget_origin :: "'u tracked_path \<Rightarrow> 'u turn_diff_tracker \<Rightarrow> 'u turn_diff_tracker" where
  "forget_origin p t = t\<lparr>origin_by_current_path := AList.delete p (origin_by_current_path t)\<rparr>"

text \<open>The baseline of an untracked path is recorded when there is a text to record.\<close>

definition note_baseline :: "'u tracked_path \<Rightarrow> rstr option \<Rightarrow> 'u turn_diff_tracker \<Rightarrow> 'u turn_diff_tracker" where
  "note_baseline p content t =
     (case content of
        Some text_before \<Rightarrow> if untracked p t then set_baseline p text_before t else t
      | None \<Rightarrow> t)"

definition tracker_add :: "'u tracked_path \<Rightarrow> rstr \<Rightarrow> rstr option \<Rightarrow> 'u turn_diff_tracker \<Rightarrow> 'u turn_diff_tracker" where
  "tracker_add p content overwritten t = set_current p content (note_baseline p overwritten (forget_origin p t))"

definition tracker_delete :: "'u tracked_path \<Rightarrow> rstr \<Rightarrow> 'u turn_diff_tracker \<Rightarrow> 'u turn_diff_tracker" where
  "tracker_delete p content t =
     (let removed = tracks (current_by_path t) p;
          t = t\<lparr>current_by_path := AList.delete p (current_by_path t)\<rparr>;
          t = (if \<not> removed \<and> \<not> tracks (baseline_by_path t) p then set_baseline p content t else t) in
      forget_origin p t)"

definition tracker_move ::
    "'u tracked_path \<Rightarrow> 'u tracked_path \<Rightarrow> rstr option \<Rightarrow> rstr \<Rightarrow> 'u turn_diff_tracker \<Rightarrow> 'u turn_diff_tracker" where
  "tracker_move source dest overwritten new_content t =
     (let t = note_baseline dest overwritten t;
          origin = (case map_of (origin_by_current_path t) source of Some p \<Rightarrow> p | None \<Rightarrow> source);
          t = forget_origin source t;
          t = t\<lparr>current_by_path := AList.delete source (current_by_path t)\<rparr>;
          t = forget_origin dest (set_current dest new_content t) in
      if dest \<noteq> origin then t\<lparr>origin_by_current_path := AList.update dest origin (origin_by_current_path t)\<rparr> else t)"

definition tracker_update ::
    "'u tracked_path \<Rightarrow> 'u tracked_path option \<Rightarrow> rstr \<Rightarrow> rstr option \<Rightarrow> rstr \<Rightarrow> 'u turn_diff_tracker \<Rightarrow> 'u turn_diff_tracker" where
  "tracker_update source move_path old_content overwritten new_content t =
     (let t = note_baseline source (Some old_content) t in
      case move_path of
        Some dest \<Rightarrow> tracker_move source dest overwritten new_content t
      | None \<Rightarrow> set_current source new_content t)"

definition apply_change :: "rstr \<Rightarrow> 'u applied_patch_change \<Rightarrow> 'u turn_diff_tracker \<Rightarrow> 'u turn_diff_tracker" where
  "apply_change env c t =
     (let source = \<lparr>environment = env, tracked_uri = change_path c\<rparr> in
      case file_change c of
        AppliedAdd content overwritten \<Rightarrow> tracker_add source content overwritten t
      | AppliedDelete content \<Rightarrow> tracker_delete source content t
      | AppliedUpdate move_path old_content overwritten new_content \<Rightarrow>
          tracker_update source (map_option (\<lambda>u. \<lparr>environment = env, tracked_uri = u\<rparr>) move_path)
            old_content overwritten new_content t)"

section \<open>Rendering\<close>

definition display_path :: "'u diff_ops \<Rightarrow> 'u turn_diff_tracker \<Rightarrow> 'u tracked_path \<Rightarrow> rstr" where
  "display_path ops t p =
     (let display =
        (case (case map_of (display_roots t) (environment p) of
                 Some root \<Rightarrow> relative_path_from ops (tracked_uri p) root
               | None \<Rightarrow> None) of
           Some rel \<Rightarrow> rel
         | None \<Rightarrow> native_path_string ops (tracked_uri p)) in
      if length (display_roots t) > 1 \<and> environment p \<noteq> [] then environment p @ [SLASH] @ display else display)"

definition rename_pairs :: "'u turn_diff_tracker \<Rightarrow> ('u tracked_path \<times> 'u tracked_path) list" where
  "rename_pairs t =
     fold (\<lambda>(dest, origin) pairs.
         if dest = origin \<or> tracks (current_by_path t) origin \<or> \<not> tracks (current_by_path t) dest
           \<or> \<not> tracks (baseline_by_path t) origin \<or> tracks (baseline_by_path t) dest
         then pairs else AList.update origin dest pairs)
       (origin_by_current_path t) []"

definition ZERO_OID :: rstr where
  "ZERO_OID = replicate 40 48"

definition backslash_to_slash :: "rstr \<Rightarrow> rstr" where
  "backslash_to_slash s = map (\<lambda>c. if c = 92 then SLASH else c) s"

definition render_diff ::
    "'u diff_ops \<Rightarrow> 'u turn_diff_tracker \<Rightarrow> 'u tracked_path \<Rightarrow> rstr option \<Rightarrow> 'u tracked_path \<Rightarrow> rstr option \<Rightarrow> rstr option" where
  "render_diff ops t left left_content right right_content =
     (if left_content = right_content then None
      else
        let left_display = backslash_to_slash (display_path ops t left);
            right_display = backslash_to_slash (display_path ops t right);
            oid = (\<lambda>c. case c of None \<Rightarrow> ZERO_OID | Some content \<Rightarrow> git_blob_oid ops content);
            mode = (case (left_content, right_content) of
                (None, Some _) \<Rightarrow> lit ''new file mode 100644'' @ [NL]
              | (Some _, None) \<Rightarrow> lit ''deleted file mode 100644'' @ [NL]
              | _ \<Rightarrow> []);
            old_header = (if left_content \<noteq> None then lit ''a/'' @ left_display else lit ''/dev/null'');
            new_header = (if right_content \<noteq> None then lit ''b/'' @ right_display else lit ''/dev/null'');
            or_empty = (\<lambda>c. case c of None \<Rightarrow> [] | Some content \<Rightarrow> content) in
        Some (lit ''diff --git a/'' @ left_display @ lit '' b/'' @ right_display @ [NL] @ mode
          @ lit ''index '' @ oid left_content @ lit ''..'' @ oid right_content @ [NL]
          @ text_unified_diff ops (or_empty left_content) (or_empty right_content) old_header new_header))"

definition cache_key ::
    "'u turn_diff_tracker \<Rightarrow> 'u tracked_path \<Rightarrow> 'u tracked_path \<Rightarrow> 'u diff_cache_key" where
  "cache_key t left right = \<lparr>left_path = left, left_revision = map_option content_revision (map_of (baseline_by_path t) left),
     right_path = right, right_revision = map_option content_revision (map_of (current_by_path t) right)\<rparr>"

definition fresh_diff :: "'u diff_ops \<Rightarrow> 'u turn_diff_tracker \<Rightarrow> 'u tracked_path \<Rightarrow> 'u tracked_path \<Rightarrow> rstr option" where
  "fresh_diff ops t left right = render_diff ops t left (map_option content_text (map_of (baseline_by_path t) left))
     right (map_option content_text (map_of (current_by_path t) right))"

text \<open>The paths in the order in which they are shown, and the other side of the diff of each.\<close>

definition sorted_paths :: "'u diff_ops \<Rightarrow> 'u turn_diff_tracker \<Rightarrow> 'u tracked_path list" where
  "sorted_paths ops t =
     remdups_adj (sort_key (display_path ops t) (map fst (baseline_by_path t) @ map fst (current_by_path t)))"

definition push_diff :: "rstr \<Rightarrow> rstr option \<Rightarrow> rstr" where
  "push_diff aggregated rendered =
     (case rendered of
        None \<Rightarrow> aggregated
      | Some diff \<Rightarrow> let a = aggregated @ diff in if ends_with a [NL] then a else a @ [NL])"

record 'u refresh_state =
  handled :: "'u tracked_path list"
  previous :: "('u diff_cache_key \<times> rstr option) list"
  renderings :: "('u diff_cache_key \<times> rstr option) list"
  aggregated :: rstr

definition refresh_step ::
    "'u diff_ops \<Rightarrow> 'u turn_diff_tracker \<Rightarrow> ('u tracked_path \<times> 'u tracked_path) list \<Rightarrow> 'u tracked_path \<Rightarrow> 'u refresh_state
     \<Rightarrow> 'u refresh_state" where
  "refresh_step ops t pairs p st =
     (if p \<in> set (handled st) then st
      else
        let st = st\<lparr>handled := p # handled st\<rparr> in
        if p \<in> set (map snd pairs) then st
        else
          let right = (case map_of pairs p of Some dest \<Rightarrow> dest | None \<Rightarrow> p);
              st = (if map_of pairs p \<noteq> None then st\<lparr>handled := right # handled st\<rparr> else st);
              key = cache_key t p right;
              rendered = (case map_of (previous st) key of Some r \<Rightarrow> r | None \<Rightarrow> fresh_diff ops t p right) in
          st\<lparr>previous := AList.delete key (previous st), aggregated := push_diff (aggregated st) rendered,
             renderings := AList.update key rendered (renderings st)\<rparr>)"

definition refresh_unified_diff :: "'u diff_ops \<Rightarrow> 'u turn_diff_tracker \<Rightarrow> 'u turn_diff_tracker" where
  "refresh_unified_diff ops t =
     (let pairs = rename_pairs t;
          st = fold (refresh_step ops t pairs) (sorted_paths ops t)
            \<lparr>handled = [], previous = rendered_diffs t, renderings = [], aggregated = []\<rparr> in
      t\<lparr>rendered_diffs := renderings st, unified_diff := (if aggregated st \<noteq> [] then Some (aggregated st) else None)\<rparr>)"

definition invalidate :: "'u turn_diff_tracker \<Rightarrow> 'u turn_diff_tracker" where
  "invalidate t = t\<lparr>valid := False, rendered_diffs := [], unified_diff := None\<rparr>"

definition track_delta :: "'u diff_ops \<Rightarrow> rstr \<Rightarrow> 'u applied_patch_delta \<Rightarrow> 'u turn_diff_tracker \<Rightarrow> 'u turn_diff_tracker" where
  "track_delta ops env d t =
     (if \<not> valid t then t
      else if \<not> delta_exact d then invalidate t
      else refresh_unified_diff ops (fold (apply_change env) (delta_changes d) t))"

section \<open>Following the files\<close>

definition current_text :: "'u turn_diff_tracker \<Rightarrow> 'u tracked_path \<Rightarrow> rstr option" where
  "current_text t p = map_option content_text (map_of (current_by_path t) p)"

definition baseline_text :: "'u turn_diff_tracker \<Rightarrow> 'u tracked_path \<Rightarrow> rstr option" where
  "baseline_text t p = map_option content_text (map_of (baseline_by_path t) p)"

text \<open>
  The tracker knows the text of a tracked path at the start of the turn and now; an untracked path
  has the text it had at the start.
\<close>

definition agrees :: "rstr option \<Rightarrow> rstr option \<Rightarrow> rstr option \<Rightarrow> rstr option \<Rightarrow> bool" where
  "agrees current baseline before now \<longleftrightarrow>
     (if current = None \<and> baseline = None then now = before else now = current \<and> before = baseline)"

definition follows :: "'u turn_diff_tracker \<Rightarrow> ('u tracked_path \<Rightarrow> rstr option) \<Rightarrow> ('u tracked_path \<Rightarrow> rstr option) \<Rightarrow> bool" where
  "follows t G0 G \<longleftrightarrow> (\<forall>p. agrees (current_text t p) (baseline_text t p) (G0 p) (G p))"

lemma text_set_current:
  "current_text (set_current p c t) = (current_text t)(p \<mapsto> c)" "baseline_text (set_current p c t) = baseline_text t"
  by (auto simp: current_text_def baseline_text_def set_current_def tracked_content_of_def update_conv')

lemma text_set_baseline:
  "current_text (set_baseline p c t) = current_text t" "baseline_text (set_baseline p c t) = (baseline_text t)(p \<mapsto> c)"
  by (auto simp: current_text_def baseline_text_def set_baseline_def tracked_content_of_def update_conv')

lemma text_forget_origin: "current_text (forget_origin p t) = current_text t" "baseline_text (forget_origin p t) = baseline_text t"
  by (auto simp: current_text_def baseline_text_def forget_origin_def)

lemma text_origin_update:
  "current_text (t\<lparr>origin_by_current_path := m\<rparr>) = current_text t" "baseline_text (t\<lparr>origin_by_current_path := m\<rparr>) = baseline_text t"
  by (auto simp: current_text_def baseline_text_def)

lemma text_delete_current:
  "current_text (t\<lparr>current_by_path := AList.delete p (current_by_path t)\<rparr>) = (current_text t)(p := None)"
  "baseline_text (t\<lparr>current_by_path := AList.delete p (current_by_path t)\<rparr>) = baseline_text t"
  by (auto simp: current_text_def baseline_text_def delete_conv')

lemma untracked_text: "untracked p t \<longleftrightarrow> current_text t p = None \<and> baseline_text t p = None"
  by (simp add: untracked_def tracks_def current_text_def baseline_text_def)

lemma tracks_text:
  "tracks (current_by_path t) p \<longleftrightarrow> current_text t p \<noteq> None" "tracks (baseline_by_path t) p \<longleftrightarrow> baseline_text t p \<noteq> None"
  by (simp_all add: tracks_def current_text_def baseline_text_def)

lemma text_note_baseline:
  "current_text (note_baseline p c t) = current_text t"
  "baseline_text (note_baseline p c t) = (if c \<noteq> None \<and> untracked p t then (baseline_text t)(p := c) else baseline_text t)"
  by (auto simp: note_baseline_def text_set_baseline split: option.splits)

lemmas tracker_text = text_set_current text_set_baseline text_forget_origin text_origin_update text_delete_current
  text_note_baseline

lemma followsD: "follows t G0 G \<Longrightarrow> agrees (current_text t p) (baseline_text t p) (G0 p) (G p)"
  by (simp add: follows_def)

lemma followsI: "(\<And>q. agrees (current_text t q) (baseline_text t q) (G0 q) (G q)) \<Longrightarrow> follows t G0 G"
  by (simp add: follows_def)

lemma follows_add:
  assumes "follows t G0 G" "G p = overwritten"
  shows "follows (tracker_add p c overwritten t) G0 (G(p \<mapsto> c))"
proof (rule followsI)
  fix q show "agrees (current_text (tracker_add p c overwritten t) q) (baseline_text (tracker_add p c overwritten t) q)
      (G0 q) ((G(p \<mapsto> c)) q)"
    using followsD [OF assms(1), of q] assms(2)
    by (cases "q = p") (auto simp: agrees_def tracker_add_def tracker_text untracked_text split: if_splits)
qed

lemma follows_delete:
  assumes "follows t G0 G" "G p = Some c"
  shows "follows (tracker_delete p c t) G0 (G(p := None))"
proof (rule followsI)
  fix q show "agrees (current_text (tracker_delete p c t) q) (baseline_text (tracker_delete p c t) q)
      (G0 q) ((G(p := None)) q)"
    using followsD [OF assms(1), of q] assms(2)
    by (cases "q = p") (auto simp: agrees_def tracker_delete_def tracker_text tracks_text Let_def split: if_splits)
qed

lemma follows_in_place:
  assumes "follows t G0 G" "G p = Some old"
  shows "follows (tracker_update p None old overwritten c t) G0 (G(p \<mapsto> c))"
proof (rule followsI)
  fix q show "agrees (current_text (tracker_update p None old overwritten c t) q)
      (baseline_text (tracker_update p None old overwritten c t) q) (G0 q) ((G(p \<mapsto> c)) q)"
    using followsD [OF assms(1), of q] assms(2)
    by (cases "q = p") (auto simp: agrees_def tracker_update_def tracker_text untracked_text split: if_splits)
qed

lemma text_tracker_move:
  "current_text (tracker_move source dest overwritten c t) = (current_text t)(source := None, dest \<mapsto> c)"
  "baseline_text (tracker_move source dest overwritten c t) = baseline_text (note_baseline dest overwritten t)"
  by (simp_all add: tracker_move_def Let_def tracker_text)

lemma follows_move:
  assumes "follows t G0 G" "G source = Some old" "G dest = overwritten" "dest \<noteq> source"
  shows "follows (tracker_update source (Some dest) old overwritten c t) G0 (G(source := None, dest \<mapsto> c))"
proof (rule followsI)
  fix q show "agrees (current_text (tracker_update source (Some dest) old overwritten c t) q)
      (baseline_text (tracker_update source (Some dest) old overwritten c t) q) (G0 q) ((G(source := None, dest \<mapsto> c)) q)"
    using followsD [OF assms(1), of q] assms(2-4)
    by (cases "q = dest"; cases "q = source")
      (auto simp: agrees_def tracker_update_def text_tracker_move tracker_text untracked_text split: if_splits)
qed

text \<open>The files of one environment among those of all.\<close>

definition in_environment :: "rstr \<Rightarrow> ('u tracked_path \<Rightarrow> 'a) \<Rightarrow> 'u \<Rightarrow> 'a" where
  "in_environment env G u = G \<lparr>environment = env, tracked_uri = u\<rparr>"

definition with_environment :: "rstr \<Rightarrow> ('u \<Rightarrow> 'a) \<Rightarrow> ('u tracked_path \<Rightarrow> 'a) \<Rightarrow> 'u tracked_path \<Rightarrow> 'a" where
  "with_environment env F G p = (if environment p = env then F (tracked_uri p) else G p)"

lemma with_environment_upd:
  "with_environment env (F(u := x)) G = (with_environment env F G)(\<lparr>environment = env, tracked_uri = u\<rparr> := x)"
proof
  fix p :: "'a tracked_path"
  show "with_environment env (F(u := x)) G p = ((with_environment env F G)(\<lparr>environment = env, tracked_uri = u\<rparr> := x)) p"
    by (cases p) (simp add: with_environment_def)
qed

lemma with_in_environment: "with_environment env (in_environment env G) G = G"
proof
  fix p :: "'a tracked_path"
  show "with_environment env (in_environment env G) G p = G p"
    by (cases p) (simp add: with_environment_def in_environment_def)
qed

lemma with_with_environment: "with_environment env F (with_environment env F' G) = with_environment env F G"
  by (auto simp: with_environment_def)

lemma in_with_environment: "in_environment env (with_environment env F G) = F"
  by (auto simp: with_environment_def in_environment_def)

lemma follows_change:
  assumes "follows t G0 G" "change_fits c (in_environment env G)"
  shows "follows (apply_change env c t) G0 (with_environment env (replay_change c (in_environment env G)) G)"
proof -
  obtain u fc where c: "c = \<lparr>change_path = u, file_change = fc\<rparr>" by (cases c)
  show ?thesis
  proof (cases fc)
    case (AppliedUpdate move_path old overwritten new)
    then show ?thesis using assms
      by (cases move_path) (auto simp: c apply_change_def with_environment_upd with_in_environment in_environment_def
          intro: follows_in_place follows_move)
  qed (use assms in \<open>auto simp: c apply_change_def with_environment_upd with_in_environment in_environment_def
      intro: follows_add follows_delete\<close>)
qed

lemma follows_changes:
  "follows t G0 G \<Longrightarrow> delta_run (in_environment env G) cs F' \<Longrightarrow>
    follows (fold (apply_change env) cs t) G0 (with_environment env F' G)"
proof (induction cs arbitrary: t G)
  case Nil
  then show ?case by (simp add: with_in_environment)
next
  case (Cons c cs)
  let ?G = "with_environment env (replay_change c (in_environment env G)) G"
  have "follows (apply_change env c t) G0 ?G" using Cons.prems by (intro follows_change) simp_all
  then show ?case using Cons.IH [of "apply_change env c t" ?G] Cons.prems(2)
    by (simp add: in_with_environment with_with_environment)
qed

lemma text_refresh: "current_text (refresh_unified_diff ops t) = current_text t" "baseline_text (refresh_unified_diff ops t) = baseline_text t"
  by (simp_all add: refresh_unified_diff_def Let_def current_text_def baseline_text_def fun_eq_iff)

lemma follows_refresh: "follows (refresh_unified_diff ops t) G0 G \<longleftrightarrow> follows t G0 G"
  by (simp add: follows_def text_refresh)

section \<open>The cache of renderings\<close>

definition other_side :: "('u tracked_path \<times> 'u tracked_path) list \<Rightarrow> 'u tracked_path \<Rightarrow> 'u tracked_path" where
  "other_side pairs p = (case map_of pairs p of Some dest \<Rightarrow> dest | None \<Rightarrow> p)"

text \<open>The reference: the diff of every shown path rendered anew.\<close>

fun shown_paths ::
    "('u tracked_path \<times> 'u tracked_path) list \<Rightarrow> 'u tracked_path list \<Rightarrow> 'u tracked_path list \<Rightarrow> 'u tracked_path list" where
  "shown_paths pairs seen [] = []"
| "shown_paths pairs seen (p # ps) =
     (if p \<in> set seen then shown_paths pairs seen ps
      else if p \<in> set (map snd pairs) then shown_paths pairs (p # seen) ps
      else p # shown_paths pairs (if map_of pairs p \<noteq> None then other_side pairs p # p # seen else p # seen) ps)"

definition reference_diff :: "'u diff_ops \<Rightarrow> 'u turn_diff_tracker \<Rightarrow> rstr option" where
  "reference_diff ops t =
     (let pairs = rename_pairs t;
          a = fold (\<lambda>p a. push_diff a (fresh_diff ops t p (other_side pairs p))) (shown_paths pairs [] (sorted_paths ops t)) [] in
      if a \<noteq> [] then Some a else None)"

definition coherent :: "'u diff_ops \<Rightarrow> 'u turn_diff_tracker \<Rightarrow> ('u diff_cache_key \<times> rstr option) list \<Rightarrow> bool" where
  "coherent ops t cache \<longleftrightarrow> (\<forall>l q r. map_of cache (cache_key t l q) = Some r \<longrightarrow> r = fresh_diff ops t l q)"

definition current_entries :: "'u diff_ops \<Rightarrow> 'u turn_diff_tracker \<Rightarrow> ('u diff_cache_key \<times> rstr option) list \<Rightarrow> bool" where
  "current_entries ops t cache \<longleftrightarrow>
     (\<forall>k r. map_of cache k = Some r \<longrightarrow> (\<exists>l q. k = cache_key t l q \<and> r = fresh_diff ops t l q))"

lemma refresh_step_shown:
  assumes "coherent ops t (previous st)" "p \<notin> set (handled st)" "p \<notin> set (map snd pairs)"
  shows "refresh_step ops t pairs p st = st\<lparr>
    handled := (if map_of pairs p \<noteq> None then other_side pairs p # p # handled st else p # handled st),
    previous := AList.delete (cache_key t p (other_side pairs p)) (previous st),
    renderings := AList.update (cache_key t p (other_side pairs p)) (fresh_diff ops t p (other_side pairs p)) (renderings st),
    aggregated := push_diff (aggregated st) (fresh_diff ops t p (other_side pairs p))\<rparr>"
proof -
  let ?k = "cache_key t p (other_side pairs p)"
  have "(case map_of (previous st) ?k of Some r \<Rightarrow> r | None \<Rightarrow> fresh_diff ops t p (other_side pairs p))
      = fresh_diff ops t p (other_side pairs p)"
    using assms(1) by (auto simp: coherent_def split: option.splits)
  then show ?thesis
    using assms(2,3) by (simp add: refresh_step_def Let_def other_side_def [symmetric])
qed

lemma coherent_delete: "coherent ops t cache \<Longrightarrow> coherent ops t (AList.delete k cache)"
  by (auto simp: coherent_def delete_conv' split: if_splits)

lemma current_entries_update:
  "current_entries ops t cache \<Longrightarrow> current_entries ops t (AList.update (cache_key t l q) (fresh_diff ops t l q) cache)"
  by (auto simp: current_entries_def update_conv' split: if_splits)

lemma refresh_fold:
  assumes "coherent ops t (previous st)" "current_entries ops t (renderings st)"
  shows "aggregated (fold (refresh_step ops t pairs) ps st)
      = fold (\<lambda>p a. push_diff a (fresh_diff ops t p (other_side pairs p))) (shown_paths pairs (handled st) ps) (aggregated st)
    \<and> current_entries ops t (renderings (fold (refresh_step ops t pairs) ps st))"
  using assms
proof (induction ps arbitrary: st)
  case (Cons p ps)
  consider (seen) "p \<in> set (handled st)" | (paired) "p \<notin> set (handled st)" "p \<in> set (map snd pairs)"
    | (shown) "p \<notin> set (handled st)" "p \<notin> set (map snd pairs)" by blast
  then show ?case
  proof cases
    case seen
    then have "refresh_step ops t pairs p st = st" by (simp add: refresh_step_def)
    then show ?thesis using Cons seen by simp
  next
    case paired
    then have "refresh_step ops t pairs p st = st\<lparr>handled := p # handled st\<rparr>" by (simp add: refresh_step_def Let_def)
    then show ?thesis using Cons.IH [of "st\<lparr>handled := p # handled st\<rparr>"] Cons.prems paired by simp
  next
    case shown
    let ?st = "refresh_step ops t pairs p st"
    note st = refresh_step_shown [OF Cons.prems(1) shown]
    have "coherent ops t (previous ?st)" "current_entries ops t (renderings ?st)"
      using Cons.prems by (simp_all add: st coherent_delete current_entries_update)
    from Cons.IH [OF this] shown show ?thesis by (simp add: st)
  qed
qed simp

text \<open>A revision stands for one text, whichever map or cache entry still mentions it.\<close>

definition texts_known :: "'u turn_diff_tracker \<Rightarrow> (nat \<Rightarrow> rstr) \<Rightarrow> ('u tracked_path \<times> tracked_content) list \<Rightarrow> bool" where
  "texts_known t h m \<longleftrightarrow>
     (\<forall>p c. map_of m p = Some c \<longrightarrow> content_revision c < next_revision t \<and> content_text c = h (content_revision c))"

definition entry_ok :: "'u diff_ops \<Rightarrow> 'u turn_diff_tracker \<Rightarrow> (nat \<Rightarrow> rstr) \<Rightarrow> 'u diff_cache_key \<Rightarrow> rstr option \<Rightarrow> bool" where
  "entry_ok ops t h k r \<longleftrightarrow>
     pred_option (\<lambda>n. n < next_revision t) (left_revision k) \<and> pred_option (\<lambda>n. n < next_revision t) (right_revision k)
     \<and> r = render_diff ops t (left_path k) (map_option h (left_revision k)) (right_path k) (map_option h (right_revision k))"

definition cache_inv :: "'u diff_ops \<Rightarrow> 'u turn_diff_tracker \<Rightarrow> (nat \<Rightarrow> rstr) \<Rightarrow> bool" where
  "cache_inv ops t h \<longleftrightarrow> texts_known t h (baseline_by_path t) \<and> texts_known t h (current_by_path t)
     \<and> (\<forall>k r. map_of (rendered_diffs t) k = Some r \<longrightarrow> entry_ok ops t h k r)"

definition cache_ok :: "'u diff_ops \<Rightarrow> 'u turn_diff_tracker \<Rightarrow> bool" where
  "cache_ok ops t \<longleftrightarrow> (\<exists>h. cache_inv ops t h)"

lemma render_diff_roots: "display_roots t = display_roots t' \<Longrightarrow> render_diff ops t = render_diff ops t'"
  by (auto simp: fun_eq_iff render_diff_def display_path_def)

lemma entry_ok_key:
  assumes "texts_known t h (baseline_by_path t)" "texts_known t h (current_by_path t)"
  shows "entry_ok ops t h (cache_key t l q) r \<longleftrightarrow> r = fresh_diff ops t l q"
proof -
  have known: "map_option content_text (map_of m p) = map_option h (map_option content_revision (map_of m p))
      \<and> pred_option (\<lambda>n. n < next_revision t) (map_option content_revision (map_of m p))" if "texts_known t h m" for m p
    using that by (cases "map_of m p") (auto simp: texts_known_def)
  show ?thesis
    using known [OF assms(1), of l] known [OF assms(2), of q] by (simp add: entry_ok_def fresh_diff_def cache_key_def)
qed

lemma cache_inv_coherent: "cache_inv ops t h \<Longrightarrow> coherent ops t (rendered_diffs t)"
  unfolding coherent_def cache_inv_def by (metis entry_ok_key)

lemma refresh_correct:
  assumes "cache_ok ops t"
  shows "unified_diff (refresh_unified_diff ops t) = reference_diff ops t" "cache_ok ops (refresh_unified_diff ops t)"
proof -
  let ?t = "refresh_unified_diff ops t"
  obtain h where h: "cache_inv ops t h" using assms by (auto simp: cache_ok_def)
  note fold = refresh_fold [of ops t "\<lparr>handled = [], previous = rendered_diffs t, renderings = [], aggregated = []\<rparr>"
      "rename_pairs t" "sorted_paths ops t"]
  have co: "coherent ops t (rendered_diffs t)" by (rule cache_inv_coherent [OF h])
  show "unified_diff ?t = reference_diff ops t"
    using fold co by (simp add: refresh_unified_diff_def reference_diff_def current_entries_def Let_def)
  have entries: "current_entries ops t (rendered_diffs ?t)"
    using fold co by (simp add: refresh_unified_diff_def current_entries_def Let_def)
  have same: "display_roots ?t = display_roots t" "baseline_by_path ?t = baseline_by_path t" "current_by_path ?t = current_by_path t"
    "next_revision ?t = next_revision t" by (simp_all add: refresh_unified_diff_def Let_def)
  have known: "texts_known t h (baseline_by_path t)" "texts_known t h (current_by_path t)" using h by (simp_all add: cache_inv_def)
  have "entry_ok ops ?t h k r" if cached: "map_of (rendered_diffs ?t) k = Some r" for k r
  proof -
    obtain l q where "k = cache_key t l q" "r = fresh_diff ops t l q" using entries cached unfolding current_entries_def by metis
    then have "entry_ok ops t h k r" by (simp add: entry_ok_key [OF known])
    then show ?thesis by (simp add: entry_ok_def same render_diff_roots [OF same(1)])
  qed
  then have "cache_inv ops ?t h" using known by (simp add: cache_inv_def same texts_known_def)
  then show "cache_ok ops ?t" by (auto simp: cache_ok_def)
qed

text \<open>Changes only add revisions.\<close>

lemma cache_ok_step:
  assumes "cache_ok ops t" "display_roots t' = display_roots t" "rendered_diffs t' = rendered_diffs t"
    and "next_revision t' = Suc (next_revision t)"
    and "\<And>p c. map_of (baseline_by_path t') p = Some c \<Longrightarrow> map_of (baseline_by_path t) p = Some c \<or> c = \<lparr>content_text = x, content_revision = next_revision t\<rparr>"
    and "\<And>p c. map_of (current_by_path t') p = Some c \<Longrightarrow> map_of (current_by_path t) p = Some c \<or> c = \<lparr>content_text = x, content_revision = next_revision t\<rparr>"
  shows "cache_ok ops t'"
proof -
  obtain h where h: "cache_inv ops t h" using assms(1) by (auto simp: cache_ok_def)
  let ?h = "h(next_revision t := x)"
  have texts: "texts_known t' ?h m'" if "texts_known t h m"
    "\<And>p c. map_of m' p = Some c \<Longrightarrow> map_of m p = Some c \<or> c = \<lparr>content_text = x, content_revision = next_revision t\<rparr>" for m m'
    using that unfolding texts_known_def assms(4) by (fastforce simp: less_Suc_eq)
  have old: "map_option ?h v = map_option h v" if "pred_option (\<lambda>n. n < next_revision t) v" for v
    using that by (cases v) auto
  have "entry_ok ops t' ?h k r" if "entry_ok ops t h k r" for k r
    using that old [of "left_revision k"] old [of "right_revision k"] render_diff_roots [OF assms(2), of ops]
    by (auto simp: entry_ok_def assms(4) intro: option.pred_mono_strong)
  moreover have "texts_known t' ?h (baseline_by_path t')"
    using h by (intro texts [of "baseline_by_path t"] assms(5)) (simp_all add: cache_inv_def)
  moreover have "texts_known t' ?h (current_by_path t')"
    using h by (intro texts [of "current_by_path t"] assms(6)) (simp_all add: cache_inv_def)
  ultimately have "cache_inv ops t' ?h" using h assms(3) by (simp add: cache_inv_def)
  then show ?thesis by (auto simp: cache_ok_def)
qed

lemma cache_ok_same:
  assumes "cache_ok ops t" "display_roots t' = display_roots t" "rendered_diffs t' = rendered_diffs t"
    and "next_revision t' = next_revision t" "baseline_by_path t' = baseline_by_path t"
    and "\<And>p c. map_of (current_by_path t') p = Some c \<Longrightarrow> map_of (current_by_path t) p = Some c"
  shows "cache_ok ops t'"
proof -
  obtain h where h: "cache_inv ops t h" using assms(1) by (auto simp: cache_ok_def)
  then have "texts_known t h (current_by_path t)" by (simp add: cache_inv_def)
  then have "texts_known t' h (current_by_path t')" using assms(4,6) unfolding texts_known_def by metis
  then have "cache_inv ops t' h"
    using h assms(3-5) render_diff_roots [OF assms(2), of ops] by (simp add: cache_inv_def texts_known_def entry_ok_def)
  then show ?thesis by (auto simp: cache_ok_def)
qed

lemma cache_ok_ops:
  assumes "cache_ok ops t"
  shows "cache_ok ops (set_current p c t)" "cache_ok ops (set_baseline p c t)" "cache_ok ops (forget_origin p t)"
    "cache_ok ops (note_baseline p x t)" "cache_ok ops (t\<lparr>origin_by_current_path := m\<rparr>)"
    "cache_ok ops (t\<lparr>current_by_path := AList.delete p (current_by_path t)\<rparr>)"
proof -
  show baseline: "cache_ok ops (set_baseline p c t)" for c
    by (rule cache_ok_step [OF assms, where x = c])
      (auto simp: set_baseline_def tracked_content_of_def update_conv' split: if_splits)
  show "cache_ok ops (set_current p c t)"
    by (rule cache_ok_step [OF assms, where x = c])
      (auto simp: set_current_def tracked_content_of_def update_conv' split: if_splits)
  show "cache_ok ops (note_baseline p x t)" using assms baseline by (auto simp: note_baseline_def split: option.splits)
  show "cache_ok ops (forget_origin p t)" "cache_ok ops (t\<lparr>origin_by_current_path := m\<rparr>)"
    "cache_ok ops (t\<lparr>current_by_path := AList.delete p (current_by_path t)\<rparr>)"
    by (rule cache_ok_same [OF assms]; simp add: forget_origin_def delete_conv' split: if_splits)+
qed

lemma cache_ok_change: "cache_ok ops t \<Longrightarrow> cache_ok ops (apply_change env c t)"
  by (auto simp: apply_change_def tracker_add_def tracker_delete_def tracker_update_def tracker_move_def Let_def
      split: applied_patch_file_change.splits option.splits intro!: cache_ok_ops)

lemma cache_ok_changes: "cache_ok ops t \<Longrightarrow> cache_ok ops (fold (apply_change env) cs t)"
  by (induction cs arbitrary: t) (simp_all add: cache_ok_change)

lemma cache_ok_new: "cache_ok ops (new_tracker roots)"
  by (auto simp: cache_ok_def cache_inv_def texts_known_def new_tracker_def)

lemma cache_ok_track: "cache_ok ops t \<Longrightarrow> cache_ok ops (track_delta ops env d t)"
proof -
  assume ok: "cache_ok ops t"
  have "cache_ok ops (invalidate t)" using ok by (auto simp: cache_ok_def cache_inv_def texts_known_def invalidate_def)
  then show ?thesis using ok refresh_correct(2) [OF cache_ok_changes [OF ok]] by (simp add: track_delta_def)
qed

lemma reference_diff_refresh: "reference_diff ops (refresh_unified_diff ops t) = reference_diff ops t"
proof -
  let ?t = "refresh_unified_diff ops t"
  have same: "display_roots ?t = display_roots t" "baseline_by_path ?t = baseline_by_path t" "current_by_path ?t = current_by_path t"
    "origin_by_current_path ?t = origin_by_current_path t" by (simp_all add: refresh_unified_diff_def Let_def)
  then have display: "display_path ops ?t = display_path ops t" by (simp add: fun_eq_iff display_path_def)
  have "rename_pairs ?t = rename_pairs t" "sorted_paths ops ?t = sorted_paths ops t"
    by (simp_all add: same rename_pairs_def sorted_paths_def display)
  moreover have "fresh_diff ops ?t = fresh_diff ops t"
    by (simp add: same fresh_diff_def fun_eq_iff render_diff_roots [OF same(1)])
  ultimately show ?thesis by (simp add: reference_diff_def)
qed

lemma track_delta_reference:
  assumes "cache_ok ops t" "valid (track_delta ops env d t)"
  shows "unified_diff (track_delta ops env d t) = reference_diff ops (track_delta ops env d t)"
  using assms refresh_correct(1) [OF cache_ok_changes [OF assms(1)]]
  by (auto simp: track_delta_def invalidate_def reference_diff_refresh split: if_splits)

lemma follows_new: "follows (new_tracker roots) G G"
  by (simp add: follows_def agrees_def current_text_def baseline_text_def new_tracker_def)

lemma track_delta_exact:
  "valid t \<Longrightarrow> delta_exact d \<Longrightarrow> track_delta ops env d t = refresh_unified_diff ops (fold (apply_change env) (delta_changes d) t)"
  by (simp add: track_delta_def)

lemma valid_track_delta: "valid (track_delta ops env d t) \<Longrightarrow> valid t \<and> delta_exact d"
  by (auto simp: track_delta_def invalidate_def split: if_splits)

section \<open>Properties\<close>

text \<open>
  The tracker follows the files: if it knows the files at the start of the turn and now, and a patch
  turns the files of one environment into others with an exact delta that accounts for it, then
  after \<open>track_delta\<close> it knows the new files too. It holds for any number of environments and in
  particular for paths that were deleted, created again, overwritten or renamed in between.
\<close>

lemma track_delta_follows:
  assumes "follows t G0 G" "valid t" "delta_exact d" "delta_run (in_environment env G) (delta_changes d) F'"
  shows "follows (track_delta ops env d t) G0 (with_environment env F' G)"
  using assms by (simp add: track_delta_exact follows_refresh follows_changes)

text \<open>
  C25. The cache of rendered diffs is transparent: after any sequence of deltas a tracker that is still
  valid reports exactly the diff that rendering every shown path anew gives.
\<close>

theorem cached_diff_is_fresh:
  assumes "t = fold (\<lambda>(env, d). track_delta ops env d) ds (new_tracker roots)" "valid t"
  shows "unified_diff t = reference_diff ops t"
proof -
  have "cache_ok ops (fold (\<lambda>(env, d). track_delta ops env d) ds (new_tracker roots))
    \<and> (valid (fold (\<lambda>(env, d). track_delta ops env d) ds (new_tracker roots)) \<longrightarrow>
        unified_diff (fold (\<lambda>(env, d). track_delta ops env d) ds (new_tracker roots))
        = reference_diff ops (fold (\<lambda>(env, d). track_delta ops env d) ds (new_tracker roots)))"
  proof (induction ds rule: rev_induct)
    case Nil
    have "reference_diff ops (new_tracker roots) = None"
      by (simp add: reference_diff_def new_tracker_def sorted_paths_def)
    then show ?case by (simp add: cache_ok_new) (simp add: new_tracker_def)
  next
    case (snoc x ds)
    obtain env d where x: "x = (env, d)" by fastforce
    let ?t = "fold (\<lambda>(env, d). track_delta ops env d) ds (new_tracker roots)"
    have "unified_diff (track_delta ops env d ?t) = reference_diff ops (track_delta ops env d ?t)"
      if "valid (track_delta ops env d ?t)"
      using that snoc track_delta_reference [of ops ?t env d] by simp
    then show ?case using snoc by (simp add: x cache_ok_track)
  qed
  then show ?thesis using assms by simp
qed

section \<open>Witnesses\<close>

definition sample_diff_ops :: "nat diff_ops" where
  "sample_diff_ops = \<lparr>text_unified_diff = \<lambda>old new a b. a @ [NL] @ b @ [NL] @ old @ new, git_blob_oid = \<lambda>c. c,
     relative_path_from = \<lambda>u root. None, native_path_string = \<lambda>u. [u]\<rparr>"

definition sample_delta :: "nat applied_patch_delta" where
  "sample_delta = \<lparr>delta_changes = [\<lparr>change_path = 97, file_change = AppliedAdd (lit ''x'') None\<rparr>,
     \<lparr>change_path = 97, file_change = AppliedUpdate (Some 98) (lit ''x'') None (lit ''y'')\<rparr>], delta_exact = True\<rparr>"

theorem cached_diff_is_fresh_witness:
  "unified_diff (fold (\<lambda>(env, d). track_delta sample_diff_ops env d) [([], sample_delta), (lit ''e'', sample_delta)] (new_tracker []))
    = reference_diff sample_diff_ops (fold (\<lambda>(env, d). track_delta sample_diff_ops env d)
        [([], sample_delta), (lit ''e'', sample_delta)] (new_tracker []))"
proof (rule cached_diff_is_fresh [OF refl])
  show "valid (fold (\<lambda>(env, d). track_delta sample_diff_ops env d) [([], sample_delta), (lit ''e'', sample_delta)] (new_tracker []))"
    by code_simp
qed

end
