(* ===== verification/Head_Tail_Buffer.thy ===== *)
theory Head_Tail_Buffer
  imports Hexa_Prelude
begin

text \<open>
  The capped output buffer of a running command, \<open>core/src/unified_exec/head_tail_buffer.rs\<close>:
  the first half of the budget holds the beginning of the output, the other half its end, and
  what was dropped in between is counted.

  The constant parameter \<open>MAX_BYTES\<close> of the type is the first argument of the operations. A
  method on \<open>&mut self\<close> returns the new buffer. \<open>VecDeque::as_slices\<close> cuts the tail in two at
  a place that depends on the layout of the ring buffer: the place is an argument of
  \<open>push_buffer\<close>.

  The contract is \<open>output_summary\<close>: what the buffer is after any output, as a function of that
  output alone. The locale \<open>stream_summary\<close> states the contract for any such accumulator, and
  the buffer is an instance of it.
\<close>

section \<open>The buffer\<close>

record head_tail_buffer =
  head :: "byte list"
  tail :: "byte list"
  omitted_bytes :: nat

definition empty_buffer :: head_tail_buffer where
  "empty_buffer = \<lparr>head = [], tail = [], omitted_bytes = 0\<rparr>"

definition HEAD_BUDGET :: "nat \<Rightarrow> nat" where
  "HEAD_BUDGET max_bytes = max_bytes div 2"

definition TAIL_BUDGET :: "nat \<Rightarrow> nat" where
  "TAIL_BUDGET max_bytes = max_bytes - HEAD_BUDGET max_bytes"

definition retained_bytes :: "head_tail_buffer \<Rightarrow> nat" where
  "retained_bytes b = saturating_add (length (head b)) (length (tail b))"

definition total_bytes :: "head_tail_buffer \<Rightarrow> nat" where
  "total_bytes b = saturating_add (retained_bytes b) (omitted_bytes b)"

text \<open>The new buffer and the bytes that did not fit.\<close>

definition fill_head :: "nat \<Rightarrow> head_tail_buffer \<Rightarrow> byte list \<Rightarrow> head_tail_buffer \<times> byte list" where
  "fill_head m b chunk =
     (let remaining_head = HEAD_BUDGET m - length (head b);
          (chunk_head, chunk_tail) =
            (if remaining_head \<le> length chunk
             then (take remaining_head chunk, drop remaining_head chunk)
             else (chunk, []))
      in (b\<lparr>head := head b @ chunk_head\<rparr>, chunk_tail))"

definition push_tail :: "nat \<Rightarrow> head_tail_buffer \<Rightarrow> byte list \<Rightarrow> head_tail_buffer" where
  "push_tail m b chunk =
     (let remaining_tail = TAIL_BUDGET m - length (tail b);
          excess_tail = length chunk - remaining_tail;
          omitted = saturating_add (omitted_bytes b) excess_tail;
          kept = (if excess_tail < length (tail b)
                  then drop excess_tail (tail b) @ chunk
                  else drop (excess_tail - length (tail b)) chunk)
      in b\<lparr>tail := kept, omitted_bytes := omitted\<rparr>)"

definition push_chunk :: "nat \<Rightarrow> head_tail_buffer \<Rightarrow> byte list \<Rightarrow> head_tail_buffer" where
  "push_chunk m b chunk = (let (b, chunk) = fill_head m b chunk in push_tail m b chunk)"

definition to_bytes :: "head_tail_buffer \<Rightarrow> byte list" where
  "to_bytes b = head b @ tail b"

definition format_output_omission_marker :: "nat \<Rightarrow> rstr" where
  "format_output_omission_marker n = lit ''... '' @ nat_string n @ lit '' bytes omitted ...''"

text \<open>The marker is ASCII, so its characters are its bytes.\<close>

definition to_bytes_with_omission_marker :: "head_tail_buffer \<Rightarrow> byte list" where
  "to_bytes_with_omission_marker b =
     (if omitted_bytes b = 0 then to_bytes b
      else head b @ [10] @ format_output_omission_marker (omitted_bytes b) @ [10] @ tail b)"

definition push_buffer :: "nat \<Rightarrow> nat \<Rightarrow> head_tail_buffer \<Rightarrow> head_tail_buffer \<Rightarrow> head_tail_buffer" where
  "push_buffer m slice self buffer =
     (let self = self\<lparr>omitted_bytes := saturating_add (omitted_bytes self) (omitted_bytes buffer)\<rparr>;
          (self, overflow) =
            (if head self = [] then (self\<lparr>head := head buffer\<rparr>, [])
             else fill_head m self (head buffer))
      in if length (tail buffer) = TAIL_BUDGET m
         then self\<lparr>omitted_bytes :=
                      saturating_add (saturating_add (omitted_bytes self) (length (tail self)))
                        (length overflow),
                   tail := tail buffer\<rparr>
         else let self = push_tail m self overflow in
              if tail self = [] then self\<lparr>tail := tail buffer\<rparr>
              else push_tail m (push_tail m self (take slice (tail buffer)))
                     (drop slice (tail buffer)))"

section \<open>The contract\<close>

text \<open>
  An accumulator that is fed a stream in chunks and can absorb the accumulator of a later part
  of the stream. Its state is a function of the stream, so neither the cutting into chunks nor
  the grouping into accumulators can be seen.
\<close>

locale stream_summary =
  fixes start :: 's
    and push :: "'s \<Rightarrow> 'c list \<Rightarrow> 's"
    and absorb :: "'s \<Rightarrow> 's \<Rightarrow> 's"
    and summary :: "'c list \<Rightarrow> 's"
  assumes summary_Nil: "summary [] = start"
    and push_summary: "push (summary xs) ys = summary (xs @ ys)"
    and absorb_summary: "absorb (summary xs) (summary ys) = summary (xs @ ys)"
begin

lemma pushes_from: "foldl push (summary xs) css = summary (xs @ concat css)"
  by (induction css arbitrary: xs) (simp_all add: push_summary)

lemma pushes: "foldl push start css = summary (concat css)"
  using pushes_from [of "[]"] by (simp add: summary_Nil)

lemma chunking_irrelevant: "concat css = concat dss \<Longrightarrow> foldl push start css = foldl push start dss"
  by (simp add: pushes)

lemma absorb_pushes:
  "absorb (foldl push start css) (foldl push start dss) = foldl push start (css @ dss)"
  by (simp only: pushes absorb_summary concat_append)

end

text \<open>The last \<open>n\<close> elements.\<close>

definition last_n :: "nat \<Rightarrow> 'a list \<Rightarrow> 'a list" where
  "last_n n xs = drop (length xs - n) xs"

definition output_summary :: "nat \<Rightarrow> byte list \<Rightarrow> head_tail_buffer" where
  "output_summary m out =
     \<lparr>head = take (HEAD_BUDGET m) out,
      tail = last_n (TAIL_BUDGET m) (drop (HEAD_BUDGET m) out),
      omitted_bytes = min usize_max (length out - m)\<rparr>"

lemma length_last_n [simp]: "length (last_n n xs) = min n (length xs)"
  by (simp add: last_n_def)

lemma last_n_short [simp]: "length xs \<le> n \<Longrightarrow> last_n n xs = xs"
  by (simp add: last_n_def)

lemma last_n_0 [simp]: "last_n 0 xs = []"
  by (simp add: last_n_def)

lemma last_n_append: "last_n n (xs @ ys) = last_n (n - length ys) xs @ last_n n ys"
  by (cases "length ys \<le> n") (simp_all add: last_n_def)

lemma last_n_drop: "last_n n (drop k xs) = last_n (min n (length xs - k)) xs"
  by (cases "k \<le> length xs"; cases "n \<le> length xs - k") (simp_all add: last_n_def)

lemma last_n_last_n [simp]: "last_n n (last_n k xs) = last_n (min n k) xs"
proof -
  have "last_n n (drop (length xs - k) xs) = last_n (min n (length xs - (length xs - k))) xs"
    by (rule last_n_drop)
  also have "\<dots> = last_n (min n k) xs" by (auto simp: last_n_def min_def)
  finally show ?thesis by (simp add: last_n_def)
qed

lemma last_n_absorb: "last_n n (last_n n xs @ ys) = last_n n (xs @ ys)"
  by (simp add: last_n_append)

lemma budgets: "HEAD_BUDGET m + TAIL_BUDGET m = m"
  by (simp add: HEAD_BUDGET_def TAIL_BUDGET_def)

lemma output_summary_sels [simp]:
  "head (output_summary m out) = take (HEAD_BUDGET m) out"
  "tail (output_summary m out) = last_n (TAIL_BUDGET m) (drop (HEAD_BUDGET m) out)"
  "omitted_bytes (output_summary m out) = min usize_max (length out - m)"
  by (simp_all add: output_summary_def)

section \<open>The operations keep the contract\<close>

lemma fill_head_eq:
  "fill_head m b chunk =
     (b\<lparr>head := head b @ take (HEAD_BUDGET m - length (head b)) chunk\<rparr>,
      drop (HEAD_BUDGET m - length (head b)) chunk)"
  by (simp add: fill_head_def Let_def)

lemma push_tail_eq:
  assumes "length (tail b) \<le> TAIL_BUDGET m"
  shows "push_tail m b chunk =
    b\<lparr>tail := last_n (TAIL_BUDGET m) (tail b @ chunk),
      omitted_bytes := saturating_add (omitted_bytes b)
        (length (tail b) + length chunk - TAIL_BUDGET m)\<rparr>"
  using assms by (simp add: push_tail_def Let_def last_n_def add.commute)

lemma push_tail_append:
  assumes "length (tail b) \<le> TAIL_BUDGET m"
  shows "push_tail m (push_tail m b c) d = push_tail m b (c @ d)"
proof -
  have "saturating_add (saturating_add o1 a) e = saturating_add o1 (a + e)" for o1 a e
    by (simp add: saturating_add_def min_def)
  moreover have "length (tail b) + length c - TAIL_BUDGET m
      + (min (TAIL_BUDGET m) (length (tail b) + length c) + length d - TAIL_BUDGET m)
      = length (tail b) + (length c + length d) - TAIL_BUDGET m"
    by (simp add: min_def)
  ultimately show ?thesis
    using assms by (simp add: push_tail_eq last_n_absorb)
qed

lemma drop_take_drop: "k \<le> n \<Longrightarrow> drop k (take n xs) @ drop n xs = drop k xs"
proof (cases "n \<le> length xs")
  case True
  assume "k \<le> n"
  then have "drop k (take n xs @ drop n xs) = drop k (take n xs) @ drop n xs"
    using True by (simp only: drop_append) simp
  then show ?thesis by simp
qed simp

lemma diff_min_self [simp]: "(n::nat) - min k n = n - k" "(n::nat) - min n k = n - k"
  by (simp_all add: min_def)

lemma push_rest_summary:
  "push_tail m (output_summary m xs\<lparr>head := h\<rparr>) (drop (HEAD_BUDGET m - length xs) ys)
     = output_summary m (xs @ ys)\<lparr>head := h\<rparr>"
proof -
  let ?H = "HEAD_BUDGET m" and ?T = "TAIL_BUDGET m"
  have "m = ?H + ?T" by (simp add: budgets)
  then have "length xs - m + (min ?T (length xs - ?H) + (length ys - (?H - length xs)) - ?T)
      = length xs + length ys - m"
    by linarith
  then show ?thesis
    by (intro head_tail_buffer.equality) (simp_all add: push_tail_eq last_n_absorb)
qed

lemma push_chunk_summary: "push_chunk m (output_summary m xs) ys = output_summary m (xs @ ys)"
  by (intro head_tail_buffer.equality) (simp_all add: push_chunk_def fill_head_eq push_rest_summary)

text \<open>
  Taking over the source head when the own head is empty is filling the head with it, and
  taking over the source tail when the own tail is empty is pushing it.
\<close>

lemma push_buffer_eq:
  assumes "length (head c) \<le> HEAD_BUDGET m" "length (tail c) \<le> TAIL_BUDGET m"
    and "length (tail b) \<le> TAIL_BUDGET m"
  shows "push_buffer m k b c =
    (let b' = b\<lparr>omitted_bytes := saturating_add (omitted_bytes b) (omitted_bytes c),
                head := head b @ take (HEAD_BUDGET m - length (head b)) (head c)\<rparr>;
         rest = drop (HEAD_BUDGET m - length (head b)) (head c)
     in if length (tail c) = TAIL_BUDGET m
        then b'\<lparr>tail := tail c,
                omitted_bytes := saturating_add
                  (saturating_add (omitted_bytes b') (length (tail b))) (length rest)\<rparr>
        else push_tail m b' (rest @ tail c))"
proof -
  have same_fill: "(if head b = [] then (s\<lparr>head := head c\<rparr>, []) else fill_head m s (head c))
      = (s\<lparr>head := head b @ take (HEAD_BUDGET m - length (head b)) (head c)\<rparr>,
         drop (HEAD_BUDGET m - length (head b)) (head c))"
    if "head s = head b" for s
    using that assms(1) by (simp add: fill_head_eq)
  have takeover: "(if tail (push_tail m s r) = [] then push_tail m s r\<lparr>tail := tail c\<rparr>
      else push_tail m (push_tail m (push_tail m s r) (take k (tail c))) (drop k (tail c)))
      = push_tail m s (r @ tail c)"
    if "tail s = tail b" for s r
  proof (cases "tail (push_tail m s r) = []")
    case True
    then have "push_tail m s r\<lparr>tail := tail c\<rparr> = push_tail m (push_tail m s r) (tail c)"
      using assms(2,3) that
      by (intro head_tail_buffer.equality) (simp_all add: push_tail_eq saturating_add_def)
    then show ?thesis using True assms(3) that by (simp add: push_tail_append)
  next
    case False
    then show ?thesis using assms(3) that by (simp add: push_tail_append)
  qed
  show ?thesis
    by (simp add: push_buffer_def Let_def same_fill takeover)
qed

lemma push_buffer_summary:
  "push_buffer m k (output_summary m xs) (output_summary m ys) = output_summary m (xs @ ys)"
proof -
  let ?H = "HEAD_BUDGET m" and ?T = "TAIL_BUDGET m"
  have m: "m = ?H + ?T" by (simp add: budgets)
  show ?thesis
  proof (cases "?T \<le> length ys - ?H")
    case True
    then have tail: "last_n ?T (drop ?H ys) = last_n ?T (drop ?H (xs @ ys))"
      by (simp add: last_n_append last_n_drop)
    have omitted: "length xs - m + (length ys - m) + min ?T (length xs - ?H)
        + (min (length ys) ?H - (?H - length xs)) = length xs + length ys - m"
      using m True by linarith
    have saturated: "min u (min u a + b + c + d) = min u (a + b + c + d)" for u a b c d :: nat
      by (simp add: min_def)
    show ?thesis
      using True
      by (intro head_tail_buffer.equality)
        (simp_all add: push_buffer_eq Let_def tail [simplified] saturated omitted [symmetric])
  next
    case False
    then have rest: "drop (?H - length xs) (take ?H ys) @ drop ?H ys = drop (?H - length xs) ys"
      by (simp add: drop_take_drop)
    have fits: "length ys \<le> m" using m False by linarith
    have same: "output_summary m xs\<lparr>omitted_bytes := min usize_max (length xs - m), head := h\<rparr>
        = output_summary m xs\<lparr>head := h\<rparr>" for h
      by (simp add: output_summary_def)
    have "push_buffer m k (output_summary m xs) (output_summary m ys)
        = push_tail m (output_summary m xs\<lparr>head := take ?H (xs @ ys)\<rparr>) (drop (?H - length xs) ys)"
      using False fits by (simp add: push_buffer_eq Let_def rest same)
    then show ?thesis by (simp add: push_rest_summary)
  qed
qed

lemma output_summary_Nil: "output_summary m [] = empty_buffer"
  by (simp add: output_summary_def empty_buffer_def)

interpretation buffer: stream_summary empty_buffer "push_chunk m" "push_buffer m k" "output_summary m"
  for m k
  by unfold_locales
    (rule output_summary_Nil push_chunk_summary push_buffer_summary)+

section \<open>Properties\<close>

lemma retained_summary: "retained_bytes (output_summary m out) = min usize_max (min m (length out))"
proof -
  have "min (HEAD_BUDGET m) (length out) + min (TAIL_BUDGET m) (length out - HEAD_BUDGET m)
      = min m (length out)"
    using budgets [of m] by linarith
  then show ?thesis by (simp add: retained_bytes_def saturating_add_def min.commute)
qed

lemma total_bytes_summary: "total_bytes (output_summary m out) = min usize_max (length out)"
  by (simp add: total_bytes_def retained_summary saturating_add_def min_def) linarith

lemma to_bytes_summary:
  "to_bytes (output_summary m out) =
     (if length out \<le> m then out
      else take (HEAD_BUDGET m) out @ drop (length out - TAIL_BUDGET m) out)"
proof -
  have "HEAD_BUDGET m + (length out - HEAD_BUDGET m - TAIL_BUDGET m) = length out - TAIL_BUDGET m"
    if "\<not> length out \<le> m" using that budgets [of m] by linarith
  moreover have "length out - HEAD_BUDGET m - TAIL_BUDGET m = 0" if "length out \<le> m"
    using that budgets [of m] by linarith
  ultimately show ?thesis by (auto simp: to_bytes_def last_n_def add.commute)
qed


text \<open>
  C26. After any sequence of chunks the buffer retains at most \<open>MAX_BYTES\<close> bytes: all of the
  output when it fits, and otherwise its first \<open>HEAD_BUDGET\<close> and its last \<open>TAIL_BUDGET\<close> bytes;
  the total is the length of the output, up to saturation.
\<close>

theorem pushed_output_bounded:
  "let b = foldl (push_chunk m) empty_buffer chunks; out = concat chunks in
     retained_bytes b \<le> m
     \<and> to_bytes b = (if length out \<le> m then out
                     else take (HEAD_BUDGET m) out @ drop (length out - TAIL_BUDGET m) out)
     \<and> total_bytes b = min usize_max (length out)"
  by (simp add: Let_def buffer.pushes retained_summary to_bytes_summary total_bytes_summary)

text \<open>
  C27. Appending the buffer of a later part of the output gives exactly the buffer of the whole
  output, with its head, its tail and its omission count, wherever the ring buffer of the tail
  happens to be cut.
\<close>

theorem push_buffer_concatenates:
  "push_buffer m k (foldl (push_chunk m) empty_buffer xs) (foldl (push_chunk m) empty_buffer ys)
     = foldl (push_chunk m) empty_buffer (xs @ ys)"
  by (rule buffer.absorb_pushes)

end
