(* ===== verification/Output_Truncation.thy ===== *)
theory Output_Truncation
  imports Hexa_Prelude "HOL-Library.Sublist"
begin

text \<open>
  The truncation of tool output before it is shown to the model: \<open>utils/string/src/truncate.rs\<close>
  cuts the middle out of a text, on character boundaries, and
  \<open>utils/output-truncation/src/lib.rs\<close> applies a byte or token budget to a text or to the
  content items of a tool result, whose types are in \<open>protocol/src\<close>.

  A text is the list of its characters and \<open>str_len\<close> its length in bytes. Slicing a text at a
  byte offset can panic, so what slices returns an \<open>option\<close> with \<open>None\<close> for the panic. The
  estimate of the tokens of an audio item is an argument, as it is in the code. Counters that
  count the characters or items of one value in memory are plain natural numbers.
\<close>

section \<open>Cutting the middle out of a text\<close>

definition APPROX_BYTES_PER_TOKEN :: nat where
  "APPROX_BYTES_PER_TOKEN = 4"

definition approx_token_count :: "rstr \<Rightarrow> nat" where
  "approx_token_count s =
     saturating_add (str_len s) (APPROX_BYTES_PER_TOKEN - 1) div APPROX_BYTES_PER_TOKEN"

definition approx_bytes_for_tokens :: "nat \<Rightarrow> nat" where
  "approx_bytes_for_tokens tokens = saturating_mul tokens APPROX_BYTES_PER_TOKEN"

definition approx_tokens_from_byte_count :: "nat \<Rightarrow> nat" where
  "approx_tokens_from_byte_count bytes =
     saturating_add bytes (APPROX_BYTES_PER_TOKEN - 1) div APPROX_BYTES_PER_TOKEN"

record split_state =
  prefix_end :: nat
  suffix_start :: nat
  removed_chars :: nat
  suffix_started :: bool

text \<open>The loop over \<open>char_indices\<close>, from the character at byte \<open>idx\<close>.\<close>

fun split_loop :: "nat \<Rightarrow> nat \<Rightarrow> nat \<Rightarrow> rstr \<Rightarrow> split_state \<Rightarrow> split_state" where
  "split_loop beginning_bytes tail_start_target idx [] st = st"
| "split_loop beginning_bytes tail_start_target idx (ch # s) st =
     (let char_end = idx + len_utf8 ch in
      split_loop beginning_bytes tail_start_target char_end s
        (if char_end \<le> beginning_bytes then st\<lparr>prefix_end := char_end\<rparr>
         else if tail_start_target \<le> idx
         then if \<not> suffix_started st then st\<lparr>suffix_start := idx, suffix_started := True\<rparr> else st
         else st\<lparr>removed_chars := saturating_add (removed_chars st) 1\<rparr>))"

definition split_string :: "rstr \<Rightarrow> nat \<Rightarrow> nat \<Rightarrow> (nat \<times> rstr \<times> rstr) option" where
  "split_string s beginning_bytes end_bytes =
     (if s = [] then Some (0, [], [])
      else
        let tail_start_target = str_len s - end_bytes;
            st = split_loop beginning_bytes tail_start_target 0 s
                   \<lparr>prefix_end = 0, suffix_start = str_len s, removed_chars = 0,
                    suffix_started = False\<rparr>;
            start = (if suffix_start st < prefix_end st then prefix_end st else suffix_start st)
        in case byte_split s (prefix_end st) of
             None \<Rightarrow> None
           | Some (before, _) \<Rightarrow>
               (case byte_split s start of
                  None \<Rightarrow> None
                | Some (_, after) \<Rightarrow> Some (removed_chars st, before, after)))"

definition split_budget :: "nat \<Rightarrow> nat \<times> nat" where
  "split_budget budget = (let left = budget div 2 in (left, budget - left))"

text \<open>The ellipsis of the marker is the character U+2026.\<close>

definition format_truncation_marker :: "bool \<Rightarrow> nat \<Rightarrow> rstr" where
  "format_truncation_marker use_tokens removed_count =
     (if use_tokens then [8230] @ nat_string removed_count @ lit '' tokens truncated'' @ [8230]
      else [8230] @ nat_string removed_count @ lit '' chars truncated'' @ [8230])"

definition removed_units :: "bool \<Rightarrow> nat \<Rightarrow> nat \<Rightarrow> nat" where
  "removed_units use_tokens removed_bytes removed =
     (if use_tokens then approx_tokens_from_byte_count removed_bytes else min usize_max removed)"

definition assemble_truncated_output :: "rstr \<Rightarrow> rstr \<Rightarrow> rstr \<Rightarrow> rstr" where
  "assemble_truncated_output left right marker = left @ marker @ right"

definition truncate_with_byte_estimate :: "rstr \<Rightarrow> nat \<Rightarrow> bool \<Rightarrow> rstr option" where
  "truncate_with_byte_estimate s max_bytes use_tokens =
     (if s = [] then Some []
      else let total_chars = length s in
        if max_bytes = 0
        then Some (format_truncation_marker use_tokens
                     (removed_units use_tokens (str_len s) total_chars))
        else if str_len s \<le> max_bytes then Some s
        else let (left_budget, right_budget) = split_budget max_bytes in
          case split_string s left_budget right_budget of
            None \<Rightarrow> None
          | Some (removed, left, right) \<Rightarrow>
              Some (assemble_truncated_output left right
                (format_truncation_marker use_tokens
                   (removed_units use_tokens (str_len s - max_bytes) removed))))"

definition truncate_middle_chars :: "rstr \<Rightarrow> nat \<Rightarrow> rstr option" where
  "truncate_middle_chars s max_bytes = truncate_with_byte_estimate s max_bytes False"

definition truncate_middle_with_token_budget :: "rstr \<Rightarrow> nat \<Rightarrow> (rstr \<times> nat option) option" where
  "truncate_middle_with_token_budget s max_tokens =
     (if s = [] then Some ([], None)
      else if 0 < max_tokens \<and> str_len s \<le> approx_bytes_for_tokens max_tokens then Some (s, None)
      else case truncate_with_byte_estimate s (approx_bytes_for_tokens max_tokens) True of
        None \<Rightarrow> None
      | Some truncated \<Rightarrow>
          Some (truncated,
                if truncated = s then None else Some (min usize_max (approx_token_count s))))"

section \<open>Budgets\<close>

datatype truncation_mode = BytesMode | TokensMode

record truncation_policy_config =
  config_mode :: truncation_mode
  config_limit :: int

datatype truncation_policy = Bytes nat | Tokens nat

text \<open>The cast of an \<open>i64\<close> to \<open>usize\<close> wraps around.\<close>

definition policy_from_config :: "truncation_policy_config \<Rightarrow> truncation_policy" where
  "policy_from_config config =
     (case config_mode config of
        BytesMode \<Rightarrow> Bytes (nat (config_limit config mod 2 ^ 64))
      | TokensMode \<Rightarrow> Tokens (nat (config_limit config mod 2 ^ 64)))"

fun token_budget :: "truncation_policy \<Rightarrow> nat" where
  "token_budget (Bytes bytes) = min usize_max (approx_tokens_from_byte_count bytes)"
| "token_budget (Tokens tokens) = tokens"

fun byte_budget :: "truncation_policy \<Rightarrow> nat" where
  "byte_budget (Bytes bytes) = bytes"
| "byte_budget (Tokens tokens) = approx_bytes_for_tokens tokens"

definition truncate_text :: "rstr \<Rightarrow> truncation_policy \<Rightarrow> rstr option" where
  "truncate_text content policy =
     (case policy of
        Bytes bytes \<Rightarrow> truncate_middle_chars content bytes
      | Tokens tokens \<Rightarrow> map_option fst (truncate_middle_with_token_budget content tokens))"

definition formatted_truncate_text :: "rstr \<Rightarrow> truncation_policy \<Rightarrow> rstr option" where
  "formatted_truncate_text content policy =
     (if str_len content \<le> byte_budget policy then Some content
      else
        let original_token_count = approx_token_count content;
            total_lines = length (str_lines content)
        in map_option (\<lambda>result.
             lit ''Warning: truncated output (original token count: ''
             @ nat_string original_token_count @ lit '')'' @ [NL]
             @ lit ''Total output lines: '' @ nat_string total_lines @ [NL, NL] @ result)
             (truncate_text content policy))"

definition approx_tokens_from_byte_count_i64 :: "int \<Rightarrow> int" where
  "approx_tokens_from_byte_count_i64 bytes =
     (if bytes \<le> 0 then 0
      else min (2 ^ 63 - 1) (int (approx_tokens_from_byte_count (min usize_max (nat bytes)))))"

section \<open>The items of a tool result\<close>

datatype image_detail = AutoDetail | LowDetail | HighDetail | OriginalDetail

datatype content_item =
    InputText rstr
  | InputImage rstr "image_detail option"
  | InputAudio rstr
  | EncryptedContent rstr

datatype output_body = BodyText rstr | BodyItems "content_item list"

record output_payload =
  payload_body :: output_body
  payload_success :: "bool option"

fun text_segments :: "content_item list \<Rightarrow> rstr list" where
  "text_segments [] = []"
| "text_segments (InputText t # items) = t # text_segments items"
| "text_segments (_ # items) = text_segments items"

definition combine_segments :: "rstr list \<Rightarrow> rstr" where
  "combine_segments segments =
     foldl (\<lambda>combined t. (if combined \<noteq> [] then combined @ [NL] else combined) @ t) [] segments"

fun is_text :: "content_item \<Rightarrow> bool" where
  "is_text (InputText _) = True"
| "is_text _ = False"

definition formatted_truncate_text_content_items_with_policy ::
  "content_item list \<Rightarrow> truncation_policy \<Rightarrow> (content_item list \<times> nat option) option" where
  "formatted_truncate_text_content_items_with_policy items policy =
     (let segments = text_segments items; combined = combine_segments segments in
      if segments = [] then Some (items, None)
      else if str_len combined \<le> byte_budget policy then Some (items, None)
      else map_option (\<lambda>t. (InputText t # filter (\<lambda>i. \<not> is_text i) items,
                            Some (approx_token_count combined)))
             (formatted_truncate_text combined policy))"

record items_state =
  out_items :: "content_item list"
  remaining_budget :: nat
  omitted_text_items :: nat
  omitted_audio_items :: nat

definition text_cost :: "truncation_policy \<Rightarrow> rstr \<Rightarrow> nat" where
  "text_cost policy t =
     (case policy of Bytes _ \<Rightarrow> str_len t | Tokens _ \<Rightarrow> approx_token_count t)"

definition audio_cost :: "(rstr \<Rightarrow> nat) \<Rightarrow> truncation_policy \<Rightarrow> rstr \<Rightarrow> nat" where
  "audio_cost estimate policy url =
     (let token_cost = estimate url in
      case policy of Bytes _ \<Rightarrow> approx_bytes_for_tokens token_cost | Tokens _ \<Rightarrow> token_cost)"

fun with_limit :: "truncation_policy \<Rightarrow> nat \<Rightarrow> truncation_policy" where
  "with_limit (Bytes _) n = Bytes n"
| "with_limit (Tokens _) n = Tokens n"

definition push_item :: "content_item \<Rightarrow> items_state \<Rightarrow> items_state" where
  "push_item item st = st\<lparr>out_items := out_items st @ [item]\<rparr>"

fun truncate_item ::
  "truncation_policy \<Rightarrow> (rstr \<Rightarrow> nat) \<Rightarrow> items_state \<Rightarrow> content_item \<Rightarrow> items_state option" where
  "truncate_item policy estimate st (InputText t) =
     (if t = [] then Some st
      else if remaining_budget st = 0
      then Some (st\<lparr>omitted_text_items := omitted_text_items st + 1\<rparr>)
      else let cost = text_cost policy t in
        if cost \<le> remaining_budget st
        then Some ((push_item (InputText t) st)\<lparr>remaining_budget := remaining_budget st - cost\<rparr>)
        else case truncate_text t (with_limit policy (remaining_budget st)) of
            None \<Rightarrow> None
          | Some snippet \<Rightarrow>
              Some ((if snippet = []
                     then st\<lparr>omitted_text_items := omitted_text_items st + 1\<rparr>
                     else push_item (InputText snippet) st)\<lparr>remaining_budget := 0\<rparr>))"
| "truncate_item policy estimate st (InputImage url detail) = Some (push_item (InputImage url detail) st)"
| "truncate_item policy estimate st (InputAudio url) =
     (let cost = audio_cost estimate policy url in
      if cost \<le> remaining_budget st
      then Some ((push_item (InputAudio url) st)\<lparr>remaining_budget := remaining_budget st - cost\<rparr>)
      else Some (st\<lparr>omitted_audio_items := omitted_audio_items st + 1\<rparr>))"
| "truncate_item policy estimate st (EncryptedContent c) = Some (push_item (EncryptedContent c) st)"

fun truncate_items_loop ::
  "truncation_policy \<Rightarrow> (rstr \<Rightarrow> nat) \<Rightarrow> content_item list \<Rightarrow> items_state \<Rightarrow> items_state option" where
  "truncate_items_loop policy estimate [] st = Some st"
| "truncate_items_loop policy estimate (item # items) st =
     (case truncate_item policy estimate st item of
        None \<Rightarrow> None
      | Some st' \<Rightarrow> truncate_items_loop policy estimate items st')"

definition policy_budget :: "truncation_policy \<Rightarrow> nat" where
  "policy_budget policy =
     (case policy of Bytes _ \<Rightarrow> byte_budget policy | Tokens _ \<Rightarrow> token_budget policy)"

definition omission_notices :: "items_state \<Rightarrow> content_item list" where
  "omission_notices st =
     (if 0 < omitted_text_items st
      then [InputText (lit ''[omitted '' @ nat_string (omitted_text_items st) @ lit '' text items ...]'')]
      else [])
     @ (if 0 < omitted_audio_items st
        then [InputText (lit ''[omitted '' @ nat_string (omitted_audio_items st) @ lit '' audio items ...]'')]
        else [])"

definition truncate_function_output_items_with_policy ::
  "content_item list \<Rightarrow> truncation_policy \<Rightarrow> (rstr \<Rightarrow> nat) \<Rightarrow> content_item list option" where
  "truncate_function_output_items_with_policy items policy estimate =
     map_option (\<lambda>st. out_items st @ omission_notices st)
       (truncate_items_loop policy estimate items
          \<lparr>out_items = [], remaining_budget = policy_budget policy, omitted_text_items = 0,
           omitted_audio_items = 0\<rparr>)"

definition truncate_function_output_payload ::
  "output_payload \<Rightarrow> truncation_policy \<Rightarrow> (rstr \<Rightarrow> nat) \<Rightarrow> output_payload option" where
  "truncate_function_output_payload output policy estimate =
     (case payload_body output of
        BodyText t \<Rightarrow>
          map_option (\<lambda>t. output\<lparr>payload_body := BodyText t\<rparr>) (truncate_text t policy)
      | BodyItems items \<Rightarrow>
          map_option (\<lambda>items. output\<lparr>payload_body := BodyItems items\<rparr>)
            (truncate_function_output_items_with_policy items policy estimate))"

section \<open>Where the text is cut\<close>

lemma split_loop_prefix:
  "prefix_end st = idx \<Longrightarrow> idx \<le> b \<Longrightarrow>
   \<exists>left rest. s = left @ rest \<and> idx + str_len left \<le> b
     \<and> (rest = [] \<or> b < idx + str_len left + len_utf8 (hd rest))
     \<and> split_loop b t idx s st
         = split_loop b t (idx + str_len left) rest (st\<lparr>prefix_end := idx + str_len left\<rparr>)"
proof (induction s arbitrary: idx st)
  case Nil
  then show ?case by simp
next
  case (Cons c s)
  show ?case
  proof (cases "idx + len_utf8 c \<le> b")
    case True
    then obtain left rest where *: "s = left @ rest" "idx + len_utf8 c + str_len left \<le> b"
        "rest = [] \<or> b < idx + len_utf8 c + str_len left + len_utf8 (hd rest)"
        "split_loop b t (idx + len_utf8 c) s (st\<lparr>prefix_end := idx + len_utf8 c\<rparr>)
          = split_loop b t (idx + len_utf8 c + str_len left) rest
              (st\<lparr>prefix_end := idx + len_utf8 c + str_len left\<rparr>)"
      using Cons.IH [of "st\<lparr>prefix_end := idx + len_utf8 c\<rparr>" "idx + len_utf8 c"] by auto
    show ?thesis
      using True * by (intro exI [of _ "c # left"] exI [of _ rest]) (simp add: add.assoc)
  next
    case False
    then show ?thesis
      using Cons.prems by (intro exI [of _ "[]"] exI [of _ "c # s"]) (auto simp: Let_def)
  qed
qed

lemma split_loop_suffix:
  "suffix_started st \<Longrightarrow> s = [] \<or> b < idx + len_utf8 (hd s) \<Longrightarrow> t \<le> idx \<Longrightarrow>
   split_loop b t idx s st = st"
proof (induction s arbitrary: idx)
  case (Cons c s)
  then have "s = [] \<or> b < idx + len_utf8 c + len_utf8 (hd s)" by auto
  then show ?case using Cons by (simp add: Let_def)
qed simp

lemma split_loop_middle:
  "\<not> suffix_started st \<Longrightarrow> s = [] \<or> b < idx + len_utf8 (hd s) \<Longrightarrow>
   suffix_start st = idx + str_len s \<Longrightarrow> removed_chars st = min usize_max n \<Longrightarrow>
   \<exists>mid right. s = mid @ right
     \<and> prefix_end (split_loop b t idx s st) = prefix_end st
     \<and> suffix_start (split_loop b t idx s st) = idx + str_len mid
     \<and> removed_chars (split_loop b t idx s st) = min usize_max (n + length mid)
     \<and> (right = [] \<or> t \<le> idx + str_len mid)
     \<and> (mid = [] \<or> idx + str_len (butlast mid) < t)"
proof (induction s arbitrary: idx st n)
  case Nil
  then show ?case by simp
next
  case (Cons c s)
  let ?stop = "idx + len_utf8 c"
  have b: "b < ?stop" and rest: "s = [] \<or> b < ?stop + len_utf8 (hd s)" using Cons.prems(2) by auto
  show ?case
  proof (cases "t \<le> idx")
    case True
    then show ?thesis
      using Cons.prems(1,4) b rest
      by (intro exI [of _ "[]"] exI [of _ "c # s"]) (simp add: Let_def split_loop_suffix)
  next
    case False
    let ?st = "st\<lparr>removed_chars := saturating_add (removed_chars st) 1\<rparr>"
    have step: "split_loop b t idx (c # s) st = split_loop b t ?stop s ?st"
      using False b by (simp add: Let_def)
    obtain mid right where *: "s = mid @ right"
        "prefix_end (split_loop b t ?stop s ?st) = prefix_end st"
        "suffix_start (split_loop b t ?stop s ?st) = ?stop + str_len mid"
        "removed_chars (split_loop b t ?stop s ?st) = min usize_max (n + 1 + length mid)"
        "right = [] \<or> t \<le> ?stop + str_len mid" "mid = [] \<or> ?stop + str_len (butlast mid) < t"
      using Cons.IH [of ?st ?stop "n + 1"] Cons.prems rest by (auto simp: add.assoc)
    show ?thesis
      unfolding step using False *
      by (intro exI [of _ "c # mid"] exI [of _ right]) (auto simp: add.assoc)
  qed
qed

lemma str_len_butlast: "xs \<noteq> [] \<Longrightarrow> str_len xs = str_len (butlast xs) + len_utf8 (last xs)"
  by (induction xs rule: rev_induct) simp_all

lemma split_string_cut:
  "\<exists>left mid right. s = left @ mid @ right
     \<and> split_string s b e = Some (min usize_max (length mid), left, right)
     \<and> str_len left \<le> b \<and> str_len right \<le> e
     \<and> (mid = [] \<or> b < str_len left + len_utf8 (hd mid) \<and> e < len_utf8 (last mid) + str_len right)"
proof (cases "s = []")
  case True
  then show ?thesis by (simp add: split_string_def)
next
  case False
  let ?t = "str_len s - e"
  let ?st = "\<lparr>prefix_end = 0, suffix_start = str_len s, removed_chars = 0, suffix_started = False\<rparr>"
  have "prefix_end ?st = 0" "0 \<le> b" by simp_all
  from split_loop_prefix [OF this, of s ?t, unfolded add_0]
  obtain left rest where l: "s = left @ rest" "str_len left \<le> b"
      "rest = [] \<or> b < str_len left + len_utf8 (hd rest)"
      "split_loop b ?t 0 s ?st = split_loop b ?t (str_len left) rest (?st\<lparr>prefix_end := str_len left\<rparr>)"
    by blast
  let ?loop = "split_loop b ?t 0 s ?st"
  have "\<not> suffix_started (?st\<lparr>prefix_end := str_len left\<rparr>)"
    "suffix_start (?st\<lparr>prefix_end := str_len left\<rparr>) = str_len left + str_len rest"
    "removed_chars (?st\<lparr>prefix_end := str_len left\<rparr>) = min usize_max 0"
    using l(1) by simp_all
  note split_loop_middle [OF this(1) l(3) this(2,3), of ?t, folded l(4)]
  then obtain mid right where r: "rest = mid @ right" "prefix_end ?loop = str_len left"
      "suffix_start ?loop = str_len left + str_len mid"
      "removed_chars ?loop = min usize_max (length mid)"
      "right = [] \<or> ?t \<le> str_len left + str_len mid"
      "mid = [] \<or> str_len left + str_len (butlast mid) < ?t"
    unfolding add_0 by force
  have "byte_split s (str_len left) = Some (left, rest)"
    "byte_split s (str_len left + str_len mid) = Some (left @ mid, right)"
    using byte_split_append [of left rest] byte_split_append [of "left @ mid" right] l(1) r(1)
    by simp_all
  then have "split_string s b e = Some (min usize_max (length mid), left, right)"
    using False r(2-4) by (simp add: split_string_def Let_def)
  moreover have "str_len right \<le> e" using r(1,5) l(1) by auto
  moreover have "mid = [] \<or> e < len_utf8 (last mid) + str_len right"
    using r(1,6) l(1) str_len_butlast [of mid] by (cases "mid = []") auto
  moreover have "mid = [] \<or> b < str_len left + len_utf8 (hd mid)"
    using l(3) r(1) by (cases mid) auto
  moreover have "s = left @ mid @ right" using l(1) r(1) by simp
  ultimately show ?thesis using l(2) by blast
qed

section \<open>A truncated text\<close>

text \<open>The count in the marker: estimated tokens past the budget, or characters cut out.\<close>

fun cut_marker :: "truncation_policy \<Rightarrow> rstr \<Rightarrow> rstr \<Rightarrow> rstr" where
  "cut_marker (Bytes n) s mid = format_truncation_marker False (min usize_max (length mid))"
| "cut_marker (Tokens n) s mid =
     format_truncation_marker True
       (approx_tokens_from_byte_count (str_len s - approx_bytes_for_tokens n))"

lemma truncate_with_byte_estimate_fits:
  "str_len s \<le> max_bytes \<Longrightarrow> truncate_with_byte_estimate s max_bytes use_tokens = Some s"
  by (auto simp: truncate_with_byte_estimate_def Let_def)

lemma truncate_with_byte_estimate_cut:
  "\<exists>left mid right. s = left @ mid @ right \<and> str_len left + str_len right \<le> max_bytes
     \<and> truncate_with_byte_estimate s max_bytes use_tokens =
         Some (if str_len s \<le> max_bytes then s
               else left @ format_truncation_marker use_tokens
                 (if use_tokens then approx_tokens_from_byte_count (str_len s - max_bytes)
                  else min usize_max (length mid)) @ right)"
proof (cases "str_len s \<le> max_bytes")
  case True
  then show ?thesis
    by (intro exI [of _ s] exI [of _ "[]"]) (auto simp: truncate_with_byte_estimate_fits)
next
  case over: False
  show ?thesis
  proof (cases "max_bytes = 0")
    case True
    then show ?thesis
      using over
      by (intro exI [of _ "[]"] exI [of _ s])
        (auto simp: truncate_with_byte_estimate_def removed_units_def)
  next
    case False
    obtain left mid right where cut: "s = left @ mid @ right"
        "split_string s (max_bytes div 2) (max_bytes - max_bytes div 2)
           = Some (min usize_max (length mid), left, right)"
        "str_len left \<le> max_bytes div 2" "str_len right \<le> max_bytes - max_bytes div 2"
      using split_string_cut [of s "max_bytes div 2" "max_bytes - max_bytes div 2"] by blast
    have "s \<noteq> []" "str_len left + str_len right \<le> max_bytes" using over cut(3,4) by auto
    moreover have "truncate_with_byte_estimate s max_bytes use_tokens =
         Some (left @ format_truncation_marker use_tokens
                 (if use_tokens then approx_tokens_from_byte_count (str_len s - max_bytes)
                  else min usize_max (length mid)) @ right)"
      using False over \<open>s \<noteq> []\<close>
      by (simp add: truncate_with_byte_estimate_def Let_def split_budget_def removed_units_def
          assemble_truncated_output_def cut(2))
    ultimately show ?thesis using over cut(1) by fastforce
  qed
qed

lemma truncate_text_eq:
  "truncate_text s policy =
     truncate_with_byte_estimate s (byte_budget policy) (case policy of Bytes _ \<Rightarrow> False | Tokens _ \<Rightarrow> True)"
proof (cases policy)
  case (Tokens n)
  show ?thesis
    unfolding Tokens truncate_text_def truncate_middle_with_token_budget_def
    by (simp add: truncate_with_byte_estimate_fits split: option.splits)
qed (simp add: truncate_text_def truncate_middle_chars_def)


lemma truncate_text_total: "\<exists>t. truncate_text s policy = Some t"
  using truncate_with_byte_estimate_cut [of s "byte_budget policy"] by (metis truncate_text_eq)

section \<open>Truncated items\<close>

fun is_audio :: "content_item \<Rightarrow> bool" where
  "is_audio (InputAudio _) = True"
| "is_audio _ = False"

text \<open>Images and encrypted content, which no budget touches.\<close>

definition is_kept :: "content_item \<Rightarrow> bool" where
  "is_kept item \<longleftrightarrow> \<not> is_text item \<and> \<not> is_audio item"

fun item_cost :: "(rstr \<Rightarrow> nat) \<Rightarrow> truncation_policy \<Rightarrow> content_item \<Rightarrow> nat" where
  "item_cost estimate policy (InputText t) = text_cost policy t"
| "item_cost estimate policy (InputAudio url) = audio_cost estimate policy url"
| "item_cost estimate policy _ = 0"

definition items_cost :: "(rstr \<Rightarrow> nat) \<Rightarrow> truncation_policy \<Rightarrow> content_item list \<Rightarrow> nat" where
  "items_cost estimate policy items = sum_list (map (item_cost estimate policy) items)"

lemma items_cost_simps [simp]:
  "items_cost e p [] = 0"
  "items_cost e p (i # is) = item_cost e p i + items_cost e p is"
  "items_cost e p (is @ js) = items_cost e p is + items_cost e p js"
  by (simp_all add: items_cost_def)

lemma is_kept_simps [simp]:
  "\<not> is_kept (InputText t)" "is_kept (InputImage u d)" "\<not> is_kept (InputAudio u)"
  "is_kept (EncryptedContent c)"
  by (simp_all add: is_kept_def)

lemma text_cost_Nil [simp]: "text_cost policy [] = 0"
  by (simp add: text_cost_def approx_token_count_def APPROX_BYTES_PER_TOKEN_def
      saturating_add_def split: truncation_policy.split)

lemma text_cost_pos: "t \<noteq> [] \<Longrightarrow> 0 < text_cost policy t"
proof -
  assume "t \<noteq> []"
  then have "1 \<le> str_len t" using str_len_eq_0_iff [of t] by linarith
  then show ?thesis
    by (simp add: text_cost_def approx_token_count_def APPROX_BYTES_PER_TOKEN_def
        saturating_add_def usize_max_def div_greater_zero_iff split: truncation_policy.split)
qed

text \<open>
  What a run over some items adds to the output: the budget pays for it, and only text and
  audio can go missing.
\<close>

definition paid :: "truncation_policy \<Rightarrow> (rstr \<Rightarrow> nat) \<Rightarrow> content_item list \<Rightarrow> items_state \<Rightarrow> items_state \<Rightarrow> bool" where
  "paid policy estimate items st st' \<longleftrightarrow>
     (\<exists>added. out_items st' = out_items st @ added
        \<and> filter is_kept added = filter is_kept items
        \<and> subseq (filter is_audio added) (filter is_audio items)
        \<and> remaining_budget st' + items_cost estimate policy (filter is_audio added)
            \<le> remaining_budget st)"

lemma paid_text:
  "out_items st' = out_items st \<or> (\<exists>s. out_items st' = out_items st @ [InputText s]) \<Longrightarrow>
   remaining_budget st' \<le> remaining_budget st \<Longrightarrow> paid policy estimate [InputText t] st st'"
  by (auto simp: paid_def)

lemma paid_audio:
  "out_items st' = out_items st \<and> remaining_budget st' \<le> remaining_budget st
   \<or> out_items st' = out_items st @ [InputAudio url]
     \<and> remaining_budget st' + audio_cost estimate policy url \<le> remaining_budget st \<Longrightarrow>
   paid policy estimate [InputAudio url] st st'"
  by (auto simp: paid_def)

lemma paid_kept:
  "out_items st' = out_items st @ [item] \<Longrightarrow> is_kept item \<Longrightarrow> remaining_budget st' \<le> remaining_budget st \<Longrightarrow>
   paid policy estimate [item] st st'"
  by (auto simp: paid_def is_kept_def)

lemma paid_append:
  assumes "paid policy estimate is st st1" "paid policy estimate js st1 st2"
  shows "paid policy estimate (is @ js) st st2"
proof -
  obtain a b where "out_items st1 = out_items st @ a" "out_items st2 = out_items st1 @ b"
      "filter is_kept a = filter is_kept is" "filter is_kept b = filter is_kept js"
      "subseq (filter is_audio a) (filter is_audio is)" "subseq (filter is_audio b) (filter is_audio js)"
      "remaining_budget st1 + items_cost estimate policy (filter is_audio a) \<le> remaining_budget st"
      "remaining_budget st2 + items_cost estimate policy (filter is_audio b) \<le> remaining_budget st1"
    using assms by (auto simp: paid_def)
  then show ?thesis
    unfolding paid_def by (intro exI [of _ "a @ b"]) (auto intro: list_emb_append_mono)
qed

lemma truncate_item_paid:
  "\<exists>st'. truncate_item policy estimate st item = Some st' \<and> paid policy estimate [item] st st'"
proof (cases item)
  case (InputText t)
  obtain s where "truncate_text t (with_limit policy (remaining_budget st)) = Some s"
    using truncate_text_total by blast
  then show ?thesis
    by (auto simp: InputText push_item_def Let_def intro!: paid_text)
next
  case (InputAudio url)
  then show ?thesis
    by (auto simp: push_item_def Let_def intro!: paid_audio)
qed (auto simp: push_item_def intro!: paid_kept)

lemma truncate_items_loop_paid:
  "\<exists>st'. truncate_items_loop policy estimate items st = Some st' \<and> paid policy estimate items st st'"
proof (induction items arbitrary: st)
  case Nil
  show ?case by (simp add: paid_def)
next
  case (Cons item items)
  then show ?case
    using truncate_item_paid [of policy estimate st item] paid_append [of policy estimate "[item]"]
    by fastforce
qed

lemma truncate_items_loop_fits:
  "items_cost estimate policy items \<le> remaining_budget st \<Longrightarrow>
   truncate_items_loop policy estimate items st =
     Some (st\<lparr>out_items := out_items st @ filter (\<lambda>i. i \<noteq> InputText []) items,
              remaining_budget := remaining_budget st - items_cost estimate policy items\<rparr>)"
proof (induction items arbitrary: st)
  case (Cons item items)
  then show ?case
    using text_cost_pos [of "case item of InputText t \<Rightarrow> t" policy]
    by (cases item) (auto simp: push_item_def Let_def)
qed simp

text \<open>
  Truncating the items of a tool result never panics and keeps every image and every
  encrypted item in its place in the order. The audio items that are kept are some of those of
  the result, in order, and their cost is within the budget. A result whose cost is within the
  budget keeps all of its items but the empty texts, and gets no notice of an omission.
\<close>

lemma truncate_items_within_budget:
  "\<exists>out. truncate_function_output_items_with_policy items policy estimate = Some out
     \<and> filter is_kept out = filter is_kept items
     \<and> subseq (filter is_audio out) (filter is_audio items)
     \<and> items_cost estimate policy (filter is_audio out) \<le> policy_budget policy
     \<and> (items_cost estimate policy items \<le> policy_budget policy \<longrightarrow>
          out = filter (\<lambda>i. i \<noteq> InputText []) items)"
proof -
  let ?st = "\<lparr>out_items = [], remaining_budget = policy_budget policy, omitted_text_items = 0,
     omitted_audio_items = 0\<rparr>"
  obtain st where st: "truncate_items_loop policy estimate items ?st = Some st"
      and "paid policy estimate items ?st st"
    using truncate_items_loop_paid by blast
  then have "filter is_kept (out_items st) = filter is_kept items
     \<and> subseq (filter is_audio (out_items st)) (filter is_audio items)
     \<and> items_cost estimate policy (filter is_audio (out_items st)) \<le> policy_budget policy"
    by (auto simp: paid_def)
  moreover have "filter is_kept (omission_notices st) = []" "filter is_audio (omission_notices st) = []"
    by (simp_all add: omission_notices_def)
  moreover have "out_items st @ omission_notices st = filter (\<lambda>i. i \<noteq> InputText []) items"
    if "items_cost estimate policy items \<le> policy_budget policy"
    using truncate_items_loop_fits [of estimate policy items ?st] that st
    by (auto simp: omission_notices_def)
  ultimately show ?thesis
    by (simp add: truncate_function_output_items_with_policy_def st)
qed

definition sample_items :: "content_item list" where
  "sample_items = [InputText (lit ''ok''), InputText [], InputImage (lit ''u'') None]"

end
