(* ===== verification/Stream_Text.thy ===== *)
theory Stream_Text
  imports Hexa_Prelude
begin

text \<open>
  The interface of the parsers of streamed text, \<open>utils/stream-parser/src/stream_text.rs\<close>: a parser
  is fed pieces of a text, and gives for each piece the text that may be shown and what it
  extracted.

  The trait \<open>StreamTextParser\<close> is the locale \<open>stream_text_parser\<close>. Its laws are what a caller who
  feeds a stream relies on: that a push returns, and that it does not matter where the stream was
  cut. Parsers may cut their own output differently, so outputs are compared by a \<open>view\<close> that
  forgets such cuts. A push that does not return is the value \<open>None\<close>.
\<close>

record 'x stream_chunk =
  visible_text :: rstr
  extracted :: "'x list"

definition empty_chunk :: "'x stream_chunk" where
  "empty_chunk = \<lparr>visible_text = [], extracted = []\<rparr>"

definition chunk_is_empty :: "'x stream_chunk \<Rightarrow> bool" where
  "chunk_is_empty c \<longleftrightarrow> visible_text c = [] \<and> extracted c = []"

text \<open>A later chunk appended to an earlier one, field by field.\<close>

definition chunk_append :: "'x stream_chunk \<Rightarrow> 'x stream_chunk \<Rightarrow> 'x stream_chunk" where
  "chunk_append a b =
     \<lparr>visible_text = visible_text a @ visible_text b, extracted = extracted a @ extracted b\<rparr>"

lemma chunk_append_sels [simp]:
  "visible_text (chunk_append a b) = visible_text a @ visible_text b"
  "extracted (chunk_append a b) = extracted a @ extracted b"
  "visible_text empty_chunk = []"
  "extracted empty_chunk = []"
  by (simp_all add: chunk_append_def empty_chunk_def)

lemma chunk_append_assoc: "chunk_append (chunk_append a b) c = chunk_append a (chunk_append b c)"
  by (simp add: chunk_append_def)

lemma chunk_append_empty [simp]: "chunk_append empty_chunk a = a" "chunk_append a empty_chunk = a"
  by (simp_all add: chunk_append_def empty_chunk_def)

lemma chunk_append_eq_self [simp]: "a = chunk_append a b \<longleftrightarrow> b = empty_chunk"
  by (cases a, cases b) (simp add: chunk_append_def empty_chunk_def)

text \<open>Feeding a sequence of pieces, with the outputs appended.\<close>

fun push_all ::
  "('s \<Rightarrow> 'i \<Rightarrow> ('s \<times> 'x stream_chunk) option) \<Rightarrow> 's \<Rightarrow> 'i list \<Rightarrow> ('s \<times> 'x stream_chunk) option" where
  "push_all push s [] = Some (s, empty_chunk)"
| "push_all push s (x # xs) =
     (case push s x of
        None \<Rightarrow> None
      | Some (s1, o1) \<Rightarrow>
          (case push_all push s1 xs of
             None \<Rightarrow> None
           | Some (s2, o2) \<Rightarrow> Some (s2, chunk_append o1 o2)))"

locale stream_text_parser =
  fixes ok :: "'s \<Rightarrow> bool"
    and push :: "'s \<Rightarrow> rstr \<Rightarrow> ('s \<times> 'x stream_chunk) option"
    and finish :: "'s \<Rightarrow> 's \<times> 'x stream_chunk"
    and view :: "'x stream_chunk \<Rightarrow> 'v"
  assumes push_total: "ok s \<Longrightarrow> \<exists>s' c. push s t = Some (s', c) \<and> ok s'"
    and push_Nil: "ok s \<Longrightarrow> push s [] = Some (s, empty_chunk)"
    and push_append: "ok s \<Longrightarrow> push s t = Some (s1, c1) \<Longrightarrow> push s1 u = Some (s2, c2) \<Longrightarrow>
          \<exists>c. push s (t @ u) = Some (s2, c) \<and> view c = view (chunk_append c1 c2)"
    and view_append: "view a = view a' \<Longrightarrow> view b = view b' \<Longrightarrow>
          view (chunk_append a b) = view (chunk_append a' b')"
    and finish_ok: "ok s \<Longrightarrow> ok (fst (finish s))"
begin

text \<open>Where a stream is cut does not matter.\<close>

lemma pushes:
  "ok s \<Longrightarrow> \<exists>s' c c'. push_all push s ts = Some (s', c) \<and> push s (concat ts) = Some (s', c')
     \<and> view c = view c' \<and> ok s'"
proof (induction ts arbitrary: s)
  case Nil
  then show ?case by (simp add: push_Nil)
next
  case (Cons t ts)
  obtain s1 c1 where 1: "push s t = Some (s1, c1)" "ok s1" using push_total [OF Cons.prems] by blast
  obtain s2 c2 c2' where 2: "push_all push s1 ts = Some (s2, c2)" "push s1 (concat ts) = Some (s2, c2')"
      "view c2 = view c2'" "ok s2"
    using Cons.IH [OF 1(2)] by blast
  obtain c where "push s (t @ concat ts) = Some (s2, c)" "view c = view (chunk_append c1 c2')"
    using push_append [OF Cons.prems 1(1) 2(2)] by blast
  moreover have "view (chunk_append c1 c2) = view (chunk_append c1 c2')"
    using view_append 2(3) by blast
  ultimately show ?case using 1 2 by auto
qed

end

end
