(* ===== verification/Hidden_Tags.thy ===== *)
theory Hidden_Tags
  imports Stream_Text
begin

text \<open>
  The parser that hides inline tags and extracts their contents,
  \<open>utils/stream-parser/src/inline_hidden_tag.rs\<close>, and its instance for citations, \<open>citation.rs\<close>.

  Positions in the buffered text are counted in characters. The code counts bytes, and every
  position it cuts at is the start or the end of an occurrence of a delimiter or the start of a
  suffix that equals a prefix of a delimiter, hence a character boundary; comparing such positions
  gives the same in both units. The loop of \<open>push_str\<close> does not end for empty delimiters, which
  \<open>new\<close> rejects by a panic: the loop is a partial function, and \<open>None\<close> is the value of a loop that
  does not end and of a constructor that panics.
\<close>

section \<open>The generic parser\<close>

record 'a inline_tag_spec =
  spec_tag :: 'a
  spec_open :: rstr
  spec_close :: rstr

record 'a extracted_tag =
  extracted_tag :: 'a
  extracted_content :: rstr

record 'a active_tag =
  active_of :: 'a
  active_close :: rstr
  active_content :: rstr

record 'a hidden_tag_parser =
  tag_specs :: "'a inline_tag_spec list"
  pending :: rstr
  active :: "'a active_tag option"

definition new_hidden_tag_parser :: "'a inline_tag_spec list \<Rightarrow> 'a hidden_tag_parser option" where
  "new_hidden_tag_parser specs =
     (if specs = [] \<or> list_ex (\<lambda>spec. spec_open spec = [] \<or> spec_close spec = []) specs then None
      else Some \<lparr>tag_specs = specs, pending = [], active = None\<rparr>)"

text \<open>\<open>str::find\<close>: the first position where a string occurs.\<close>

fun find_str :: "rstr \<Rightarrow> rstr \<Rightarrow> nat option" where
  "find_str [] needle = (if needle = [] then Some 0 else None)"
| "find_str (c # s) needle =
     (if starts_with (c # s) needle then Some 0 else map_option Suc (find_str s needle))"

fun open_candidates :: "rstr \<Rightarrow> nat \<Rightarrow> 'a inline_tag_spec list \<Rightarrow> (nat \<times> nat \<times> nat) list" where
  "open_candidates s idx [] = []"
| "open_candidates s idx (spec # specs) =
     (case find_str s (spec_open spec) of
        None \<Rightarrow> open_candidates s (Suc idx) specs
      | Some pos \<Rightarrow> (pos, str_len (spec_open spec), idx) # open_candidates s (Suc idx) specs)"

text \<open>The order of \<open>min_by\<close>: by position, then the longer opener, then the earlier one.\<close>

fun opens_before :: "nat \<times> nat \<times> nat \<Rightarrow> nat \<times> nat \<times> nat \<Rightarrow> bool" where
  "opens_before (pos_a, len_a, idx_a) (pos_b, len_b, idx_b) \<longleftrightarrow>
     pos_a < pos_b \<or> pos_a = pos_b \<and> (len_b < len_a \<or> len_a = len_b \<and> idx_a \<le> idx_b)"

fun first_open :: "(nat \<times> nat \<times> nat) list \<Rightarrow> (nat \<times> nat \<times> nat) option" where
  "first_open [] = None"
| "first_open (c # cs) =
     (case first_open cs of None \<Rightarrow> Some c | Some d \<Rightarrow> Some (if opens_before c d then c else d))"

definition find_next_open :: "'a inline_tag_spec list \<Rightarrow> rstr \<Rightarrow> (nat \<times> nat) option" where
  "find_next_open specs s =
     map_option (\<lambda>(pos, _, idx). (pos, idx)) (first_open (open_candidates s 0 specs))"

fun suffix_prefix_loop :: "rstr \<Rightarrow> rstr \<Rightarrow> nat \<Rightarrow> nat" where
  "suffix_prefix_loop s needle 0 = 0"
| "suffix_prefix_loop s needle (Suc k) =
     (if ends_with s (take (Suc k) needle) then Suc k else suffix_prefix_loop s needle k)"

definition longest_suffix_prefix_len :: "rstr \<Rightarrow> rstr \<Rightarrow> nat" where
  "longest_suffix_prefix_len s needle =
     suffix_prefix_loop s needle (min (length s) (length needle - 1))"

definition max_open_prefix_suffix_len :: "'a inline_tag_spec list \<Rightarrow> rstr \<Rightarrow> nat" where
  "max_open_prefix_suffix_len specs s =
     foldr max (map (\<lambda>spec. longest_suffix_prefix_len s (spec_open spec)) specs) 0"

definition push_visible_prefix :: "'x stream_chunk \<Rightarrow> rstr \<Rightarrow> 'x stream_chunk" where
  "push_visible_prefix out t =
     (if t \<noteq> [] then out\<lparr>visible_text := visible_text out @ t\<rparr> else out)"

definition drain_visible_to_suffix_match ::
  "'a hidden_tag_parser \<Rightarrow> 'a extracted_tag stream_chunk \<Rightarrow> nat
     \<Rightarrow> 'a hidden_tag_parser \<times> 'a extracted_tag stream_chunk" where
  "drain_visible_to_suffix_match p out keep_suffix_len =
     (let n = length (pending p) - keep_suffix_len in
      if n = 0 then (p, out)
      else (p\<lparr>pending := drop n (pending p)\<rparr>, push_visible_prefix out (take n (pending p))))"

text \<open>The branches of the loop of \<open>push_str\<close>.\<close>

definition close_tag ::
  "'a active_tag \<Rightarrow> nat \<Rightarrow> 'a hidden_tag_parser \<Rightarrow> 'a hidden_tag_parser" where
  "close_tag a close_idx p =
     p\<lparr>active := None, pending := drop (close_idx + length (active_close a)) (pending p)\<rparr>"

definition closed_tag :: "'a active_tag \<Rightarrow> rstr \<Rightarrow> 'a extracted_tag" where
  "closed_tag a t = \<lparr>extracted_tag = active_of a, extracted_content = active_content a @ t\<rparr>"

definition hold_close :: "'a active_tag \<Rightarrow> 'a hidden_tag_parser \<Rightarrow> 'a hidden_tag_parser" where
  "hold_close a p =
     (let keep = longest_suffix_prefix_len (pending p) (active_close a);
          n = length (pending p) - keep
      in if 0 < n
         then p\<lparr>active := Some (a\<lparr>active_content := active_content a @ take n (pending p)\<rparr>),
                pending := drop n (pending p)\<rparr>
         else p)"

definition open_tag :: "nat \<Rightarrow> nat \<Rightarrow> 'a hidden_tag_parser \<Rightarrow> 'a hidden_tag_parser" where
  "open_tag open_idx spec_idx p =
     (let spec = tag_specs p ! spec_idx in
      p\<lparr>pending := drop (open_idx + length (spec_open spec)) (pending p),
        active := Some \<lparr>active_of = spec_tag spec, active_close = spec_close spec,
                        active_content = []\<rparr>\<rparr>)"

partial_function (option) push_loop ::
  "'a hidden_tag_parser \<Rightarrow> 'a extracted_tag stream_chunk
     \<Rightarrow> ('a hidden_tag_parser \<times> 'a extracted_tag stream_chunk) option" where
  "push_loop p out =
     (case active p of
        Some a \<Rightarrow>
          (case find_str (pending p) (active_close a) of
             Some close_idx \<Rightarrow>
               push_loop (close_tag a close_idx p)
                 (out\<lparr>extracted := extracted out @ [closed_tag a (take close_idx (pending p))]\<rparr>)
           | None \<Rightarrow> Some (hold_close a p, out))
      | None \<Rightarrow>
          (case find_next_open (tag_specs p) (pending p) of
             Some at \<Rightarrow>
               push_loop (open_tag (fst at) (snd at) p)
                 (push_visible_prefix out (take (fst at) (pending p)))
           | None \<Rightarrow>
               Some (drain_visible_to_suffix_match p out
                 (max_open_prefix_suffix_len (tag_specs p) (pending p)))))"

declare push_loop.simps [code]

definition hidden_push_str ::
  "'a hidden_tag_parser \<Rightarrow> rstr \<Rightarrow> ('a hidden_tag_parser \<times> 'a extracted_tag stream_chunk) option" where
  "hidden_push_str p chunk = push_loop (p\<lparr>pending := pending p @ chunk\<rparr>) empty_chunk"

definition hidden_finish ::
  "'a hidden_tag_parser \<Rightarrow> 'a hidden_tag_parser \<times> 'a extracted_tag stream_chunk" where
  "hidden_finish p =
     (case active p of
        Some a \<Rightarrow>
          (p\<lparr>active := None, pending := []\<rparr>,
           empty_chunk\<lparr>extracted := [closed_tag a (pending p)]\<rparr>)
      | None \<Rightarrow> (p\<lparr>pending := []\<rparr>, empty_chunk\<lparr>visible_text := pending p\<rparr>))"

section \<open>Citations\<close>

datatype citation_tag = Citation

definition CITATION_OPEN :: rstr where
  "CITATION_OPEN = lit ''<oai-mem-citation>''"

definition CITATION_CLOSE :: rstr where
  "CITATION_CLOSE = lit ''</oai-mem-citation>''"

type_synonym citation_parser = "citation_tag hidden_tag_parser"

definition citation_spec :: "citation_tag inline_tag_spec" where
  "citation_spec = \<lparr>spec_tag = Citation, spec_open = CITATION_OPEN, spec_close = CITATION_CLOSE\<rparr>"

definition new_citation_parser :: "citation_parser option" where
  "new_citation_parser = new_hidden_tag_parser [citation_spec]"

definition citation_chunk :: "citation_tag extracted_tag stream_chunk \<Rightarrow> rstr stream_chunk" where
  "citation_chunk inner =
     \<lparr>visible_text = visible_text inner, extracted = map extracted_content (extracted inner)\<rparr>"

definition citation_push_str :: "citation_parser \<Rightarrow> rstr \<Rightarrow> (citation_parser \<times> rstr stream_chunk) option" where
  "citation_push_str p chunk =
     map_option (\<lambda>(p, inner). (p, citation_chunk inner)) (hidden_push_str p chunk)"

definition citation_finish :: "citation_parser \<Rightarrow> citation_parser \<times> rstr stream_chunk" where
  "citation_finish p = (let (p, inner) = hidden_finish p in (p, citation_chunk inner))"

definition strip_citations :: "rstr \<Rightarrow> (rstr \<times> rstr list) option" where
  "strip_citations t =
     (case new_citation_parser of
        None \<Rightarrow> None
      | Some parser \<Rightarrow>
          (case citation_push_str parser t of
             None \<Rightarrow> None
           | Some (parser, out) \<Rightarrow>
               let (_, tail) = citation_finish parser in
               Some (visible_text out @ visible_text tail, extracted out @ extracted tail)))"

section \<open>Occurrences\<close>

lemma starts_with_iff: "starts_with s p \<longleftrightarrow> (\<exists>t. s = p @ t)"
  by (metis append_eq_conv_conj append_take_drop_id starts_with_def)

lemma starts_with_length: "starts_with s p \<Longrightarrow> length p \<le> length s"
  by (auto simp: starts_with_iff)

lemma find_str_SomeD: "find_str s p = Some i \<Longrightarrow> starts_with (drop i s) p \<and> i + length p \<le> length s"
proof (induction s arbitrary: i)
  case (Cons c s)
  then show ?case by (auto split: if_splits dest: starts_with_length)
qed (auto simp: starts_with_def split: if_splits)

lemma find_str_append_left:
  "(\<And>j. j < length q \<Longrightarrow> \<not> starts_with (drop j (q @ s)) p) \<Longrightarrow>
   find_str (q @ s) p = map_option ((+) (length q)) (find_str s p)"
proof (induction q)
  case Nil
  then show ?case by (cases "find_str s p") simp_all
next
  case (Cons c q)
  have "\<not> starts_with (drop j (q @ s)) p" if "j < length q" for j
    using Cons.prems [of "Suc j"] that by simp
  then have "find_str (q @ s) p = map_option ((+) (length q)) (find_str s p)" by (rule Cons.IH)
  then show ?case using Cons.prems [of 0] by (cases "find_str s p") simp_all
qed

lemma find_str_minimal: "find_str s p = Some i \<Longrightarrow> j < i \<Longrightarrow> \<not> starts_with (drop j s) p"
proof (induction s arbitrary: i j)
  case (Cons c s)
  then show ?case by (cases j) (auto split: if_splits)
qed (auto split: if_splits)

lemma find_str_NoneD: "find_str s p = None \<Longrightarrow> j \<le> length s \<Longrightarrow> \<not> starts_with (drop j s) p"
proof (induction s arbitrary: j)
  case (Cons c s)
  then show ?case by (cases j) (auto split: if_splits)
qed (auto simp: starts_with_def split: if_splits)

lemma starts_with_append_left: "starts_with s p \<Longrightarrow> starts_with (s @ t) p"
  by (auto simp: starts_with_iff)

lemma find_str_eq_SomeI:
  assumes "starts_with (drop i s) p" "i \<le> length s" "\<And>j. j < i \<Longrightarrow> \<not> starts_with (drop j s) p"
  shows "find_str s p = Some i"
proof -
  have "find_str (take i s @ drop i s) p = map_option ((+) (length (take i s))) (find_str (drop i s) p)"
    by (rule find_str_append_left) (use assms in simp)
  moreover have "find_str (drop i s) p = Some 0"
    using assms(1) by (cases "drop i s") (auto simp: starts_with_def)
  ultimately show ?thesis using assms(2) by simp
qed

text \<open>An occurrence that a longer text adds reaches past the end of the shorter one.\<close>

lemma starts_with_append_cases:
  assumes "starts_with (drop j (s @ y)) p" "j \<le> length s"
  shows "starts_with (drop j s) p \<or> length s < j + length p \<and> drop j s = take (length s - j) p"
proof (cases "length p \<le> length s - j")
  case True
  then show ?thesis using assms by (simp add: starts_with_def)
next
  case False
  then have "drop j s = take (length s - j) p"
    using assms unfolding starts_with_iff by (auto simp: append_eq_append_conv_if split: if_splits)
  moreover have "length s < j + length p" using False by linarith
  ultimately show ?thesis by blast
qed

lemma find_str_append_right: "find_str s p = Some i \<Longrightarrow> find_str (s @ y) p = Some i"
proof -
  assume i: "find_str s p = Some i"
  then have b: "i + length p \<le> length s" using find_str_SomeD by blast
  show ?thesis
  proof (rule find_str_eq_SomeI)
    show "starts_with (drop i (s @ y)) p"
      using find_str_SomeD [OF i] starts_with_append_left by fastforce
    show "i \<le> length (s @ y)" using b by simp
    show "\<not> starts_with (drop j (s @ y)) p" if "j < i" for j
      using starts_with_append_cases [of j s y p] find_str_minimal [OF i that] that b by auto
  qed
qed

section \<open>The held-back suffix\<close>

text \<open>A suffix of the text that the needle may still complete.\<close>

definition open_suffix :: "rstr \<Rightarrow> rstr \<Rightarrow> nat \<Rightarrow> bool" where
  "open_suffix s needle k \<longleftrightarrow> k < length needle \<and> k \<le> length s \<and> drop (length s - k) s = take k needle"

lemma suffix_prefix_loop_le: "suffix_prefix_loop s n k \<le> k"
  by (induction k) auto

lemma suffix_prefix_loop_open:
  "k < length n \<Longrightarrow> k \<le> length s \<Longrightarrow> open_suffix s n (suffix_prefix_loop s n k)"
  by (induction k) (auto simp: open_suffix_def ends_with_def min_def)

lemma suffix_prefix_loop_greatest:
  "open_suffix s n j \<Longrightarrow> j \<le> k \<Longrightarrow> k < length n \<Longrightarrow> j \<le> suffix_prefix_loop s n k"
proof (induction k)
  case (Suc k)
  show ?case
  proof (cases "j = Suc k")
    case True
    then show ?thesis using Suc.prems by (auto simp: open_suffix_def ends_with_def min_def)
  next
    case False
    then show ?thesis using Suc by auto
  qed
qed simp

lemma longest_suffix_prefix_open: "n \<noteq> [] \<Longrightarrow> open_suffix s n (longest_suffix_prefix_len s n)"
  unfolding longest_suffix_prefix_len_def
  by (rule suffix_prefix_loop_open) (cases n; simp)+

lemma longest_suffix_prefix_greatest: "open_suffix s n k \<Longrightarrow> k \<le> longest_suffix_prefix_len s n"
  unfolding longest_suffix_prefix_len_def
  by (rule suffix_prefix_loop_greatest) (auto simp: open_suffix_def)

lemma longest_suffix_prefix_le: "longest_suffix_prefix_len s n \<le> length s"
  unfolding longest_suffix_prefix_len_def using suffix_prefix_loop_le by (meson le_trans min.cobounded1)

text \<open>
  What is held back of a text without an occurrence, at least the longest open suffix, is all that
  matters for the occurrences and the open suffixes of the text continued.
\<close>

lemma find_str_held:
  assumes "find_str s n = None" "longest_suffix_prefix_len s n \<le> k" "k \<le> length s"
  shows "find_str (s @ y) n = map_option ((+) (length s - k)) (find_str (drop (length s - k) s @ y) n)"
proof -
  let ?d = "length s - k"
  have "\<not> starts_with (drop j (s @ y)) n" if "j < ?d" for j
  proof
    assume "starts_with (drop j (s @ y)) n"
    then have "length s < j + length n \<and> drop j s = take (length s - j) n"
      using starts_with_append_cases [of j s y n] find_str_NoneD [OF assms(1), of j] that by auto
    then have "open_suffix s n (length s - j)" using that by (auto simp: open_suffix_def)
    then show False using longest_suffix_prefix_greatest assms(2) that by fastforce
  qed
  then have "find_str (take ?d s @ (drop ?d s @ y)) n
      = map_option ((+) (length (take ?d s))) (find_str (drop ?d s @ y) n)"
    by (intro find_str_append_left) (simp add: append.assoc [symmetric])
  then show ?thesis by (simp add: append.assoc [symmetric])
qed

lemma open_suffix_held:
  assumes "longest_suffix_prefix_len s n \<le> k" "k \<le> length s"
  shows "open_suffix (s @ y) n j \<longleftrightarrow> open_suffix (drop (length s - k) s @ y) n j"
proof (cases "j \<le> k + length y")
  case True
  have "drop (length s - k) s @ y = drop (length s - k) (s @ y)" by simp
  then show ?thesis using True assms(2) by (auto simp: open_suffix_def add.commute)
next
  case False
  have "\<not> open_suffix (s @ y) n j"
  proof
    assume o: "open_suffix (s @ y) n j"
    let ?i = "length s + length y - j"
    have "?i < length s - k" using False o by (auto simp: open_suffix_def)
    then have "drop ?i s @ y = take j n" using o by (auto simp: open_suffix_def)
    then have "drop ?i s = take (length s - ?i) (take j n)"
      using \<open>?i < length s - k\<close> by (metis append_eq_conv_conj length_drop)
    then have "open_suffix s n (length s - ?i)"
      using o \<open>?i < length s - k\<close> False by (auto simp: open_suffix_def min_def)
    then show False using longest_suffix_prefix_greatest [of s n] assms \<open>?i < length s - k\<close> by fastforce
  qed
  then show ?thesis using False assms(2) by (auto simp: open_suffix_def)
qed

lemma longest_suffix_prefix_held:
  assumes "n \<noteq> []" "longest_suffix_prefix_len s n \<le> k" "k \<le> length s"
  shows "longest_suffix_prefix_len (s @ y) n = longest_suffix_prefix_len (drop (length s - k) s @ y) n"
  using open_suffix_held [OF assms(2,3)] longest_suffix_prefix_open [OF assms(1)]
    longest_suffix_prefix_greatest
  by (metis order_antisym)

section \<open>The next opening tag\<close>

lemma opens_before_linear:
  "opens_before a b \<or> opens_before b a"
  "opens_before a b \<Longrightarrow> opens_before b c \<Longrightarrow> opens_before a c"
  by (cases a; cases b; cases c; auto)+

lemma opens_before_refl [simp]: "opens_before a a"
  by (cases a) simp

lemma opens_before_antisym: "opens_before a b \<Longrightarrow> opens_before b a \<Longrightarrow> a = b"
  by (cases a; cases b) auto

lemma first_open_eq_None_iff: "first_open cs = None \<longleftrightarrow> cs = []"
  by (cases cs) (auto split: option.splits)

lemma first_open_eq_Some_iff:
  "first_open cs = Some c \<longleftrightarrow> c \<in> set cs \<and> (\<forall>d\<in>set cs. opens_before c d)"
proof (induction cs arbitrary: c)
  case (Cons b cs)
  show ?case
  proof (cases "first_open cs")
    case None
    then show ?thesis by (auto simp: first_open_eq_None_iff)
  next
    case (Some d)
    then have d: "d \<in> set cs" "\<forall>e\<in>set cs. opens_before d e" using Cons.IH by blast+
    show ?thesis
    proof (cases "opens_before b d")
      case True
      then have "\<forall>e\<in>set (b # cs). opens_before b e" using d opens_before_linear(2) by auto
      then show ?thesis using Some True by (auto intro: opens_before_antisym simp del: opens_before.simps)
    next
      case False
      then have "\<forall>e\<in>set (b # cs). opens_before d e" using d opens_before_linear(1) [of b d] by auto
      then show ?thesis using Some False d(1) by (auto intro: opens_before_antisym simp del: opens_before.simps)
    qed
  qed
qed simp

lemma open_candidates_iff:
  "(pos, len, idx) \<in> set (open_candidates s k specs) \<longleftrightarrow>
     k \<le> idx \<and> idx < k + length specs \<and> find_str s (spec_open (specs ! (idx - k))) = Some pos
     \<and> len = str_len (spec_open (specs ! (idx - k)))"
proof (induction specs arbitrary: k)
  case (Cons spec specs)
  show ?case
    using Cons.IH [of "Suc k"] by (cases "idx = k") (auto simp: nth_Cons split: option.splits nat.splits
        simp flip: Suc_diff_Suc)
qed simp

lemma find_next_open_eq_Some_iff:
  "find_next_open specs s = Some (pos, idx) \<longleftrightarrow>
     idx < length specs \<and> find_str s (spec_open (specs ! idx)) = Some pos
     \<and> (\<forall>pos' idx'. idx' < length specs \<and> find_str s (spec_open (specs ! idx')) = Some pos' \<longrightarrow>
          opens_before (pos, str_len (spec_open (specs ! idx)), idx)
            (pos', str_len (spec_open (specs ! idx')), idx'))"
  unfolding find_next_open_def
  by (auto simp: first_open_eq_Some_iff open_candidates_iff Ball_def split_paired_All
      simp del: opens_before.simps)

lemma find_next_open_eq_None_iff:
  "find_next_open specs s = None \<longleftrightarrow> (\<forall>spec\<in>set specs. find_str s (spec_open spec) = None)"
proof -
  have "open_candidates s k specs = [] \<longleftrightarrow> (\<forall>spec\<in>set specs. find_str s (spec_open spec) = None)" for k
    by (induction specs arbitrary: k) (auto split: option.splits)
  then show ?thesis by (simp add: find_next_open_def first_open_eq_None_iff)
qed

text \<open>
  Tags that can be told apart while they arrive: no delimiter is empty, and no opener is complete
  before the last character of another one that contains it.
\<close>

definition separate_tags :: "'a inline_tag_spec list \<Rightarrow> bool" where
  "separate_tags specs \<longleftrightarrow>
     list_all (\<lambda>a. spec_open a \<noteq> [] \<and> spec_close a \<noteq> []
       \<and> list_all (\<lambda>b. find_str (butlast (spec_open b)) (spec_open a) = None) specs) specs"

lemma separate_tagsD:
  assumes "separate_tags specs" "a \<in> set specs"
  shows "spec_open a \<noteq> []" "spec_close a \<noteq> []"
    and "b \<in> set specs \<Longrightarrow> find_str (butlast (spec_open b)) (spec_open a) = None"
  using assms by (auto simp: separate_tags_def list_all_iff)

lemma find_str_inside:
  assumes "starts_with (drop i t) a" "starts_with (drop j t) b" "j \<le> i"
    and "i + length a < j + length b"
  shows "find_str (butlast b) a \<noteq> None"
proof -
  obtain r r' where r: "drop j t = b @ r" "drop i t = a @ r'"
    using assms(1,2) by (auto simp: starts_with_iff)
  have "drop i t = drop (i - j) (drop j t)" using assms(3) by simp
  then have "drop (i - j) b @ r = a @ r'" using r assms(3,4) by simp
  moreover have "length a < length (drop (i - j) b)" using assms(3,4) by simp
  ultimately obtain z where z: "drop (i - j) b = a @ z"
    by (auto simp: append_eq_append_conv2)
  moreover have "z \<noteq> []" using arg_cong [OF z, of length] assms(3,4) by auto
  ultimately have "drop (i - j) (butlast b) = a @ butlast z" by (simp add: drop_butlast butlast_append)
  then have "starts_with (drop (i - j) (butlast b)) a" by (simp add: starts_with_def)
  moreover have "i - j \<le> length (butlast b)" using assms(3,4) by simp
  ultimately show ?thesis using find_str_NoneD [of "butlast b" a "i - j"] by auto
qed

lemma find_next_open_append:
  assumes "separate_tags specs" "find_next_open specs s = Some (pos, idx)"
  shows "find_next_open specs (s @ y) = Some (pos, idx)"
proof -
  let ?o = "\<lambda>i. spec_open (specs ! i)"
  have idx: "idx < length specs" "find_str s (?o idx) = Some pos"
    and first: "\<And>pos' i. i < length specs \<Longrightarrow> find_str s (?o i) = Some pos' \<Longrightarrow>
        opens_before (pos, str_len (?o idx), idx) (pos', str_len (?o i), i)"
    using assms(2) by (auto simp: find_next_open_eq_Some_iff)
  have "opens_before (pos, str_len (?o idx), idx) (pos', str_len (?o i), i)"
    if i: "i < length specs" "find_str (s @ y) (?o i) = Some pos'" for pos' i
  proof (cases "find_str s (?o i)")
    case (Some q)
    then show ?thesis using first [OF i(1)] find_str_append_right [OF Some, of y] i(2) by simp
  next
    case None
    have found: "starts_with (drop pos' (s @ y)) (?o i)" "pos' + length (?o i) \<le> length (s @ y)"
      using find_str_SomeD [OF i(2)] by auto
    have at: "starts_with (drop pos (s @ y)) (?o idx)" "pos + length (?o idx) \<le> length s"
      using find_str_SomeD [OF find_str_append_right [OF idx(2)]] find_str_SomeD [OF idx(2)] by auto
    have "pos < pos'"
    proof (rule ccontr)
      assume "\<not> pos < pos'"
      then have "pos' \<le> length s" using at(2) by linarith
      then have "length s < pos' + length (?o i)"
        using starts_with_append_cases [OF found(1)] find_str_NoneD [OF None] by auto
      then have "find_str (butlast (?o i)) (?o idx) \<noteq> None"
        using find_str_inside [OF at(1) found(1)] \<open>\<not> pos < pos'\<close> at(2) by simp
      then show False using separate_tagsD(3) [OF assms(1)] idx(1) i(1) by (simp add: nth_mem)
    qed
    then show ?thesis by simp
  qed
  then show ?thesis using idx find_str_append_right by (auto simp: find_next_open_eq_Some_iff)
qed

lemma max_open_prefix_suffix_ge:
  "spec \<in> set specs \<Longrightarrow> longest_suffix_prefix_len s (spec_open spec) \<le> max_open_prefix_suffix_len specs s"
  unfolding max_open_prefix_suffix_len_def by (induction specs) (auto simp: le_max_iff_disj)

lemma max_open_prefix_suffix_le: "max_open_prefix_suffix_len specs s \<le> length s"
  unfolding max_open_prefix_suffix_len_def
  by (induction specs) (auto simp: longest_suffix_prefix_le)

lemma find_next_open_held:
  assumes "find_next_open specs s = None" "k = max_open_prefix_suffix_len specs s"
  shows "find_next_open specs (s @ y) =
    map_option (\<lambda>(pos, idx). (length s - k + pos, idx)) (find_next_open specs (drop (length s - k) s @ y))"
proof -
  let ?d = "length s - k" and ?r = "drop (length s - k) s @ y"
  have held: "find_str (s @ y) (spec_open spec) = map_option ((+) ?d) (find_str ?r (spec_open spec))"
    if "spec \<in> set specs" for spec
    using find_str_held [of s "spec_open spec" k y] assms that max_open_prefix_suffix_ge [OF that]
      max_open_prefix_suffix_le [of specs s]
    by (auto simp: find_next_open_eq_None_iff)
  have shift: "open_candidates (s @ y) n sp = map (\<lambda>(pos, len, idx). (?d + pos, len, idx)) (open_candidates ?r n sp)"
    if "set sp \<subseteq> set specs" for n and sp :: "'a inline_tag_spec list"
    using that by (induction sp arbitrary: n) (auto simp: held split: option.splits)
  have "first_open (map (\<lambda>(pos, len, idx). (?d + pos, len, idx)) cs)
      = map_option (\<lambda>(pos, len, idx). (?d + pos, len, idx)) (first_open cs)" for cs
    by (induction cs) (auto split: option.splits)
  then show ?thesis
    by (simp add: find_next_open_def shift option.map_comp comp_def case_prod_beta)
qed

lemma max_open_prefix_suffix_held:
  assumes "separate_tags specs" "k = max_open_prefix_suffix_len specs s"
  shows "max_open_prefix_suffix_len specs (s @ y) =
    max_open_prefix_suffix_len specs (drop (length s - k) s @ y)"
proof -
  have "longest_suffix_prefix_len (s @ y) (spec_open spec)
      = longest_suffix_prefix_len (drop (length s - k) s @ y) (spec_open spec)"
    if "spec \<in> set specs" for spec
    using longest_suffix_prefix_held [OF separate_tagsD(1) [OF assms(1) that]] assms(2)
      max_open_prefix_suffix_ge [OF that] max_open_prefix_suffix_le by blast
  then show ?thesis unfolding max_open_prefix_suffix_len_def by (metis (no_types, lifting) map_eq_conv)
qed

section \<open>Continuing a stream\<close>

lemma push_loop_close:
  "active p = Some a \<Longrightarrow> find_str (pending p) (active_close a) = Some i \<Longrightarrow>
   push_loop p out = push_loop (close_tag a i p)
     (out\<lparr>extracted := extracted out @ [closed_tag a (take i (pending p))]\<rparr>)"
  by (subst push_loop.simps) simp

lemma push_loop_hold:
  "active p = Some a \<Longrightarrow> find_str (pending p) (active_close a) = None \<Longrightarrow>
   push_loop p out = Some (hold_close a p, out)"
  by (subst push_loop.simps) simp

lemma push_loop_open:
  "active p = None \<Longrightarrow> find_next_open (tag_specs p) (pending p) = Some (i, k) \<Longrightarrow>
   push_loop p out = push_loop (open_tag i k p) (push_visible_prefix out (take i (pending p)))"
  by (subst push_loop.simps) simp

lemma push_loop_drain:
  "active p = None \<Longrightarrow> find_next_open (tag_specs p) (pending p) = None \<Longrightarrow>
   push_loop p out = Some (drain_visible_to_suffix_match p out
     (max_open_prefix_suffix_len (tag_specs p) (pending p)))"
  by (subst push_loop.simps) simp

lemmas push_loop_steps = push_loop_close push_loop_hold push_loop_open push_loop_drain

lemma chunk_append_extracted: "out\<lparr>extracted := extracted out @ xs\<rparr> = chunk_append out (empty_chunk\<lparr>extracted := xs\<rparr>)"
  by (cases out) (simp add: chunk_append_def empty_chunk_def)

lemma push_visible_prefix_append:
  "push_visible_prefix out t = chunk_append out (empty_chunk\<lparr>visible_text := t\<rparr>)"
  by (cases out) (simp add: push_visible_prefix_def chunk_append_def empty_chunk_def)

definition tags_ok :: "'a hidden_tag_parser \<Rightarrow> bool" where
  "tags_ok p \<longleftrightarrow> separate_tags (tag_specs p)
     \<and> (case active p of None \<Rightarrow> True | Some a \<Rightarrow> active_close a \<noteq> [])"

abbreviation more_pending :: "'a hidden_tag_parser \<Rightarrow> rstr \<Rightarrow> 'a hidden_tag_parser" where
  "more_pending p y \<equiv> p\<lparr>pending := pending p @ y\<rparr>"

lemma drop_past: "d \<le> length s \<Longrightarrow> drop (d + m) (s @ y) = drop m (drop d s @ y)"
proof -
  assume "d \<le> length s"
  then have "drop d (s @ y) = drop d s @ y" by simp
  then show ?thesis using drop_drop [of m d "s @ y"] by (simp only: add.commute)
qed

lemma take_past: "d \<le> length s \<Longrightarrow> take (d + m) (s @ y) = take d s @ take m (drop d s @ y)"
  by (simp only: take_add) simp

lemma hold_close_eq:
  "active p = Some a \<Longrightarrow> n = length (pending p) - longest_suffix_prefix_len (pending p) (active_close a) \<Longrightarrow>
   hold_close a p = p\<lparr>active := Some (a\<lparr>active_content := active_content a @ take n (pending p)\<rparr>),
     pending := drop n (pending p)\<rparr>"
  by (auto simp: hold_close_def Let_def)

lemma drain_eq:
  "drain_visible_to_suffix_match p out k =
     (p\<lparr>pending := drop (length (pending p) - k) (pending p)\<rparr>,
      chunk_append out (empty_chunk\<lparr>visible_text := take (length (pending p) - k) (pending p)\<rparr>))"
  by (cases p, cases out)
    (auto simp: drain_visible_to_suffix_match_def Let_def push_visible_prefix_def chunk_append_def
      empty_chunk_def)

text \<open>Holding back a suffix loses nothing of what a longer text would give.\<close>

lemma hold_close_more:
  assumes a: "active p = Some a" "active_close a \<noteq> []" and none: "find_str (pending p) (active_close a) = None"
  shows "push_loop (more_pending p y) out = push_loop (more_pending (hold_close a p) y) out"
proof -
  obtain k where k: "k = longest_suffix_prefix_len (pending p) (active_close a)" by blast
  obtain d where d: "d = length (pending p) - k" by blast
  obtain r where r: "r = drop d (pending p) @ y" by blast
  let ?n = "active_close a" and ?t = "pending p @ y"
  let ?a = "a\<lparr>active_content := active_content a @ take d (pending p)\<rparr>"
  have le: "k \<le> length (pending p)" unfolding k by (rule longest_suffix_prefix_le)
  then have le': "d \<le> length (pending p)" "length r + d = length ?t" using d r by simp_all
  have q: "hold_close a p = p\<lparr>active := Some ?a, pending := drop d (pending p)\<rparr>"
    using hold_close_eq [OF a(1) d [unfolded k]] .
  have find: "find_str ?t ?n = map_option ((+) d) (find_str r ?n)"
    using find_str_held [OF none _ le, of y] k d r by simp
  have lsp: "longest_suffix_prefix_len ?t ?n = longest_suffix_prefix_len r ?n"
    using longest_suffix_prefix_held [OF a(2) _ le, of y] k d r by simp
  have q': "active (more_pending (hold_close a p) y) = Some ?a" "pending (more_pending (hold_close a p) y) = r"
    "active_close ?a = ?n" by (simp_all add: q r)
  show ?thesis
  proof (cases "find_str r ?n")
    case None
    obtain e where e: "e = length r - longest_suffix_prefix_len r ?n" by blast
    then have "d + e = length ?t - longest_suffix_prefix_len ?t ?n"
      using le'(2) longest_suffix_prefix_le [of r ?n] lsp by linarith
    then have "hold_close a (more_pending p y) = (more_pending p y)\<lparr>active :=
        Some (a\<lparr>active_content := active_content a @ take (d + e) ?t\<rparr>), pending := drop (d + e) ?t\<rparr>"
      using hold_close_eq [of "more_pending p y" a "d + e"] a(1)
      by (simp del: take_append drop_append)
    also have "\<dots> = hold_close ?a (more_pending (hold_close a p) y)"
      using hold_close_eq [OF q'(1), of e] unfolding q' take_past [OF le'(1)] drop_past [OF le'(1)]
      by (simp add: e q r del: take_append drop_append)
    finally have "hold_close a (more_pending p y) = hold_close ?a (more_pending (hold_close a p) y)" .
    moreover have "push_loop (more_pending p y) out = Some (hold_close a (more_pending p y), out)"
      by (rule push_loop_hold) (simp_all add: a(1) find None)
    moreover have "push_loop (more_pending (hold_close a p) y) out
        = Some (hold_close ?a (more_pending (hold_close a p) y), out)"
      by (rule push_loop_hold [OF q'(1)]) (simp only: q' None)
    ultimately show ?thesis by simp
  next
    case (Some j)
    then have "push_loop (more_pending p y) out
        = push_loop (close_tag a (d + j) (more_pending p y))
            (out\<lparr>extracted := extracted out @ [closed_tag a (take (d + j) ?t)]\<rparr>)"
      using push_loop_close [of "more_pending p y" a "d + j"] a(1) find by simp
    moreover have "push_loop (more_pending (hold_close a p) y) out
        = push_loop (close_tag ?a j (more_pending (hold_close a p) y))
            (out\<lparr>extracted := extracted out @ [closed_tag ?a (take j r)]\<rparr>)"
      using push_loop_close [OF q'(1)] Some unfolding q' by blast
    moreover have "close_tag a (d + j) (more_pending p y) = close_tag ?a j (more_pending (hold_close a p) y)"
      by (simp add: close_tag_def q add.assoc drop_past [OF le'(1)] del: drop_append)
    moreover have "closed_tag a (take (d + j) ?t) = closed_tag ?a (take j r)"
      by (simp add: closed_tag_def take_past [OF le'(1)] r del: take_append)
    ultimately show ?thesis by simp
  qed
qed

abbreviation shown :: "rstr \<Rightarrow> 'x stream_chunk" where
  "shown t \<equiv> empty_chunk\<lparr>visible_text := t\<rparr>"

lemma shown_append: "chunk_append (chunk_append out (shown t)) (shown u) = chunk_append out (shown (t @ u))"
  by (simp add: chunk_append_def empty_chunk_def)

lemma drain_more:
  assumes ok: "active p = None" "separate_tags (tag_specs p)"
    and none: "find_next_open (tag_specs p) (pending p) = None"
    and d: "d = length (pending p) - max_open_prefix_suffix_len (tag_specs p) (pending p)"
  shows "push_loop (more_pending p y) out
    = push_loop (more_pending (p\<lparr>pending := drop d (pending p)\<rparr>) y) (chunk_append out (shown (take d (pending p))))"
proof -
  obtain r where r: "r = drop d (pending p) @ y" by blast
  let ?t = "pending p @ y" and ?s = "tag_specs p"
  let ?q = "more_pending (p\<lparr>pending := drop d (pending p)\<rparr>) y"
  let ?out = "chunk_append out (shown (take d (pending p)))"
  have le: "max_open_prefix_suffix_len ?s (pending p) \<le> length (pending p)"
    by (rule max_open_prefix_suffix_le)
  then have le': "d \<le> length (pending p)" "length r + d = length ?t" using d r by simp_all
  have find: "find_next_open ?s ?t = map_option (\<lambda>(pos, idx). (d + pos, idx)) (find_next_open ?s r)"
    using find_next_open_held [OF none refl, of y] d r by simp
  have lsp: "max_open_prefix_suffix_len ?s ?t = max_open_prefix_suffix_len ?s r"
    using max_open_prefix_suffix_held [OF ok(2) refl, of "pending p" y] d r by simp
  have q: "active ?q = None" "tag_specs ?q = ?s" "pending ?q = r" using ok(1) r by simp_all
  show ?thesis
  proof (cases "find_next_open ?s r")
    case None
    obtain e where e: "e = length r - max_open_prefix_suffix_len ?s r" by blast
    then have "d + e = length ?t - max_open_prefix_suffix_len ?s ?t"
      using le'(2) max_open_prefix_suffix_le [of ?s r] lsp by linarith
    then have "push_loop (more_pending p y) out
        = Some (p\<lparr>pending := drop (d + e) ?t\<rparr>, chunk_append out (shown (take (d + e) ?t)))"
      using push_loop_drain [of "more_pending p y" out] ok(1) find None
      by (simp add: drain_eq del: take_append drop_append)
    moreover have "push_loop ?q ?out = Some (p\<lparr>pending := drop e r\<rparr>, chunk_append ?out (shown (take e r)))"
      using push_loop_drain [OF q(1)] None unfolding q drain_eq e [symmetric] by simp
    ultimately show ?thesis
      by (simp add: take_past [OF le'(1)] drop_past [OF le'(1)] r shown_append del: take_append drop_append)
  next
    case (Some at)
    obtain i k where at: "at = (i, k)" by (cases at)
    have "push_loop (more_pending p y) out
        = push_loop (open_tag (d + i) k (more_pending p y)) (chunk_append out (shown (take (d + i) ?t)))"
      using push_loop_open [of "more_pending p y" "d + i" k] ok(1) find Some at
      by (simp add: push_visible_prefix_append del: take_append)
    moreover have "push_loop ?q ?out = push_loop (open_tag i k ?q) (chunk_append ?out (shown (take i r)))"
      using push_loop_open [OF q(1)] Some at unfolding q push_visible_prefix_append by blast
    moreover have "open_tag (d + i) k (more_pending p y) = open_tag i k ?q"
      by (simp add: open_tag_def Let_def add.assoc drop_past [OF le'(1)] del: drop_append)
    ultimately show ?thesis
      by (simp add: take_past [OF le'(1)] r shown_append del: take_append)
  qed
qed

text \<open>
  The loop ends, and running it on a text and then on the rest with what it left behind is
  running it on the whole.
\<close>

definition continues :: "'a hidden_tag_parser \<Rightarrow> bool" where
  "continues p \<longleftrightarrow> (\<exists>p1 c1. (\<forall>out. push_loop p out = Some (p1, chunk_append out c1)) \<and> tags_ok p1
     \<and> (\<forall>y out. push_loop (more_pending p y) out = push_loop (more_pending p1 y) (chunk_append out c1)))"

lemma continues_step:
  assumes "continues q"
    and "\<And>out. push_loop p out = push_loop q (chunk_append out c)"
    and "\<And>y out. push_loop (more_pending p y) out = push_loop (more_pending q y) (chunk_append out c)"
  shows "continues p"
proof -
  obtain p1 c1 where "\<And>out. push_loop q out = Some (p1, chunk_append out c1)" "tags_ok p1"
      "\<And>y out. push_loop (more_pending q y) out = push_loop (more_pending p1 y) (chunk_append out c1)"
    using assms(1) by (auto simp: continues_def)
  then show ?thesis
    unfolding continues_def
    by (intro exI [of _ p1] exI [of _ "chunk_append c c1"]) (simp add: assms(2,3) chunk_append_assoc)
qed

lemma continues_active:
  fixes p :: "'a hidden_tag_parser"
  assumes "tags_ok p" "active p = Some a"
    and "\<And>q :: 'a hidden_tag_parser. tags_ok q \<Longrightarrow> length (pending q) < length (pending p) \<Longrightarrow> continues q"
  shows "continues p"
proof -
  have close: "active_close a \<noteq> []" using assms(1,2) by (simp add: tags_ok_def)
  show ?thesis
  proof (cases "find_str (pending p) (active_close a)")
    case None
    have "tags_ok (hold_close a p)"
      using hold_close_eq [OF assms(2) refl] assms(1) close by (simp add: tags_ok_def)
    then show ?thesis
      unfolding continues_def
      using push_loop_hold [OF assms(2) None] hold_close_more [OF assms(2) close None]
      by (intro exI [of _ "hold_close a p"] exI [of _ empty_chunk]) simp
  next
    case (Some i)
    then have b: "i + length (active_close a) \<le> length (pending p)" using find_str_SomeD by blast
    have cont: "continues (close_tag a i p)"
      using assms(1) b close by (intro assms(3)) (auto simp: tags_ok_def close_tag_def neq_Nil_conv)
    have more: "close_tag a i (more_pending p y) = more_pending (close_tag a i p) y" for y
      using b by (simp add: close_tag_def)
    show ?thesis
    proof (rule continues_step [OF cont])
      show "push_loop p out = push_loop (close_tag a i p)
          (chunk_append out (empty_chunk\<lparr>extracted := [closed_tag a (take i (pending p))]\<rparr>))" for out
        unfolding chunk_append_extracted [symmetric] by (rule push_loop_close [OF assms(2) Some])
      show "push_loop (more_pending p y) out = push_loop (more_pending (close_tag a i p) y)
          (chunk_append out (empty_chunk\<lparr>extracted := [closed_tag a (take i (pending p))]\<rparr>))" for y out
        using push_loop_close [of "more_pending p y" a i out] assms(2) find_str_append_right [OF Some, of y]
          more [of y] b
        unfolding chunk_append_extracted by simp
    qed
  qed
qed

lemma continues_inactive:
  fixes p :: "'a hidden_tag_parser"
  assumes "tags_ok p" "active p = None"
    and "\<And>q :: 'a hidden_tag_parser. tags_ok q \<Longrightarrow> length (pending q) < length (pending p) \<Longrightarrow> continues q"
  shows "continues p"
proof -
  have sep: "separate_tags (tag_specs p)" using assms(1) by (simp add: tags_ok_def)
  show ?thesis
  proof (cases "find_next_open (tag_specs p) (pending p)")
    case None
    obtain d where d: "d = length (pending p) - max_open_prefix_suffix_len (tag_specs p) (pending p)" by blast
    let ?q = "p\<lparr>pending := drop d (pending p)\<rparr>"
    have "tags_ok ?q" using assms(1) by (simp add: tags_ok_def)
    then show ?thesis
      unfolding continues_def
      using push_loop_drain [OF assms(2) None] drain_more [OF assms(2) sep None d]
      by (intro exI [of _ ?q] exI [of _ "shown (take d (pending p))"]) (simp add: drain_eq d)
  next
    case (Some at)
    obtain i k where at: "find_next_open (tag_specs p) (pending p) = Some (i, k)" using Some by (cases at) simp
    then have k: "k < length (tag_specs p)" and "find_str (pending p) (spec_open (tag_specs p ! k)) = Some i"
      by (auto simp: find_next_open_eq_Some_iff)
    then have b: "i + length (spec_open (tag_specs p ! k)) \<le> length (pending p)" using find_str_SomeD by blast
    have "spec_open (tag_specs p ! k) \<noteq> []" "spec_close (tag_specs p ! k) \<noteq> []"
      using separate_tagsD(1,2) [OF sep] k by simp_all
    then have cont: "continues (open_tag i k p)"
      using sep b by (intro assms(3)) (auto simp: tags_ok_def open_tag_def Let_def neq_Nil_conv)
    have more: "open_tag i k (more_pending p y) = more_pending (open_tag i k p) y" for y
      using b by (cases p) (simp add: open_tag_def Let_def)
    show ?thesis
    proof (rule continues_step [OF cont])
      show "push_loop p out = push_loop (open_tag i k p) (chunk_append out (shown (take i (pending p))))" for out
        unfolding push_visible_prefix_append [symmetric] by (rule push_loop_open [OF assms(2) at])
      show "push_loop (more_pending p y) out
          = push_loop (more_pending (open_tag i k p) y) (chunk_append out (shown (take i (pending p))))" for y out
        using push_loop_open [of "more_pending p y" i k out] assms(2) find_next_open_append [OF sep at, of y]
          more [of y] b
        unfolding push_visible_prefix_append by simp
    qed
  qed
qed

lemma push_loop_continues: "tags_ok p \<Longrightarrow> continues p"
proof (induction "length (pending p)" arbitrary: p rule: less_induct)
  case less
  then show ?case using continues_active [of p] continues_inactive [of p] by (cases "active p") auto
qed

section \<open>The parser as a stream parser\<close>

text \<open>A parser between two pushes: it has nothing left to do.\<close>

definition settled :: "'a hidden_tag_parser \<Rightarrow> bool" where
  "settled p \<longleftrightarrow> tags_ok p \<and> push_loop p empty_chunk = Some (p, empty_chunk)"

lemma more_pending_Nil [simp]: "more_pending p [] = p"
  by (cases p) simp

lemma hidden_push_total:
  fixes p :: "'a hidden_tag_parser"
  assumes "tags_ok p"
  obtains p' c where "hidden_push_str p t = Some (p', c)" "settled p'"
    and "\<And>u. hidden_push_str p (t @ u) = map_option (\<lambda>(q, c'). (q, chunk_append c c')) (hidden_push_str p' u)"
proof -
  have "continues (more_pending p t)" using assms by (intro push_loop_continues) (simp add: tags_ok_def)
  then obtain p' c where loop: "\<And>out. push_loop (more_pending p t) out = Some (p', chunk_append out c)"
      and ok: "tags_ok p'"
      and more: "\<And>y out. push_loop (more_pending (more_pending p t) y) out
        = push_loop (more_pending p' y) (chunk_append out c)"
    unfolding continues_def by blast
  have acc: "push_loop q out = map_option (\<lambda>(q, c'). (q, chunk_append out c')) (push_loop q empty_chunk)"
    if "tags_ok q" for q :: "'a hidden_tag_parser" and out
    using push_loop_continues [OF that] by (auto simp: continues_def)
  have ok': "tags_ok (more_pending p' u)" for u using ok by (simp add: tags_ok_def)
  have "Some (p', c) = map_option (\<lambda>(q, c'). (q, chunk_append c c')) (push_loop p' empty_chunk)"
    using more [of "[]" empty_chunk] loop [of empty_chunk] acc [OF ok, of c] by simp
  then have "push_loop p' empty_chunk = Some (p', empty_chunk)"
    by (cases "push_loop p' empty_chunk") auto
  then have "settled p'" using ok by (simp add: settled_def)
  show ?thesis
  proof (rule that)
    show "settled p'" by fact
    show "hidden_push_str p t = Some (p', c)"
      using loop [of empty_chunk] by (simp add: hidden_push_str_def)
    show "hidden_push_str p (t @ u)
        = map_option (\<lambda>(q, c'). (q, chunk_append c c')) (hidden_push_str p' u)" for u
      unfolding hidden_push_str_def using more [of u empty_chunk] acc [OF ok' [of u], of c] by simp
  qed
qed

lemma settled_ok: "settled p \<Longrightarrow> tags_ok p"
  by (simp add: settled_def)

lemma settled_push_Nil: "settled p \<Longrightarrow> hidden_push_str p [] = Some (p, empty_chunk)"
  by (simp add: settled_def hidden_push_str_def)

lemma settled_fresh:
  assumes "separate_tags (tag_specs p)" "active p = None" "pending p = []"
  shows "settled p"
proof -
  have "find_next_open (tag_specs p) [] = None"
    using separate_tagsD(1) [OF assms(1)] by (auto simp: find_next_open_eq_None_iff)
  then have "push_loop p empty_chunk = Some (drain_visible_to_suffix_match p empty_chunk
      (max_open_prefix_suffix_len (tag_specs p) (pending p)))"
    using assms(2,3) by (intro push_loop_drain) simp_all
  then show ?thesis
    using assms by (simp add: settled_def tags_ok_def drain_visible_to_suffix_match_def)
qed

lemma settled_finish: "settled p \<Longrightarrow> settled (fst (hidden_finish p))"
  by (rule settled_fresh)
    (auto simp: hidden_finish_def settled_def tags_ok_def split: option.splits)

interpretation hidden: stream_text_parser settled hidden_push_str hidden_finish "\<lambda>c. c"
proof
  fix s :: "'a hidden_tag_parser" and t
  assume s: "settled s"
  obtain p c where p: "hidden_push_str s t = Some (p, c)" "settled p"
      "\<And>u. hidden_push_str s (t @ u) = map_option (\<lambda>(q, c'). (q, chunk_append c c')) (hidden_push_str p u)"
    using hidden_push_total [OF settled_ok [OF s], of t] by blast
  from p(1,2) show "\<exists>s' c. hidden_push_str s t = Some (s', c) \<and> settled s'" by blast
  show "\<exists>c. hidden_push_str s (t @ u) = Some (s2, c) \<and> c = chunk_append c1 c2"
    if "hidden_push_str s t = Some (s1, c1)" "hidden_push_str s1 u = Some (s2, c2)" for s1 c1 u s2 c2
  proof -
    have "p = s1" "c = c1" using p(1) that(1) by simp_all
    then show ?thesis using p(3) [of u] that(2) by simp
  qed
  show "hidden_push_str s [] = Some (s, empty_chunk)" using s by (rule settled_push_Nil)
  show "settled (fst (hidden_finish s))" using s by (rule settled_finish)
qed simp

section \<open>Termination\<close>

text \<open>The delimiters of a constructed parser are not empty, and no more is needed for the loop to end.\<close>

definition delimited :: "'a hidden_tag_parser \<Rightarrow> bool" where
  "delimited p \<longleftrightarrow> list_all (\<lambda>spec. spec_open spec \<noteq> [] \<and> spec_close spec \<noteq> []) (tag_specs p)
     \<and> (case active p of None \<Rightarrow> True | Some a \<Rightarrow> active_close a \<noteq> [])"

lemma delimited_close:
  assumes "delimited p" "active p = Some a" "find_str (pending p) (active_close a) = Some i"
  shows "delimited (close_tag a i p)" "length (pending (close_tag a i p)) < length (pending p)"
  using assms find_str_SomeD [OF assms(3)] by (auto simp: delimited_def close_tag_def neq_Nil_conv)

lemma delimited_open:
  assumes "delimited p" "find_next_open (tag_specs p) (pending p) = Some (i, k)"
  shows "delimited (open_tag i k p)" "length (pending (open_tag i k p)) < length (pending p)"
proof -
  have k: "k < length (tag_specs p)" "find_str (pending p) (spec_open (tag_specs p ! k)) = Some i"
    using assms(2) by (auto simp: find_next_open_eq_Some_iff)
  moreover have "spec_open (tag_specs p ! k) \<noteq> []" "spec_close (tag_specs p ! k) \<noteq> []"
    using assms(1) k(1) by (auto simp: delimited_def list_all_length)
  ultimately show "delimited (open_tag i k p)" "length (pending (open_tag i k p)) < length (pending p)"
    using assms(1) find_str_SomeD [OF k(2)] by (auto simp: delimited_def open_tag_def Let_def neq_Nil_conv)
qed

lemma push_loop_returns: "delimited p \<Longrightarrow> \<exists>q c. push_loop p out = Some (q, c) \<and> delimited q"
proof (induction "length (pending p)" arbitrary: p out rule: less_induct)
  case less
  show ?case
  proof (cases "active p")
    case (Some a)
    show ?thesis
    proof (cases "find_str (pending p) (active_close a)")
      case None
      then show ?thesis
        using push_loop_hold [OF Some None] hold_close_eq [OF Some refl] less.prems Some
        by (simp add: delimited_def)
    next
      case found: (Some i)
      then show ?thesis
        using push_loop_close [OF Some found] less.hyps [OF delimited_close(2,1) [OF less.prems Some found]]
        by simp
    qed
  next
    case None
    show ?thesis
    proof (cases "find_next_open (tag_specs p) (pending p)")
      case none: None
      then show ?thesis
        using push_loop_drain [OF None none] less.prems by (simp add: drain_eq delimited_def)
    next
      case (Some at)
      then obtain i k where at: "find_next_open (tag_specs p) (pending p) = Some (i, k)" by (cases at) simp
      then show ?thesis
        using push_loop_open [OF None at] less.hyps [OF delimited_open(2,1) [OF less.prems at]] by simp
    qed
  qed
qed

lemma push_all_returns: "delimited p \<Longrightarrow> \<exists>q c. push_all hidden_push_str p ts = Some (q, c)"
proof (induction ts arbitrary: p)
  case (Cons t ts)
  have "delimited (p\<lparr>pending := pending p @ t\<rparr>)" using Cons.prems by (simp add: delimited_def)
  then obtain q c where "hidden_push_str p t = Some (q, c)" "delimited q"
    using push_loop_returns by (fastforce simp: hidden_push_str_def)
  then show ?case using Cons.IH [of q] by auto
qed simp

lemma new_delimited: "new_hidden_tag_parser specs = Some p \<Longrightarrow> delimited p"
  by (auto simp: new_hidden_tag_parser_def delimited_def list_all_iff list_ex_iff split: if_splits)

section \<open>Citations\<close>

lemma citation_separate: "separate_tags [citation_spec]"
  by (simp add: separate_tags_def citation_spec_def CITATION_OPEN_def CITATION_CLOSE_def lit_def starts_with_def)

lemma new_citation_settled:
  "\<exists>p. new_citation_parser = Some p \<and> settled p \<and> tag_specs p = [citation_spec] \<and> active p = None \<and> pending p = []"
  by (auto simp: new_citation_parser_def new_hidden_tag_parser_def citation_separate settled_fresh)
    (simp_all add: citation_spec_def CITATION_OPEN_def CITATION_CLOSE_def lit_def)

lemma citation_chunk_append: "citation_chunk (chunk_append a b) = chunk_append (citation_chunk a) (citation_chunk b)"
  by (simp add: citation_chunk_def chunk_append_def)

lemma citation_chunk_empty [simp]: "citation_chunk empty_chunk = empty_chunk"
  by (simp add: citation_chunk_def empty_chunk_def)

interpretation citation: stream_text_parser settled citation_push_str citation_finish "\<lambda>c. c"
proof
  fix s :: citation_parser and t
  assume s: "settled s"
  from hidden.push_total [OF s, of t] show "\<exists>s' c. citation_push_str s t = Some (s', c) \<and> settled s'"
    by (auto simp: citation_push_str_def)
  show "citation_push_str s [] = Some (s, empty_chunk)"
    using hidden.push_Nil [OF s] by (simp add: citation_push_str_def)
  show "settled (fst (citation_finish s))"
    using hidden.finish_ok [OF s] by (auto simp: citation_finish_def split: prod.splits)
  show "\<exists>c. citation_push_str s (t @ u) = Some (s2, c) \<and> c = chunk_append c1 c2"
    if "citation_push_str s t = Some (s1, c1)" "citation_push_str s1 u = Some (s2, c2)" for s1 c1 u s2 c2
    using hidden.push_append [OF s, of t] that
    by (fastforce simp: citation_push_str_def citation_chunk_append)
qed simp

text \<open>
  What a complete text means: everything outside of citations is visible, and a citation reaches
  from an opening tag to the next closing tag, or to the end.
\<close>

function citation_reference :: "rstr \<Rightarrow> rstr stream_chunk" where
  "citation_reference t =
     (case find_str t CITATION_OPEN of
        None \<Rightarrow> \<lparr>visible_text = t, extracted = []\<rparr>
      | Some i \<Rightarrow>
          let rest = drop (i + length CITATION_OPEN) t in
          (case find_str rest CITATION_CLOSE of
             None \<Rightarrow> \<lparr>visible_text = take i t, extracted = [rest]\<rparr>
           | Some j \<Rightarrow>
               chunk_append \<lparr>visible_text = take i t, extracted = [take j rest]\<rparr>
                 (citation_reference (drop (j + length CITATION_CLOSE) rest))))"
  by pat_completeness auto

termination
  by (relation "measure length")
    (auto dest!: find_str_SomeD simp: CITATION_OPEN_def CITATION_CLOSE_def lit_def)

declare citation_reference.simps [simp del]

lemma citation_delimiters [simp]:
  "spec_open citation_spec = CITATION_OPEN" "spec_close citation_spec = CITATION_CLOSE"
  "CITATION_OPEN \<noteq> []" "CITATION_CLOSE \<noteq> []"
  by (simp_all add: citation_spec_def CITATION_OPEN_def CITATION_CLOSE_def lit_def)

lemma find_next_citation: "find_next_open [citation_spec] t = map_option (\<lambda>i. (i, 0)) (find_str t CITATION_OPEN)"
  by (simp add: find_next_open_def split: option.splits)

definition loop_and_finish :: "citation_parser \<Rightarrow> citation_tag extracted_tag stream_chunk \<Rightarrow> rstr stream_chunk option" where
  "loop_and_finish p out =
     map_option (\<lambda>(q, c). citation_chunk (chunk_append c (snd (hidden_finish q)))) (push_loop p out)"

lemma loop_and_finish_active:
  assumes "active p = Some a" "find_str (pending p) (active_close a) = None"
  shows "loop_and_finish p out = Some (chunk_append (citation_chunk out)
    \<lparr>visible_text = [], extracted = [active_content a @ pending p]\<rparr>)"
  using push_loop_hold [OF assms] hold_close_eq [OF assms(1) refl]
  by (simp add: loop_and_finish_def hidden_finish_def citation_chunk_append closed_tag_def)
    (simp add: citation_chunk_def chunk_append_def empty_chunk_def)

lemma loop_and_finish_inactive:
  assumes "active p = None" "find_next_open (tag_specs p) (pending p) = None"
  shows "loop_and_finish p out = Some (chunk_append (citation_chunk out) \<lparr>visible_text = pending p, extracted = []\<rparr>)"
  using push_loop_drain [OF assms] assms(1)
  by (simp add: loop_and_finish_def hidden_finish_def drain_eq citation_chunk_append)
    (simp add: citation_chunk_def chunk_append_def empty_chunk_def)

lemma loop_and_finish_reference:
  "tag_specs p = [citation_spec] \<Longrightarrow> active p = None \<Longrightarrow>
   loop_and_finish p out = Some (chunk_append (citation_chunk out) (citation_reference (pending p)))"
proof (induction "length (pending p)" arbitrary: p out rule: less_induct)
  case less
  show ?case
  proof (cases "find_str (pending p) CITATION_OPEN")
    case None
    then show ?thesis
      using less.prems by (simp add: loop_and_finish_inactive find_next_citation citation_reference.simps)
  next
    case (Some i)
    let ?q = "open_tag i 0 p" and ?out = "push_visible_prefix out (take i (pending p))"
    obtain rest where rest: "rest = drop (i + length CITATION_OPEN) (pending p)" by blast
    obtain a where a: "active ?q = Some a" "active_close a = CITATION_CLOSE" "active_content a = []"
        "pending ?q = rest" "tag_specs ?q = [citation_spec]"
      using less.prems rest by (simp add: open_tag_def Let_def)
    have "loop_and_finish p out = loop_and_finish ?q ?out"
      using push_loop_open [of p i 0 out] less.prems Some
      by (simp add: loop_and_finish_def find_next_citation)
    moreover have out: "citation_chunk ?out = chunk_append (citation_chunk out) \<lparr>visible_text = take i (pending p), extracted = []\<rparr>"
      by (simp add: push_visible_prefix_append citation_chunk_append)
        (simp add: citation_chunk_def empty_chunk_def)
    moreover have "loop_and_finish ?q ?out = Some (chunk_append (citation_chunk out) (citation_reference (pending p)))"
    proof (cases "find_str rest CITATION_CLOSE")
      case None
      then show ?thesis
        using loop_and_finish_active [OF a(1)] a Some rest
        by (simp add: out chunk_append_assoc citation_reference.simps [of "pending p"] chunk_append_def)
    next
      case close: (Some j)
      let ?r = "close_tag a j ?q"
      let ?out' = "?out\<lparr>extracted := extracted ?out @ [closed_tag a (take j rest)]\<rparr>"
      have "0 < length CITATION_OPEN" by simp
      moreover have "length (pending ?r) \<le> length (pending p) - (i + length CITATION_OPEN)"
        using a rest by (simp add: close_tag_def)
      moreover have "i + length CITATION_OPEN \<le> length (pending p)" using find_str_SomeD [OF Some] by blast
      ultimately have "length (pending ?r) < length (pending p)" by linarith
      then have "loop_and_finish ?r ?out' = Some (chunk_append (citation_chunk ?out') (citation_reference (pending ?r)))"
        using less.hyps [of ?r ?out'] a(5) by (simp add: close_tag_def)
      moreover have "loop_and_finish ?q ?out = loop_and_finish ?r ?out'"
        using push_loop_close [OF a(1)] a close by (simp add: loop_and_finish_def)
      moreover have "citation_chunk ?out' = chunk_append (citation_chunk out) \<lparr>visible_text = take i (pending p), extracted = [take j rest]\<rparr>"
        using out a by (simp add: chunk_append_extracted citation_chunk_append closed_tag_def)
          (simp add: citation_chunk_def chunk_append_def empty_chunk_def)
      ultimately show ?thesis
        using close a Some rest
        by (simp add: citation_reference.simps [of "pending p"] close_tag_def chunk_append_assoc)
    qed
    ultimately show ?thesis by simp
  qed
qed

text \<open>
  Feeding a text in any pieces and finishing shows and extracts exactly what the complete text
  means: a tag that is cut by a piece boundary is neither shown nor missed, and text that only
  looks like the beginning of a tag is shown.
\<close>

lemma citation_pieces:
  "\<exists>p q c. new_citation_parser = Some p \<and> push_all citation_push_str p pieces = Some (q, c)
     \<and> chunk_append c (snd (citation_finish q)) = citation_reference (concat pieces)"
proof -
  obtain p where p: "new_citation_parser = Some p" "settled p" "tag_specs p = [citation_spec]"
      "active p = None" "pending p = []"
    using new_citation_settled by blast
  obtain q c where q: "push_all citation_push_str p pieces = Some (q, c)"
      "citation_push_str p (concat pieces) = Some (q, c)"
    using citation.pushes [OF p(2), of pieces] by auto
  have "loop_and_finish (p\<lparr>pending := concat pieces\<rparr>) empty_chunk = Some (citation_reference (concat pieces))"
    using p by (simp add: loop_and_finish_reference)
  then have "chunk_append c (snd (citation_finish q)) = citation_reference (concat pieces)"
    using q(2) p(5)
    by (auto simp: citation_push_str_def hidden_push_str_def loop_and_finish_def citation_finish_def
        citation_chunk_append split: prod.splits)
  then show ?thesis using p(1) q(1) by blast
qed

section \<open>Properties\<close>

text \<open>
  C31. Every push to a parser that the constructor accepts returns, for any tags, also those that
  overlap, and any sequence of pieces.
\<close>

theorem hidden_push_returns:
  assumes "new_hidden_tag_parser specs = Some p"
  shows "\<exists>q c. push_all hidden_push_str p pieces = Some (q, c)"
  using push_all_returns new_delimited [OF assms] by blast

definition nested_specs :: "nat inline_tag_spec list" where
  "nested_specs =
     [\<lparr>spec_tag = 0, spec_open = lit ''<a'', spec_close = lit ''>''\<rparr>,
      \<lparr>spec_tag = 1, spec_open = lit ''<ab'', spec_close = lit ''>''\<rparr>]"

theorem hidden_push_returns_witness:
  "\<exists>p q c. new_hidden_tag_parser nested_specs = Some p
     \<and> push_all hidden_push_str p [lit ''x<a'', lit ''b>y''] = Some (q, c)"
proof -
  have "new_hidden_tag_parser nested_specs
      = Some \<lparr>tag_specs = nested_specs, pending = [], active = None\<rparr>"
    by (simp add: new_hidden_tag_parser_def nested_specs_def lit_def)
  then show ?thesis using hidden_push_returns by blast
qed

end
