(* ===== verification/Tagged_Lines.thy ===== *)
theory Tagged_Lines
  imports Stream_Text
begin

text \<open>
  Blocks whose tags stand alone on a line: \<open>utils/stream-parser/src/tagged_line_parser.rs\<close> and its
  instance for proposed plans, \<open>proposed_plan.rs\<close>. The parser holds a line back as long as it may
  still turn out to be a tag.

  The reference is \<open>block_lines\<close>, which reads a complete text line by line. Segments of the same kind
  that follow each other mean the same as one segment: \<open>merge_segments\<close> joins them, the way
  \<open>push_segment\<close> does within one piece.
\<close>

section \<open>The generic parser\<close>

record 'a tag_spec =
  line_open :: rstr
  line_close :: rstr
  line_tag :: 'a

datatype 'a line_segment =
    Normal rstr
  | TagStart 'a
  | TagDelta 'a rstr
  | TagEnd 'a

record 'a tagged_line_parser =
  line_specs :: "'a tag_spec list"
  active_tag :: "'a option"
  detect_tag :: bool
  line_buffer :: rstr

definition new_tagged_line_parser :: "'a tag_spec list \<Rightarrow> 'a tagged_line_parser" where
  "new_tagged_line_parser specs =
     \<lparr>line_specs = specs, active_tag = None, detect_tag = True, line_buffer = []\<rparr>"

definition push_segment :: "'a line_segment list \<Rightarrow> 'a line_segment \<Rightarrow> 'a line_segment list" where
  "push_segment segments segment =
     (case segment of
        Normal delta \<Rightarrow>
          if delta = [] then segments
          else (case last_opt segments of
                  Some (Normal existing) \<Rightarrow> butlast segments @ [Normal (existing @ delta)]
                | _ \<Rightarrow> segments @ [Normal delta])
      | TagDelta tag delta \<Rightarrow>
          if delta = [] then segments
          else (case last_opt segments of
                  Some (TagDelta existing_tag existing) \<Rightarrow>
                    if existing_tag = tag then butlast segments @ [TagDelta existing_tag (existing @ delta)]
                    else segments @ [TagDelta tag delta]
                | _ \<Rightarrow> segments @ [TagDelta tag delta])
      | TagStart tag \<Rightarrow> segments @ [TagStart tag]
      | TagEnd tag \<Rightarrow> segments @ [TagEnd tag])"

definition text_segment :: "'a option \<Rightarrow> rstr \<Rightarrow> 'a line_segment" where
  "text_segment tag t = (case tag of Some tag \<Rightarrow> TagDelta tag t | None \<Rightarrow> Normal t)"

definition push_text :: "'a tagged_line_parser \<Rightarrow> rstr \<Rightarrow> 'a line_segment list \<Rightarrow> 'a line_segment list" where
  "push_text p t segments = push_segment segments (text_segment (active_tag p) t)"

definition is_tag_prefix :: "'a tag_spec list \<Rightarrow> rstr \<Rightarrow> bool" where
  "is_tag_prefix specs slug =
     (let slug = trim_end slug in
      list_ex (\<lambda>spec. starts_with (line_open spec) slug \<or> starts_with (line_close spec) slug) specs)"

definition match_open :: "'a tag_spec list \<Rightarrow> rstr \<Rightarrow> 'a option" where
  "match_open specs slug = map_option line_tag (List.find (\<lambda>spec. line_open spec = slug) specs)"

definition match_close :: "'a tag_spec list \<Rightarrow> rstr \<Rightarrow> 'a option" where
  "match_close specs slug = map_option line_tag (List.find (\<lambda>spec. line_close spec = slug) specs)"

text \<open>The content of a line, without its line feed and the white space around it.\<close>

definition line_slug :: "rstr \<Rightarrow> rstr" where
  "line_slug line =
     trim_end (trim_start (case strip_suffix line [NL] of Some t \<Rightarrow> t | None \<Rightarrow> line))"

text \<open>What a complete line is, given the open block: the conditions of \<open>finish_line\<close> and \<open>finish\<close>.\<close>

datatype 'a line_kind = OpenLine 'a | CloseLine 'a | TextLine

definition line_event :: "'a tag_spec list \<Rightarrow> 'a option \<Rightarrow> rstr \<Rightarrow> 'a line_kind" where
  "line_event specs active line =
     (let slug = line_slug line;
          close = (case match_close specs slug of
                     Some tag \<Rightarrow> if active = Some tag then CloseLine tag else TextLine
                   | None \<Rightarrow> TextLine)
      in case match_open specs slug of
           Some tag \<Rightarrow> if active = None then OpenLine tag else close
         | None \<Rightarrow> close)"

definition finish_tagged_line ::
  "'a tagged_line_parser \<Rightarrow> 'a line_segment list \<Rightarrow> 'a tagged_line_parser \<times> 'a line_segment list" where
  "finish_tagged_line p segments =
     (let line = line_buffer p; p = p\<lparr>line_buffer := []\<rparr> in
      case line_event (line_specs p) (active_tag p) line of
        OpenLine tag \<Rightarrow>
          (p\<lparr>active_tag := Some tag, detect_tag := True\<rparr>, push_segment segments (TagStart tag))
      | CloseLine tag \<Rightarrow>
          (p\<lparr>active_tag := None, detect_tag := True\<rparr>, push_segment segments (TagEnd tag))
      | TextLine \<Rightarrow> (p\<lparr>detect_tag := True\<rparr>, push_text p line segments))"

fun parse_chars ::
  "'a tagged_line_parser \<Rightarrow> rstr \<Rightarrow> 'a line_segment list \<Rightarrow> rstr
     \<Rightarrow> 'a tagged_line_parser \<times> 'a line_segment list" where
  "parse_chars p run segments [] =
     (p, if run \<noteq> [] then push_text p run segments else segments)"
| "parse_chars p run segments (ch # delta) =
     (if detect_tag p
      then
        let segments = (if run \<noteq> [] then push_text p run segments else segments);
            p = p\<lparr>line_buffer := line_buffer p @ [ch]\<rparr>
        in if ch = NL
           then let (p, segments) = finish_tagged_line p segments in parse_chars p [] segments delta
           else let slug = trim_start (line_buffer p) in
             if slug = [] \<or> is_tag_prefix (line_specs p) slug then parse_chars p [] segments delta
             else let buffered = line_buffer p; p = p\<lparr>line_buffer := [], detect_tag := False\<rparr>
                  in parse_chars p [] (push_text p buffered segments) delta
      else
        let run = run @ [ch] in
        if ch = NL then parse_chars (p\<lparr>detect_tag := True\<rparr>) [] (push_text p run segments) delta
        else parse_chars p run segments delta)"

definition parse_lines ::
  "'a tagged_line_parser \<Rightarrow> rstr \<Rightarrow> 'a tagged_line_parser \<times> 'a line_segment list" where
  "parse_lines p delta = parse_chars p [] [] delta"

definition finish_lines :: "'a tagged_line_parser \<Rightarrow> 'a tagged_line_parser \<times> 'a line_segment list" where
  "finish_lines p =
     (let (p, segments) =
            (if line_buffer p \<noteq> []
             then
               let buffered = line_buffer p; p = p\<lparr>line_buffer := []\<rparr> in
               case line_event (line_specs p) (active_tag p) buffered of
                 OpenLine tag \<Rightarrow> (p\<lparr>active_tag := Some tag\<rparr>, push_segment [] (TagStart tag))
               | CloseLine tag \<Rightarrow> (p\<lparr>active_tag := None\<rparr>, push_segment [] (TagEnd tag))
               | TextLine \<Rightarrow> (p, push_text p buffered [])
             else (p, []))
      in case active_tag p of
           Some tag \<Rightarrow>
             (p\<lparr>active_tag := None, detect_tag := True\<rparr>, push_segment segments (TagEnd tag))
         | None \<Rightarrow> (p\<lparr>detect_tag := True\<rparr>, segments))"

section \<open>Proposed plans\<close>

definition PLAN_OPEN_TAG :: rstr where
  "PLAN_OPEN_TAG = lit ''<proposed_plan>''"

definition PLAN_CLOSE_TAG :: rstr where
  "PLAN_CLOSE_TAG = lit ''</proposed_plan>''"

datatype plan_tag = ProposedPlan

datatype plan_segment =
    PlanNormal rstr
  | ProposedPlanStart
  | ProposedPlanDelta rstr
  | ProposedPlanEnd

type_synonym plan_parser = "plan_tag tagged_line_parser"

definition new_plan_parser :: plan_parser where
  "new_plan_parser = new_tagged_line_parser
     [\<lparr>line_open = PLAN_OPEN_TAG, line_close = PLAN_CLOSE_TAG, line_tag = ProposedPlan\<rparr>]"

fun map_plan_segment :: "plan_tag line_segment \<Rightarrow> plan_segment" where
  "map_plan_segment (Normal t) = PlanNormal t"
| "map_plan_segment (TagStart ProposedPlan) = ProposedPlanStart"
| "map_plan_segment (TagDelta ProposedPlan t) = ProposedPlanDelta t"
| "map_plan_segment (TagEnd ProposedPlan) = ProposedPlanEnd"

fun plan_visible :: "plan_segment \<Rightarrow> rstr" where
  "plan_visible (PlanNormal t) = t"
| "plan_visible _ = []"

definition map_segments :: "plan_tag line_segment list \<Rightarrow> plan_segment stream_chunk" where
  "map_segments segments =
     (let mapped = map map_plan_segment segments in
      \<lparr>visible_text = concat (map plan_visible mapped), extracted = mapped\<rparr>)"

definition plan_push_str :: "plan_parser \<Rightarrow> rstr \<Rightarrow> plan_parser \<times> plan_segment stream_chunk" where
  "plan_push_str p chunk = (let (p, segments) = parse_lines p chunk in (p, map_segments segments))"

definition plan_finish :: "plan_parser \<Rightarrow> plan_parser \<times> plan_segment stream_chunk" where
  "plan_finish p = (let (p, segments) = finish_lines p in (p, map_segments segments))"

definition strip_proposed_plan_blocks :: "rstr \<Rightarrow> rstr" where
  "strip_proposed_plan_blocks t =
     (let (parser, out) = plan_push_str new_plan_parser t
      in visible_text out @ visible_text (snd (plan_finish parser)))"

fun plan_text_step :: "bool \<times> rstr \<Rightarrow> plan_segment \<Rightarrow> bool \<times> rstr" where
  "plan_text_step (saw, plan_text) ProposedPlanStart = (True, [])"
| "plan_text_step (saw, plan_text) (ProposedPlanDelta delta) = (saw, plan_text @ delta)"
| "plan_text_step (saw, plan_text) ProposedPlanEnd = (saw, plan_text)"
| "plan_text_step (saw, plan_text) (PlanNormal t) = (saw, plan_text)"

definition extract_proposed_plan_text :: "rstr \<Rightarrow> rstr option" where
  "extract_proposed_plan_text t =
     (let (parser, out) = plan_push_str new_plan_parser t;
          (saw_plan_block, plan_text) =
            foldl plan_text_step (False, []) (extracted out @ extracted (snd (plan_finish parser)))
      in if saw_plan_block then Some plan_text else None)"

section \<open>Merging segments\<close>

definition merge_segments :: "'a line_segment list \<Rightarrow> 'a line_segment list" where
  "merge_segments segments = foldl push_segment [] segments"

text \<open>Sequences of segments that cannot be told apart once segments are merged.\<close>

definition same_segments :: "'a line_segment list \<Rightarrow> 'a line_segment list \<Rightarrow> bool" where
  "same_segments xs ys \<longleftrightarrow> (\<forall>acc. foldl push_segment acc xs = foldl push_segment acc ys)"

lemma same_segments_refl [simp]: "same_segments xs xs"
  by (simp add: same_segments_def)

lemma same_segments_sym: "same_segments xs ys \<Longrightarrow> same_segments ys xs"
  by (simp add: same_segments_def)

lemma same_segments_trans [trans]: "same_segments xs ys \<Longrightarrow> same_segments ys zs \<Longrightarrow> same_segments xs zs"
  by (simp add: same_segments_def)

lemma same_segments_append: "same_segments xs xs' \<Longrightarrow> same_segments ys ys' \<Longrightarrow> same_segments (xs @ ys) (xs' @ ys')"
  by (simp add: same_segments_def)

lemma same_segments_merge: "same_segments xs ys \<Longrightarrow> merge_segments xs = merge_segments ys"
  by (simp add: same_segments_def merge_segments_def)

lemma push_text_Nil [simp]: "push_segment segs (text_segment a []) = segs"
  by (simp add: push_segment_def text_segment_def split: option.splits)

lemma push_text_text:
  "push_segment (push_segment segs (text_segment a x)) (text_segment a y) = push_segment segs (text_segment a (x @ y))"
  by (cases a) (auto simp: push_segment_def text_segment_def last_opt_def split: line_segment.splits if_splits)

lemma same_text_Nil: "same_segments (text_segment a [] # xs) xs"
  by (simp add: same_segments_def)

lemma same_text_text: "same_segments (text_segment a x # text_segment a y # xs) (text_segment a (x @ y) # xs)"
  by (simp add: same_segments_def push_text_text)

lemmas push_text_merges [simp] =
  push_text_text [of _ None, unfolded text_segment_def option.case]
  push_text_text [of _ "Some tag", unfolded text_segment_def option.case] for tag

lemma push_segment_Nil [simp]: "push_segment segs (Normal []) = segs" "push_segment segs (TagDelta tag []) = segs"
  by (simp_all add: push_segment_def)

text \<open>Pushing a segment either appends it or joins it with the last one.\<close>

lemma push_segment_snoc:
  "push_segment segs (TagStart tag) = segs @ [TagStart tag]"
  "push_segment segs (TagEnd tag) = segs @ [TagEnd tag]"
  "y \<noteq> [] \<Longrightarrow> push_segment [] (Normal y) = [Normal y]"
  "y \<noteq> [] \<Longrightarrow> push_segment [] (TagDelta tag y) = [TagDelta tag y]"
  "y \<noteq> [] \<Longrightarrow> push_segment (init @ [l]) (Normal y) =
     (case l of Normal x \<Rightarrow> init @ [Normal (x @ y)] | _ \<Rightarrow> init @ [l, Normal y])"
  "y \<noteq> [] \<Longrightarrow> push_segment (init @ [l]) (TagDelta tag y) =
     (case l of TagDelta tag' x \<Rightarrow> if tag' = tag then init @ [TagDelta tag (x @ y)] else init @ [l, TagDelta tag y]
      | _ \<Rightarrow> init @ [l, TagDelta tag y])"
  by (auto simp: push_segment_def split: line_segment.splits)

lemma push_segment_same: "same_segments (push_segment segs s) (segs @ [s])"
  unfolding same_segments_def
proof
  fix acc
  have "foldl push_segment acc (push_segment segs s) = push_segment (foldl push_segment acc segs) s"
  proof (cases s)
    case (Normal y)
    then show ?thesis
      by (cases "y = []"; cases segs rule: rev_cases)
        (simp_all add: push_segment_snoc split: line_segment.splits)
  next
    case (TagDelta tag y)
    then show ?thesis
      by (cases "y = []"; cases segs rule: rev_cases)
        (simp_all add: push_segment_snoc split: line_segment.splits)
  qed (simp_all add: push_segment_snoc(1,2))
  then show "foldl push_segment acc (push_segment segs s) = foldl push_segment acc (segs @ [s])" by simp
qed

lemma foldl_push_segment_same: "same_segments (foldl push_segment acc xs) (acc @ xs)"
proof (induction xs arbitrary: acc)
  case (Cons x xs)
  have "same_segments (foldl push_segment acc (x # xs)) (push_segment acc x @ xs)" using Cons by simp
  also have "same_segments (push_segment acc x @ xs) (acc @ x # xs)"
    using same_segments_append [OF push_segment_same same_segments_refl, of acc x xs] by simp
  finally show ?case .
qed simp

lemma merge_segments_same: "same_segments (merge_segments xs) xs"
  using foldl_push_segment_same [of "[]" xs] by (simp add: merge_segments_def)

section \<open>One character at a time\<close>

definition line_step :: "'a tagged_line_parser \<Rightarrow> 'a tagged_line_parser \<times> 'a line_segment list" where
  "line_step p =
     (let line = line_buffer p; p = p\<lparr>line_buffer := []\<rparr> in
      case line_event (line_specs p) (active_tag p) line of
        OpenLine tag \<Rightarrow> (p\<lparr>active_tag := Some tag, detect_tag := True\<rparr>, [TagStart tag])
      | CloseLine tag \<Rightarrow> (p\<lparr>active_tag := None, detect_tag := True\<rparr>, [TagEnd tag])
      | TextLine \<Rightarrow> (p\<lparr>detect_tag := True\<rparr>, [text_segment (active_tag p) line]))"

definition char_step :: "'a tagged_line_parser \<Rightarrow> rchar \<Rightarrow> 'a tagged_line_parser \<times> 'a line_segment list" where
  "char_step p ch =
     (if detect_tag p
      then let p = p\<lparr>line_buffer := line_buffer p @ [ch]\<rparr>; slug = trim_start (line_buffer p) in
           if ch = NL then line_step p
           else if slug = [] \<or> is_tag_prefix (line_specs p) slug then (p, [])
           else (p\<lparr>line_buffer := [], detect_tag := False\<rparr>, [text_segment (active_tag p) (line_buffer p)])
      else (if ch = NL then p\<lparr>detect_tag := True\<rparr> else p, [text_segment (active_tag p) [ch]]))"

fun char_steps :: "'a tagged_line_parser \<Rightarrow> rstr \<Rightarrow> 'a tagged_line_parser \<times> 'a line_segment list" where
  "char_steps p [] = (p, [])"
| "char_steps p (ch # t) =
     (let (p1, s1) = char_step p ch; (p2, s2) = char_steps p1 t in (p2, s1 @ s2))"

lemma char_steps_append:
  "char_steps p (t @ u) =
     (let (p1, s1) = char_steps p t; (p2, s2) = char_steps p1 u in (p2, s1 @ s2))"
  by (induction t arbitrary: p) (auto simp: Let_def split: prod.splits)

lemma finish_tagged_line_step:
  "finish_tagged_line p segs = (fst (line_step p), foldl push_segment segs (snd (line_step p)))"
  by (simp add: finish_tagged_line_def line_step_def Let_def push_text_def split: line_kind.splits)

lemma parse_chars_steps:
  "run = [] \<or> \<not> detect_tag p \<Longrightarrow>
   parse_chars p run segs t =
     (fst (char_steps p t), foldl push_segment segs (text_segment (active_tag p) run # snd (char_steps p t)))"
proof (induction t arbitrary: p run segs)
  case Nil
  then show ?case by (simp add: push_text_def)
next
  case (Cons ch t)
  show ?case
  proof (cases "detect_tag p")
    case True
    then have "run = []" using Cons.prems by simp
    then show ?thesis
      using True Cons.IH
      by (simp add: char_step_def Let_def finish_tagged_line_step push_text_def case_prod_beta)
  next
    case False
    have "parse_chars p (run @ [ch]) segs t = (fst (char_steps p t),
        foldl push_segment segs (text_segment (active_tag p) (run @ [ch]) # snd (char_steps p t)))"
      using Cons.IH False by blast
    then show ?thesis
      using False Cons.IH [of "[]" "p\<lparr>detect_tag := True\<rparr>"]
      by (simp add: char_step_def Let_def push_text_def case_prod_beta push_text_text)
  qed
qed

lemma parse_lines_steps:
  "parse_lines p t = (fst (char_steps p t), merge_segments (snd (char_steps p t)))"
  by (simp add: parse_lines_def parse_chars_steps merge_segments_def)

section \<open>The reference\<close>

text \<open>The lines of a text, each with its line feed; the last one may have none.\<close>

fun text_lines :: "rstr \<Rightarrow> rstr list" where
  "text_lines [] = []"
| "text_lines (c # t) =
     (if c = NL then [c] # text_lines t
      else case text_lines t of [] \<Rightarrow> [[c]] | l # ls \<Rightarrow> (c # l) # ls)"

text \<open>The segments of a text read line by line, with the open block closed at the end.\<close>

fun block_lines :: "'a tag_spec list \<Rightarrow> 'a option \<Rightarrow> rstr list \<Rightarrow> 'a line_segment list" where
  "block_lines specs active [] = (case active of None \<Rightarrow> [] | Some tag \<Rightarrow> [TagEnd tag])"
| "block_lines specs active (l # ls) =
     (case line_event specs active l of
        OpenLine tag \<Rightarrow> TagStart tag # block_lines specs (Some tag) ls
      | CloseLine tag \<Rightarrow> TagEnd tag # block_lines specs None ls
      | TextLine \<Rightarrow> text_segment active l # block_lines specs active ls)"

lemma text_lines_line: "NL \<notin> set b \<Longrightarrow> text_lines (b @ NL # t) = (b @ [NL]) # text_lines t"
  by (induction b) auto

lemma text_lines_last: "NL \<notin> set b \<Longrightarrow> b \<noteq> [] \<Longrightarrow> text_lines b = [b]"
proof (induction b)
  case (Cons c b)
  then show ?case by (cases b) auto
qed simp

text \<open>The rest of the current line and what follows it.\<close>

definition line_rest :: "rstr \<Rightarrow> rstr" where
  "line_rest t = takeWhile (\<lambda>c. c \<noteq> NL) t @ (if NL \<in> set t then [NL] else [])"

definition after_line :: "rstr \<Rightarrow> rstr" where
  "after_line t = drop (length (line_rest t)) t"

lemma line_rest_Cons: "line_rest (c # t) = (if c = NL then [NL] else c # line_rest t)"
  by (auto simp: line_rest_def)

lemma after_line_Cons: "after_line (c # t) = (if c = NL then t else after_line t)"
  by (simp add: after_line_def line_rest_Cons)

lemma line_rest_Nil [simp]: "line_rest [] = []" "after_line [] = []"
  by (simp_all add: line_rest_def after_line_def)

lemma text_lines_rest:
  "NL \<notin> set b \<Longrightarrow> b \<noteq> [] \<Longrightarrow> text_lines (b @ t) = (b @ line_rest t) # text_lines (after_line t)"
proof (induction t arbitrary: b)
  case Nil
  then show ?case by (simp add: text_lines_last)
next
  case (Cons c t)
  show ?case
  proof (cases "c = NL")
    case True
    then show ?thesis using Cons.prems by (simp add: text_lines_line line_rest_Cons after_line_Cons)
  next
    case False
    then show ?thesis
      using Cons.IH [of "b @ [c]"] Cons.prems by (simp add: line_rest_Cons after_line_Cons)
  qed
qed

subsection \<open>A line that is a tag is held back\<close>

lemma trim_start_append: "trim_start u \<noteq> [] \<Longrightarrow> trim_start (u @ v) = trim_start u @ v"
  unfolding trim_start_def trim_start_matches_def by (auto simp: dropWhile_append1)

lemma trim_end_prefix: "\<exists>z. s = trim_end s @ z"
  unfolding trim_end_def trim_end_matches_def
  by (metis rev_append rev_rev_ident takeWhile_dropWhile_id)

lemma trim_end_append_prefix: "\<exists>z. trim_end (x @ v) = trim_end x @ z"
proof (cases "\<forall>c\<in>set v. is_whitespace c")
  case True
  then have "trim_end (x @ v) = trim_end x"
    unfolding trim_end_def trim_end_matches_def using dropWhile_append2 [of "rev v" is_whitespace "rev x"] by simp
  then show ?thesis by simp
next
  case False
  then have "trim_end (x @ v) = x @ trim_end v"
    unfolding trim_end_def trim_end_matches_def by (auto simp: dropWhile_append1)
  then show ?thesis using trim_end_prefix [of x] by (metis append.assoc)
qed

lemma line_slug_eq: "line_slug line = trim_end (trim_start line)"
proof (cases "strip_suffix line [NL]")
  case None
  then show ?thesis by (simp add: line_slug_def)
next
  case (Some t)
  then have line: "line = t @ [NL]"
    by (auto simp: strip_suffix_def ends_with_def split: if_splits) (metis append_take_drop_id)
  have "trim_end (t @ [NL]) = trim_end t"
    by (simp add: trim_end_def trim_end_matches_def is_whitespace_def)
  then have "trim (t @ [NL]) = trim t" by (rule trim_end_eq_imp_trim_eq)
  then show ?thesis using Some line by (simp add: line_slug_def trim_def)
qed

lemma find_SomeD: "List.find P xs = Some x \<Longrightarrow> x \<in> set xs \<and> P x"
  by (auto simp: find_Some_iff)

lemma line_event_held:
  assumes "line_event specs active (u @ v) \<noteq> TextLine" "trim_start u \<noteq> []"
  shows "is_tag_prefix specs (trim_start u)"
proof -
  obtain z where z: "line_slug (u @ v) = trim_end (trim_start u) @ z"
    using trim_start_append [OF assms(2)] trim_end_append_prefix by (metis line_slug_eq)
  have "\<exists>spec\<in>set specs. line_open spec = line_slug (u @ v) \<or> line_close spec = line_slug (u @ v)"
    using assms(1)
    by (auto simp: line_event_def Let_def match_open_def match_close_def dest!: find_SomeD split: option.splits if_splits)
  then obtain spec where spec: "spec \<in> set specs"
      "line_open spec = line_slug (u @ v) \<or> line_close spec = line_slug (u @ v)" by blast
  then have "starts_with (line_open spec) (trim_end (trim_start u))
      \<or> starts_with (line_close spec) (trim_end (trim_start u))"
    by (auto simp: z starts_with_def)
  then show ?thesis using spec(1) by (auto simp: is_tag_prefix_def Let_def list_ex_iff)
qed

subsection \<open>Stepping follows the reference\<close>

definition line_ok :: "'a tagged_line_parser \<Rightarrow> bool" where
  "line_ok p \<longleftrightarrow> NL \<notin> set (line_buffer p) \<and> (\<not> detect_tag p \<longrightarrow> line_buffer p = [])"

definition remaining_segments :: "'a tagged_line_parser \<Rightarrow> rstr \<Rightarrow> 'a line_segment list" where
  "remaining_segments p t =
     (if detect_tag p then block_lines (line_specs p) (active_tag p) (text_lines (line_buffer p @ t))
      else text_segment (active_tag p) (line_rest t)
        # block_lines (line_specs p) (active_tag p) (text_lines (after_line t)))"

lemma char_step_ok: "line_ok p \<Longrightarrow> line_ok (fst (char_step p ch))"
  by (auto simp: line_ok_def char_step_def line_step_def Let_def split: line_kind.splits)

lemma char_step_follows:
  assumes "line_ok p"
  shows "same_segments (remaining_segments p (ch # t))
    (snd (char_step p ch) @ remaining_segments (fst (char_step p ch)) t)"
proof (cases "detect_tag p")
  case detect: True
  let ?b = "line_buffer p @ [ch]"
  show ?thesis
  proof (cases "ch = NL")
    case True
    then show ?thesis
      using detect assms
      by (simp add: line_ok_def char_step_def line_step_def remaining_segments_def Let_def text_lines_line
          split: line_kind.splits)
  next
    case False
    show ?thesis
    proof (cases "trim_start ?b = [] \<or> is_tag_prefix (line_specs p) (trim_start ?b)")
      case True
      then show ?thesis using detect False by (simp add: char_step_def remaining_segments_def Let_def)
    next
      case notag: False
      then have "line_event (line_specs p) (active_tag p) (?b @ line_rest t) = TextLine"
        using line_event_held by blast
      moreover have "text_lines (?b @ t) = (?b @ line_rest t) # text_lines (after_line t)"
        using assms False by (intro text_lines_rest) (simp_all add: line_ok_def)
      ultimately show ?thesis
        using detect False notag
          same_segments_sym [OF same_text_text, of "active_tag p" ?b "line_rest t"]
        by (simp add: char_step_def remaining_segments_def Let_def)
    qed
  qed
next
  case False
  then show ?thesis
    using assms same_segments_sym [OF same_text_text, of "active_tag p" "[ch]" "line_rest t"]
    by (simp add: line_ok_def char_step_def remaining_segments_def line_rest_Cons after_line_Cons)
qed

lemma push_text_first: "t \<noteq> [] \<Longrightarrow> push_segment [] (text_segment a t) = [text_segment a t]"
  by (cases a) (simp_all add: text_segment_def push_segment_snoc)

lemma finish_lines_follows:
  assumes "line_ok p"
  shows "same_segments (remaining_segments p []) (snd (finish_lines p))"
proof (cases "line_buffer p = []")
  case True
  then show ?thesis
    using same_text_Nil [of "active_tag p" "case active_tag p of None \<Rightarrow> [] | Some tag \<Rightarrow> [TagEnd tag]"]
    by (auto simp: remaining_segments_def finish_lines_def push_segment_snoc split: option.splits)
next
  case False
  then have "text_lines (line_buffer p) = [line_buffer p]" "detect_tag p"
    using assms text_lines_last by (auto simp: line_ok_def)
  then show ?thesis
    using False
    by (auto simp: push_text_first remaining_segments_def finish_lines_def push_text_def Let_def push_segment_snoc
        split: option.splits line_kind.splits)
qed

lemma char_steps_follow:
  "line_ok p \<Longrightarrow> same_segments (remaining_segments p t)
     (snd (char_steps p t) @ snd (finish_lines (fst (char_steps p t)))) \<and> line_ok (fst (char_steps p t))"
proof (induction t arbitrary: p)
  case Nil
  then show ?case by (simp add: finish_lines_follows)
next
  case (Cons ch t)
  obtain p1 s1 where 1: "char_step p ch = (p1, s1)" by fastforce
  have ok: "line_ok p1" using char_step_ok [OF Cons.prems, of ch] 1 by simp
  have "same_segments (remaining_segments p (ch # t)) (s1 @ remaining_segments p1 t)"
    using char_step_follows [OF Cons.prems, of ch t] 1 by simp
  also have "same_segments (s1 @ remaining_segments p1 t)
      (s1 @ snd (char_steps p1 t) @ snd (finish_lines (fst (char_steps p1 t))))"
    using Cons.IH [OF ok] by (intro same_segments_append) simp_all
  finally show ?case using 1 Cons.IH [OF ok] by (simp add: case_prod_beta)
qed

section \<open>Streams of pieces\<close>

fun parse_pieces :: "'a tagged_line_parser \<Rightarrow> rstr list \<Rightarrow> 'a tagged_line_parser \<times> 'a line_segment list" where
  "parse_pieces p [] = (p, [])"
| "parse_pieces p (t # ts) =
     (let (p1, s1) = parse_lines p t; (p2, s2) = parse_pieces p1 ts in (p2, s1 @ s2))"

lemma parse_pieces_steps:
  "fst (parse_pieces p ts) = fst (char_steps p (concat ts))
   \<and> same_segments (snd (parse_pieces p ts)) (snd (char_steps p (concat ts)))"
proof (induction ts arbitrary: p)
  case (Cons t ts)
  obtain p1 s1 where 1: "char_steps p t = (p1, s1)" by fastforce
  have "same_segments (merge_segments s1 @ snd (parse_pieces p1 ts)) (s1 @ snd (char_steps p1 (concat ts)))"
    using Cons.IH [of p1] merge_segments_same [of s1] by (intro same_segments_append) simp_all
  then show ?case
    using 1 Cons.IH [of p1] by (simp add: parse_lines_steps char_steps_append case_prod_beta)
qed simp

text \<open>
  The block structure of segments: the block that is open after them, or \<open>None\<close> when they do not
  fit the block open before them.
\<close>

fun bracket_step :: "'a option \<Rightarrow> 'a line_segment \<Rightarrow> 'a option option" where
  "bracket_step active (Normal _) = (if active = None then Some None else None)"
| "bracket_step active (TagStart tag) = (if active = None then Some (Some tag) else None)"
| "bracket_step active (TagDelta tag _) = (if active = Some tag then Some active else None)"
| "bracket_step active (TagEnd tag) = (if active = Some tag then Some None else None)"

fun brackets :: "'a option \<Rightarrow> 'a line_segment list \<Rightarrow> 'a option option" where
  "brackets active [] = Some active"
| "brackets active (s # segs) = Option.bind (bracket_step active s) (\<lambda>active. brackets active segs)"

lemma brackets_append: "brackets a (xs @ ys) = Option.bind (brackets a xs) (\<lambda>a. brackets a ys)"
proof (induction xs arbitrary: a)
  case (Cons x xs)
  then show ?case by (cases "bracket_step a x") simp_all
qed simp

lemma bracket_text [simp]: "bracket_step a (text_segment a t) = Some a"
  by (cases a) (simp_all add: text_segment_def)

lemma brackets_block_lines: "brackets a (block_lines specs a ls) = Some None"
  by (induction specs a ls rule: block_lines.induct)
    (auto simp: line_event_def Let_def split: option.splits line_kind.splits if_splits)

lemma brackets_push_segment: "brackets a (segs @ [s]) = Some b \<Longrightarrow> brackets a (push_segment segs s) = Some b"
proof (cases s)
  case (Normal y)
  then show "brackets a (segs @ [s]) = Some b \<Longrightarrow> ?thesis"
    by (cases "y = []"; cases segs rule: rev_cases)
      (auto simp: push_segment_snoc brackets_append split: line_segment.splits if_splits
        Option.bind_splits)
next
  case (TagDelta tag y)
  then show "brackets a (segs @ [s]) = Some b \<Longrightarrow> ?thesis"
    by (cases "y = []"; cases segs rule: rev_cases)
      (auto simp: push_segment_snoc brackets_append split: line_segment.splits if_splits
        Option.bind_splits)
qed (simp_all add: push_segment_snoc)

lemma brackets_merge: "brackets a segs = Some b \<Longrightarrow> brackets a (merge_segments segs) = Some b"
proof -
  have "brackets a (acc @ segs) = Some b \<Longrightarrow> brackets a (foldl push_segment acc segs) = Some b" for acc
  proof (induction segs arbitrary: acc)
    case (Cons s segs)
    then obtain c where "brackets a (acc @ [s]) = Some c" "brackets c segs = Some b"
      by (auto simp: brackets_append Option.bind_eq_Some_conv)
    then show ?case
      using Cons.IH [of "push_segment acc s"] brackets_push_segment [of a acc s c] by (simp add: brackets_append)
  qed simp
  then show "brackets a segs = Some b \<Longrightarrow> ?thesis" by (simp add: merge_segments_def)
qed

lemma parse_pieces_follow:
  "let (p, segs) = parse_pieces (new_tagged_line_parser specs) pieces;
       all = segs @ snd (finish_lines p)
   in merge_segments all = merge_segments (block_lines specs None (text_lines (concat pieces)))
      \<and> brackets None (merge_segments all) = Some None"
proof -
  let ?p = "new_tagged_line_parser specs" and ?t = "concat pieces"
  obtain p segs where ps: "parse_pieces ?p pieces = (p, segs)" by fastforce
  have "same_segments (remaining_segments ?p ?t) (snd (char_steps ?p ?t) @ snd (finish_lines p))"
    using char_steps_follow [of ?p ?t] parse_pieces_steps [of ?p pieces] ps
    by (simp add: line_ok_def new_tagged_line_parser_def)
  also have "same_segments (snd (char_steps ?p ?t) @ snd (finish_lines p)) (segs @ snd (finish_lines p))"
    using parse_pieces_steps [of ?p pieces] ps
    by (intro same_segments_append) (simp_all add: same_segments_sym)
  finally have "merge_segments (segs @ snd (finish_lines p))
      = merge_segments (block_lines specs None (text_lines ?t))"
    using same_segments_merge [of "remaining_segments ?p ?t"]
    by (simp add: remaining_segments_def new_tagged_line_parser_def)
  then show ?thesis
    using brackets_merge [OF brackets_block_lines, of None specs "text_lines ?t"] ps by simp
qed

section \<open>Proposed plans as a stream parser\<close>

fun unmap_plan_segment :: "plan_segment \<Rightarrow> plan_tag line_segment" where
  "unmap_plan_segment (PlanNormal t) = Normal t"
| "unmap_plan_segment ProposedPlanStart = TagStart ProposedPlan"
| "unmap_plan_segment (ProposedPlanDelta t) = TagDelta ProposedPlan t"
| "unmap_plan_segment ProposedPlanEnd = TagEnd ProposedPlan"

definition plan_view :: "plan_segment stream_chunk \<Rightarrow> rstr \<times> plan_tag line_segment list" where
  "plan_view c = (visible_text c, merge_segments (map unmap_plan_segment (extracted c)))"

lemma unmap_map_plan [simp]: "unmap_plan_segment (map_plan_segment s) = s"
  by (cases s rule: map_plan_segment.cases) simp_all

definition segments_visible :: "plan_tag line_segment list \<Rightarrow> rstr" where
  "segments_visible segs = concat (map (plan_visible \<circ> map_plan_segment) segs)"

lemma segments_visible_push: "segments_visible (push_segment segs s) = segments_visible (segs @ [s])"
proof (cases s)
  case (Normal y)
  then show ?thesis
    by (cases "y = []"; cases segs rule: rev_cases)
      (auto simp: push_segment_snoc segments_visible_def split: line_segment.splits)
next
  case (TagDelta tag y)
  then show ?thesis
    by (cases tag; cases "y = []"; cases segs rule: rev_cases)
      (auto simp: push_segment_snoc segments_visible_def split: line_segment.splits)
qed (simp_all add: push_segment_snoc)

lemma segments_visible_merge: "segments_visible (merge_segments segs) = segments_visible segs"
proof -
  have "segments_visible (foldl push_segment acc segs) = segments_visible (acc @ segs)" for acc
  proof (induction segs arbitrary: acc)
    case (Cons s segs)
    have "segments_visible (push_segment acc s @ segs) = segments_visible (acc @ s # segs)"
      using segments_visible_push [of acc s] by (simp add: segments_visible_def)
    then show ?case using Cons by simp
  qed simp
  then show ?thesis by (simp add: merge_segments_def)
qed

lemma plan_view_segments:
  "plan_view (map_segments segs) = (segments_visible segs, merge_segments segs)"
  by (simp add: plan_view_def map_segments_def segments_visible_def comp_def)

lemma map_segments_append: "map_segments (xs @ ys) = chunk_append (map_segments xs) (map_segments ys)"
  by (simp add: map_segments_def chunk_append_def)

lemma plan_view_merge: "plan_view (map_segments (merge_segments segs)) = plan_view (map_segments segs)"
  using same_segments_merge [OF merge_segments_same] by (simp add: plan_view_segments segments_visible_merge)

lemma same_segments_iff_merge: "same_segments a b \<longleftrightarrow> merge_segments a = merge_segments b"
proof
  assume "merge_segments a = merge_segments b"
  then have "same_segments (merge_segments a) b" using merge_segments_same [of b] by simp
  then show "same_segments a b"
    using same_segments_trans [OF same_segments_sym [OF merge_segments_same [of a]]] by blast
qed (rule same_segments_merge)

lemma merge_append_cong:
  "merge_segments a = merge_segments a' \<Longrightarrow> merge_segments b = merge_segments b' \<Longrightarrow>
   merge_segments (a @ b) = merge_segments (a' @ b')"
  using same_segments_append [of a a' b b'] by (simp only: same_segments_iff_merge)

lemma plan_view_append:
  "plan_view a = plan_view a' \<Longrightarrow> plan_view b = plan_view b' \<Longrightarrow>
   plan_view (chunk_append a b) = plan_view (chunk_append a' b')"
  unfolding plan_view_def using merge_append_cong by (simp, blast)

lemma plan_push_append:
  assumes "plan_push_str p t = (p1, c1)" "plan_push_str p1 u = (p2, c2)"
  shows "\<exists>c. plan_push_str p (t @ u) = (p2, c) \<and> plan_view c = plan_view (chunk_append c1 c2)"
proof -
  let ?s1 = "snd (char_steps p t)" and ?s2 = "snd (char_steps p1 u)"
  have c: "p1 = fst (char_steps p t)" "p2 = fst (char_steps p1 u)"
      "c1 = map_segments (merge_segments ?s1)" "c2 = map_segments (merge_segments ?s2)"
    using assms by (auto simp: plan_push_str_def parse_lines_steps)
  have "plan_push_str p (t @ u) = (p2, map_segments (merge_segments (?s1 @ ?s2)))"
    by (simp add: plan_push_str_def parse_lines_steps char_steps_append c(1,2) case_prod_beta)
  moreover have "plan_view (map_segments (merge_segments (?s1 @ ?s2)))
      = plan_view (chunk_append (map_segments ?s1) (map_segments ?s2))"
    by (simp only: plan_view_merge map_segments_append)
  moreover have "plan_view (chunk_append (map_segments ?s1) (map_segments ?s2)) = plan_view (chunk_append c1 c2)"
    unfolding c(3,4) by (rule plan_view_append) (rule plan_view_merge [symmetric])+
  ultimately show ?thesis by auto
qed

lemma plan_push_Nil: "plan_push_str p [] = (p, empty_chunk)"
  by (simp add: plan_push_str_def parse_lines_def map_segments_def empty_chunk_def)

interpretation plan: stream_text_parser "\<lambda>_. True" "\<lambda>p t. Some (plan_push_str p t)" plan_finish plan_view
proof
  fix s s1 s2 :: plan_parser and t u c1 c2
  show "\<exists>s' c. Some (plan_push_str s t) = Some (s', c) \<and> True" by (cases "plan_push_str s t") simp
  show "Some (plan_push_str s []) = Some (s, empty_chunk)" by (simp only: plan_push_Nil)
  show "\<exists>c. Some (plan_push_str s (t @ u)) = Some (s2, c) \<and> plan_view c = plan_view (chunk_append c1 c2)"
    if "Some (plan_push_str s t) = Some (s1, c1)" "Some (plan_push_str s1 u) = Some (s2, c2)"
    using plan_push_append [of s t s1 c1 u s2 c2] that by simp
qed (rule plan_view_append TrueI; assumption?)+

section \<open>Properties\<close>

text \<open>
  Feeding a text to the parser in any pieces and finishing gives, up to joining neighbouring
  segments, the segments of the text read line by line: a line alone with an opening or closing
  tag that fits starts or ends a block, and every other line is text of the block it stands in.
  The segments are properly bracketed, and every block is closed at the end.
\<close>

lemma tagged_lines_streamed:
  "let (p, segs) = parse_pieces (new_tagged_line_parser specs) pieces;
       all = segs @ snd (finish_lines p)
   in merge_segments all = merge_segments (block_lines specs None (text_lines (concat pieces)))
      \<and> brackets None (merge_segments all) = Some None"
  by (rule parse_pieces_follow)

end
