(* ===== verification/Assistant_Text.thy ===== *)
theory Assistant_Text
  imports Hidden_Tags Tagged_Lines
begin

text \<open>
  The parser of assistant messages, \<open>utils/stream-parser/src/assistant_text.rs\<close>: citations are
  hidden first, and in plan mode the text that is left is searched for plan blocks.

  The parser is the composition of the two stream parsers, and its contract the composition of
  their references.
\<close>

record assistant_chunk =
  assistant_visible :: rstr
  chunk_citations :: "rstr list"
  plan_segments :: "plan_segment list"

definition default_assistant_chunk :: assistant_chunk where
  "default_assistant_chunk = \<lparr>assistant_visible = [], chunk_citations = [], plan_segments = []\<rparr>"

record assistant_parser =
  plan_mode :: bool
  citations :: citation_parser
  plan :: plan_parser

definition new_assistant_parser :: "bool \<Rightarrow> assistant_parser option" where
  "new_assistant_parser mode =
     map_option (\<lambda>c. \<lparr>plan_mode = mode, citations = c, plan = new_plan_parser\<rparr>) new_citation_parser"

definition parse_visible_text :: "assistant_parser \<Rightarrow> rstr \<Rightarrow> assistant_parser \<times> assistant_chunk" where
  "parse_visible_text p t =
     (if \<not> plan_mode p then (p, default_assistant_chunk\<lparr>assistant_visible := t\<rparr>)
      else
        let (q, plan_chunk) = plan_push_str (plan p) t in
        (p\<lparr>plan := q\<rparr>,
         default_assistant_chunk\<lparr>assistant_visible := visible_text plan_chunk,
                                 plan_segments := extracted plan_chunk\<rparr>))"

definition assistant_push_str :: "assistant_parser \<Rightarrow> rstr \<Rightarrow> (assistant_parser \<times> assistant_chunk) option" where
  "assistant_push_str p chunk =
     (case citation_push_str (citations p) chunk of
        None \<Rightarrow> None
      | Some (q, cited) \<Rightarrow>
          let (p, out) = parse_visible_text (p\<lparr>citations := q\<rparr>) (visible_text cited)
          in Some (p, out\<lparr>chunk_citations := extracted cited\<rparr>))"

definition assistant_finish :: "assistant_parser \<Rightarrow> assistant_parser \<times> assistant_chunk" where
  "assistant_finish p =
     (let (q, cited) = citation_finish (citations p);
          (p, out) = parse_visible_text (p\<lparr>citations := q\<rparr>) (visible_text cited);
          (p, out) =
            (if plan_mode p
             then
               let (r, tail) = plan_finish (plan p) in
               (p\<lparr>plan := r\<rparr>,
                if \<not> chunk_is_empty tail
                then out\<lparr>assistant_visible := assistant_visible out @ visible_text tail,
                         plan_segments := plan_segments out @ extracted tail\<rparr>
                else out)
             else (p, out))
      in (p, out\<lparr>chunk_citations := extracted cited\<rparr>))"

section \<open>Streams of pieces\<close>

definition assistant_append :: "assistant_chunk \<Rightarrow> assistant_chunk \<Rightarrow> assistant_chunk" where
  "assistant_append a b =
     \<lparr>assistant_visible = assistant_visible a @ assistant_visible b,
      chunk_citations = chunk_citations a @ chunk_citations b,
      plan_segments = plan_segments a @ plan_segments b\<rparr>"

text \<open>All that a parser gives for a message that arrives in pieces.\<close>

fun assistant_message :: "assistant_parser \<Rightarrow> rstr list \<Rightarrow> assistant_chunk option" where
  "assistant_message p [] = Some (snd (assistant_finish p))"
| "assistant_message p (t # ts) =
     (case assistant_push_str p t of
        None \<Rightarrow> None
      | Some (q, out) \<Rightarrow> map_option (assistant_append out) (assistant_message q ts))"

text \<open>The segments that the plan parser gives for the visible text, cut as it arrives.\<close>

lemma chunk_is_empty_iff: "chunk_is_empty c \<longleftrightarrow> c = empty_chunk"
  by (cases c) (auto simp: chunk_is_empty_def empty_chunk_def)

definition plan_chunk_of :: "bool \<Rightarrow> rstr list \<Rightarrow> plan_tag line_segment list \<Rightarrow> rstr list \<Rightarrow> assistant_chunk" where
  "plan_chunk_of mode vs segs cs =
     (if mode then \<lparr>assistant_visible = segments_visible segs, chunk_citations = cs,
                    plan_segments = map map_plan_segment segs\<rparr>
      else \<lparr>assistant_visible = concat vs, chunk_citations = cs, plan_segments = []\<rparr>)"

definition plan_run :: "plan_parser \<Rightarrow> rstr list \<Rightarrow> plan_tag line_segment list" where
  "plan_run q vs = (let (q', segs) = parse_pieces q vs in segs @ snd (finish_lines q'))"

lemma plan_run_Cons: "plan_run q (v # vs) = snd (parse_lines q v) @ plan_run (fst (parse_lines q v)) vs"
  by (simp add: plan_run_def Let_def case_prod_beta)

lemma map_segments_sels:
  "visible_text (map_segments segs) = segments_visible segs"
  "extracted (map_segments segs) = map map_plan_segment segs"
  by (simp_all add: map_segments_def segments_visible_def comp_def)

lemma segments_visible_append: "segments_visible (xs @ ys) = segments_visible xs @ segments_visible ys"
  by (simp add: segments_visible_def)

lemma parse_visible_text_eq:
  "parse_visible_text p v =
     (if plan_mode p then p\<lparr>plan := fst (parse_lines (plan p) v)\<rparr> else p,
      plan_chunk_of (plan_mode p) [v] (snd (parse_lines (plan p) v)) [])"
  by (simp add: parse_visible_text_def plan_chunk_of_def plan_push_str_def default_assistant_chunk_def
      map_segments_sels case_prod_beta)

lemma plan_chunk_of_append:
  "assistant_append (plan_chunk_of mode vs xs cs) (plan_chunk_of mode ws ys ds)
     = plan_chunk_of mode (vs @ ws) (xs @ ys) (cs @ ds)"
  by (simp add: assistant_append_def plan_chunk_of_def segments_visible_append)

lemma plan_chunk_of_citations [simp]:
  "plan_chunk_of mode vs xs cs\<lparr>chunk_citations := ds\<rparr> = plan_chunk_of mode vs xs ds"
  by (simp add: plan_chunk_of_def)

lemma assistant_finish_eq:
  "snd (assistant_finish p) =
     plan_chunk_of (plan_mode p) [visible_text (snd (citation_finish (citations p)))]
       (plan_run (plan p) [visible_text (snd (citation_finish (citations p)))])
       (extracted (snd (citation_finish (citations p))))"
proof (cases "plan_mode p")
  case True
  then show ?thesis
    by (auto simp: assistant_finish_def parse_visible_text_eq plan_finish_def plan_run_def Let_def
        case_prod_beta plan_chunk_of_def chunk_is_empty_iff map_segments_sels segments_visible_append
        dest: arg_cong [of _ _ visible_text] arg_cong [of _ _ extracted])
next
  case False
  then show ?thesis
    by (simp add: assistant_finish_def parse_visible_text_eq Let_def case_prod_beta plan_chunk_of_def)
qed

lemma assistant_message_eq:
  assumes "settled (citations p)"
  shows "\<exists>q c vs. push_all citation_push_str (citations p) ts = Some (q, c)
    \<and> concat vs = visible_text (chunk_append c (snd (citation_finish q)))
    \<and> assistant_message p ts = Some (plan_chunk_of (plan_mode p) vs (plan_run (plan p) vs)
        (extracted (chunk_append c (snd (citation_finish q)))))"
  using assms
proof (induction ts arbitrary: p)
  case Nil
  show ?case
    by (intro exI [of _ "citations p"] exI [of _ empty_chunk]
        exI [of _ "[visible_text (snd (citation_finish (citations p)))]"])
      (simp add: assistant_finish_eq)
next
  case (Cons t ts)
  obtain q c where q: "citation_push_str (citations p) t = Some (q, c)" "settled q"
    using citation.push_total [OF Cons.prems] by blast
  let ?p = "fst (parse_visible_text (p\<lparr>citations := q\<rparr>) (visible_text c))"
  have p: "citations ?p = q" "plan_mode ?p = plan_mode p"
      "plan_mode p \<Longrightarrow> plan ?p = fst (parse_lines (plan p) (visible_text c))"
    by (simp_all add: parse_visible_text_eq)
  obtain r d vs where r: "push_all citation_push_str q ts = Some (r, d)"
      "concat vs = visible_text (chunk_append d (snd (citation_finish r)))"
      "assistant_message ?p ts = Some (plan_chunk_of (plan_mode p) vs (plan_run (plan ?p) vs)
        (extracted (chunk_append d (snd (citation_finish r)))))"
    using Cons.IH [of ?p] p q(2) by auto
  have "assistant_message p (t # ts) = Some (plan_chunk_of (plan_mode p) (visible_text c # vs)
      (plan_run (plan p) (visible_text c # vs)) (extracted c @ extracted (chunk_append d (snd (citation_finish r)))))"
    using q(1) r(3) p(3)
    by (cases "plan_mode p")
      (simp_all add: assistant_push_str_def parse_visible_text_eq plan_chunk_of_append plan_run_Cons,
       simp add: plan_chunk_of_def)
  then show ?case
    using q(1) r(1,2) by (intro exI [of _ r] exI [of _ "chunk_append c d"] exI [of _ "visible_text c # vs"]) simp
qed

lemma plan_run_follows:
  "merge_segments (plan_run new_plan_parser vs)
     = merge_segments (block_lines (line_specs new_plan_parser) None (text_lines (concat vs)))"
  using parse_pieces_follow [of "line_specs new_plan_parser" vs]
  by (simp add: plan_run_def new_plan_parser_def new_tagged_line_parser_def Let_def case_prod_beta)

section \<open>Properties\<close>

text \<open>
  C30. An assistant message that arrives in any pieces is shown the same: its citations are those of
  the complete text. In plan mode its plan segments are, up to joining neighbours, those of the
  text without citations read line by line, and the visible text is what stands outside of plan
  blocks; otherwise the visible text is the text without citations.
\<close>

theorem assistant_message_streamed:
  "\<exists>p out. new_assistant_parser mode = Some p \<and> assistant_message p pieces = Some out
     \<and> (let r = citation_reference (concat pieces);
            segs = block_lines (line_specs new_plan_parser) None (text_lines (visible_text r))
        in chunk_citations out = extracted r
           \<and> (if mode
              then assistant_visible out = segments_visible segs
                \<and> merge_segments (map unmap_plan_segment (plan_segments out)) = merge_segments segs
              else assistant_visible out = visible_text r \<and> plan_segments out = []))"
proof -
  obtain c0 q c where c0: "new_citation_parser = Some c0"
      "push_all citation_push_str c0 pieces = Some (q, c)"
      "chunk_append c (snd (citation_finish q)) = citation_reference (concat pieces)"
    using citation_pieces by blast
  let ?p = "\<lparr>plan_mode = mode, citations = c0, plan = new_plan_parser\<rparr>"
  let ?r = "citation_reference (concat pieces)"
  have "settled (citations ?p)" using new_citation_settled c0(1) by (metis assistant_parser.select_convs(2) option.inject)
  then obtain vs where vs: "concat vs = visible_text ?r"
      "assistant_message ?p pieces = Some (plan_chunk_of mode vs (plan_run new_plan_parser vs) (extracted ?r))"
    using assistant_message_eq [of ?p pieces] c0(2,3) by (auto simp del: chunk_append_sels)
  let ?segs = "block_lines (line_specs new_plan_parser) None (text_lines (visible_text ?r))"
  have "merge_segments (plan_run new_plan_parser vs) = merge_segments ?segs"
    using plan_run_follows [of vs] vs(1) by simp
  moreover from this have "segments_visible (plan_run new_plan_parser vs) = segments_visible ?segs"
    by (metis segments_visible_merge)
  ultimately show ?thesis
    using vs c0(1)
    by (intro exI [of _ ?p] exI [of _ "plan_chunk_of mode vs (plan_run new_plan_parser vs) (extracted ?r)"])
      (simp add: new_assistant_parser_def plan_chunk_of_def Let_def comp_def)
qed

end
