(* ===== verification/Utf8_Stream.thy ===== *)
theory Utf8_Stream
  imports Hidden_Tags
begin

text \<open>
  The wrapper that feeds bytes to a parser of streamed text, \<open>utils/stream-parser/src/utf8_stream.rs\<close>.
  It holds back the bytes of a character that has not arrived completely.

  \<open>std::str::from_utf8\<close> is modelled by \<open>decode_char\<close>, which reads one character the way the validation
  in the standard library does, with the lengths it reports for invalid sequences. The wrapped
  parser is an argument of the operations; the lemmas about it are proved in the locale
  \<open>stream_text_parser\<close>.
\<close>

section \<open>UTF-8\<close>

datatype decoded =
    Decoded rchar nat
  | Invalid nat
  | Incomplete

definition is_continuation :: "byte \<Rightarrow> bool" where
  "is_continuation b \<longleftrightarrow> 128 \<le> b \<and> b \<le> 191"

text \<open>The admissible second bytes of a three-byte and of a four-byte sequence.\<close>

definition second_of_three :: "byte \<Rightarrow> byte \<Rightarrow> bool" where
  "second_of_three b c \<longleftrightarrow>
     (if b = 224 then 160 \<le> c \<and> c \<le> 191
      else if b = 237 then 128 \<le> c \<and> c \<le> 159
      else is_continuation c)"

definition second_of_four :: "byte \<Rightarrow> byte \<Rightarrow> bool" where
  "second_of_four b c \<longleftrightarrow>
     (if b = 240 then 144 \<le> c \<and> c \<le> 191
      else if b = 244 then 128 \<le> c \<and> c \<le> 143
      else is_continuation c)"

definition decode_two :: "byte \<Rightarrow> byte list \<Rightarrow> decoded" where
  "decode_two b bs =
     (case bs of
        [] \<Rightarrow> Incomplete
      | c # _ \<Rightarrow> if is_continuation c then Decoded ((b - 192) * 64 + (c - 128)) 2 else Invalid 1)"

definition decode_three :: "byte \<Rightarrow> byte list \<Rightarrow> decoded" where
  "decode_three b bs =
     (case bs of
        [] \<Rightarrow> Incomplete
      | c # bs \<Rightarrow>
          if \<not> second_of_three b c then Invalid 1
          else (case bs of
                  [] \<Rightarrow> Incomplete
                | d # _ \<Rightarrow>
                    if is_continuation d
                    then Decoded ((b - 224) * 4096 + (c - 128) * 64 + (d - 128)) 3
                    else Invalid 2))"

definition decode_four :: "byte \<Rightarrow> byte list \<Rightarrow> decoded" where
  "decode_four b bs =
     (case bs of
        [] \<Rightarrow> Incomplete
      | c # bs \<Rightarrow>
          if \<not> second_of_four b c then Invalid 1
          else (case bs of
                  [] \<Rightarrow> Incomplete
                | d # bs \<Rightarrow>
                    if \<not> is_continuation d then Invalid 2
                    else (case bs of
                            [] \<Rightarrow> Incomplete
                          | e # _ \<Rightarrow>
                              if is_continuation e
                              then Decoded ((b - 240) * 262144 + (c - 128) * 4096 + (d - 128) * 64
                                     + (e - 128)) 4
                              else Invalid 3)))"

definition decode_char :: "byte \<Rightarrow> byte list \<Rightarrow> decoded" where
  "decode_char b bs =
     (if b < 128 then Decoded b 1
      else if 194 \<le> b \<and> b \<le> 223 then decode_two b bs
      else if 224 \<le> b \<and> b \<le> 239 then decode_three b bs
      else if 240 \<le> b \<and> b \<le> 244 then decode_four b bs
      else Invalid 1)"

record utf8_error =
  valid_up_to :: nat
  error_len :: "nat option"

lemma decode_char_width: "decode_char b bs = Decoded c n \<Longrightarrow> 0 < n"
  by (auto simp: decode_char_def decode_two_def decode_three_def decode_four_def
      split: if_splits list.splits)

function from_utf8_loop :: "nat \<Rightarrow> rstr \<Rightarrow> byte list \<Rightarrow> utf8_error + rstr" where
  "from_utf8_loop index acc [] = Inr acc"
| "from_utf8_loop index acc (b # bs) =
     (case decode_char b bs of
        Decoded c n \<Rightarrow> from_utf8_loop (index + n) (acc @ [c]) (drop n (b # bs))
      | Invalid n \<Rightarrow> Inl \<lparr>valid_up_to = index, error_len = Some n\<rparr>
      | Incomplete \<Rightarrow> Inl \<lparr>valid_up_to = index, error_len = None\<rparr>)"
  by pat_completeness auto

termination
  by (relation "measure (\<lambda>(index, acc, bs). length bs)") (auto dest: decode_char_width)

definition from_utf8 :: "byte list \<Rightarrow> utf8_error + rstr" where
  "from_utf8 bs = from_utf8_loop 0 [] bs"

section \<open>The wrapper\<close>

datatype utf8_stream_error =
    InvalidUtf8 nat nat
  | IncompleteUtf8AtEof

record 'p utf8_parser =
  inner :: 'p
  pending_utf8 :: "byte list"

definition new_utf8_parser :: "'p \<Rightarrow> 'p utf8_parser" where
  "new_utf8_parser p = \<lparr>inner = p, pending_utf8 = []\<rparr>"

definition push_inner ::
  "('p \<Rightarrow> rstr \<Rightarrow> ('p \<times> 'x stream_chunk) option) \<Rightarrow> 'p utf8_parser \<Rightarrow> rstr \<Rightarrow> byte list
     \<Rightarrow> ('p utf8_parser \<times> (utf8_stream_error + 'x stream_chunk)) option" where
  "push_inner push p t rest =
     map_option (\<lambda>(q, out). (\<lparr>inner = q, pending_utf8 = rest\<rparr>, Inr out)) (push (inner p) t)"

definition push_bytes ::
  "('p \<Rightarrow> rstr \<Rightarrow> ('p \<times> 'x stream_chunk) option) \<Rightarrow> 'p utf8_parser \<Rightarrow> byte list
     \<Rightarrow> ('p utf8_parser \<times> (utf8_stream_error + 'x stream_chunk)) option" where
  "push_bytes push p chunk =
     (let old_len = length (pending_utf8 p); buffered = pending_utf8 p @ chunk in
      case from_utf8 buffered of
        Inr t \<Rightarrow> push_inner push p t []
      | Inl err \<Rightarrow>
          (case error_len err of
             Some n \<Rightarrow>
               Some (p\<lparr>pending_utf8 := take old_len buffered\<rparr>, Inl (InvalidUtf8 (valid_up_to err) n))
           | None \<Rightarrow>
               if valid_up_to err = 0 then Some (p\<lparr>pending_utf8 := buffered\<rparr>, Inr empty_chunk)
               else (case from_utf8 (take (valid_up_to err) buffered) of
                       Inl prefix_err \<Rightarrow>
                         Some (p\<lparr>pending_utf8 := take old_len buffered\<rparr>,
                           Inl (InvalidUtf8 (valid_up_to prefix_err)
                                  (case error_len prefix_err of Some n \<Rightarrow> n | None \<Rightarrow> 0)))
                     | Inr t \<Rightarrow> push_inner push p t (drop (valid_up_to err) buffered))))"

definition undecoded_error :: "utf8_error \<Rightarrow> utf8_stream_error" where
  "undecoded_error err =
     (case error_len err of Some n \<Rightarrow> InvalidUtf8 (valid_up_to err) n | None \<Rightarrow> IncompleteUtf8AtEof)"

definition finish_bytes ::
  "('p \<Rightarrow> rstr \<Rightarrow> ('p \<times> 'x stream_chunk) option) \<Rightarrow> ('p \<Rightarrow> 'p \<times> 'x stream_chunk) \<Rightarrow> 'p utf8_parser
     \<Rightarrow> ('p utf8_parser \<times> (utf8_stream_error + 'x stream_chunk)) option" where
  "finish_bytes push fin p =
     (let flushed =
            (if pending_utf8 p = [] then Some (p, Inr empty_chunk)
             else (case from_utf8 (pending_utf8 p) of
                     Inl err \<Rightarrow> Some (p, Inl (undecoded_error err))
                   | Inr t \<Rightarrow> push_inner push p t []))
      in case flushed of
           None \<Rightarrow> None
         | Some (p, Inl e) \<Rightarrow> Some (p, Inl e)
         | Some (p, Inr out) \<Rightarrow>
             let (q, tail) = fin (inner p) in Some (p\<lparr>inner := q\<rparr>, Inr (chunk_append out tail)))"

definition into_inner :: "'p utf8_parser \<Rightarrow> utf8_stream_error + 'p" where
  "into_inner p =
     (if pending_utf8 p = [] then Inr (inner p)
      else (case from_utf8 (pending_utf8 p) of
              Inr _ \<Rightarrow> Inr (inner p)
            | Inl err \<Rightarrow> Inl (undecoded_error err)))"

definition into_inner_lossy :: "'p utf8_parser \<Rightarrow> 'p" where
  "into_inner_lossy p = inner p"

section \<open>Encoding\<close>

definition is_scalar :: "rchar \<Rightarrow> bool" where
  "is_scalar c \<longleftrightarrow> c < 55296 \<or> 57344 \<le> c \<and> c < 1114112"

definition utf8_encode_char :: "rchar \<Rightarrow> byte list" where
  "utf8_encode_char c =
     (if c < 128 then [c]
      else if c < 2048 then [192 + c div 64, 128 + c mod 64]
      else if c < 65536 then [224 + c div 4096, 128 + c div 64 mod 64, 128 + c mod 64]
      else [240 + c div 262144, 128 + c div 4096 mod 64, 128 + c div 64 mod 64, 128 + c mod 64])"

definition utf8_encode :: "rstr \<Rightarrow> byte list" where
  "utf8_encode s = concat (map utf8_encode_char s)"

lemma utf8_encode_simps [simp]:
  "utf8_encode [] = []"
  "utf8_encode (c # s) = utf8_encode_char c @ utf8_encode s"
  "utf8_encode (s @ t) = utf8_encode s @ utf8_encode t"
  by (simp_all add: utf8_encode_def)

lemma length_utf8_encode_char: "length (utf8_encode_char c) = len_utf8 c"
  by (simp add: utf8_encode_char_def len_utf8_def)

lemma utf8_encode_char_nonempty [simp]: "utf8_encode_char c \<noteq> []"
  by (simp add: utf8_encode_char_def)

text \<open>The digits of a number to base 64.\<close>

lemma digits_64:
  fixes c :: nat
  obtains q r0 r1 r2 where "c = 262144 * q + 4096 * r2 + 64 * r1 + r0" "r0 < 64" "r1 < 64" "r2 < 64"
    and "c mod 64 = r0" "c div 64 mod 64 = r1" "c div 4096 mod 64 = r2"
    and "c div 64 = 4096 * q + 64 * r2 + r1" "c div 4096 = 64 * q + r2" "c div 262144 = q"
proof -
  let ?q1 = "c div 64" and ?q2 = "c div 64 div 64"
  have d: "c div 4096 = ?q2" "c div 262144 = ?q2 div 64" by (simp_all flip: div_mult2_eq)
  have e: "c = 64 * ?q1 + c mod 64" "?q1 = 64 * ?q2 + ?q1 mod 64" "?q2 = 64 * (?q2 div 64) + ?q2 mod 64"
    by simp_all
  show ?thesis
  proof (rule that)
    show "c = 262144 * (?q2 div 64) + 4096 * (?q2 mod 64) + 64 * (?q1 mod 64) + c mod 64"
      "c div 64 = 4096 * (?q2 div 64) + 64 * (?q2 mod 64) + ?q1 mod 64"
      "c div 4096 = 64 * (?q2 div 64) + ?q2 mod 64"
      using e d by linarith+
  qed (simp_all add: d)
qed

lemma decode_digits:
  "2 \<le> a \<Longrightarrow> a \<le> 31 \<Longrightarrow> b < 64 \<Longrightarrow>
   decode_char (192 + a) ((128 + b) # r) = Decoded (64 * a + b) 2"
  "a \<le> 15 \<Longrightarrow> second_of_three (224 + a) (128 + b) \<Longrightarrow> c < 64 \<Longrightarrow>
   decode_char (224 + a) ((128 + b) # (128 + c) # r) = Decoded (4096 * a + 64 * b + c) 3"
  "a \<le> 4 \<Longrightarrow> second_of_four (240 + a) (128 + b) \<Longrightarrow> c < 64 \<Longrightarrow> d < 64 \<Longrightarrow>
   decode_char (240 + a) ((128 + b) # (128 + c) # (128 + d) # r)
     = Decoded (262144 * a + 4096 * b + 64 * c + d) 4"
  "2 \<le> a \<Longrightarrow> a \<le> 31 \<Longrightarrow> decode_char (192 + a) [] = Incomplete"
  "a \<le> 15 \<Longrightarrow> decode_char (224 + a) [] = Incomplete
     \<and> (second_of_three (224 + a) (128 + b) \<longrightarrow> decode_char (224 + a) [128 + b] = Incomplete)"
  "a \<le> 4 \<Longrightarrow> decode_char (240 + a) [] = Incomplete
     \<and> (second_of_four (240 + a) (128 + b) \<longrightarrow> decode_char (240 + a) [128 + b] = Incomplete
        \<and> (c < 64 \<longrightarrow> decode_char (240 + a) [128 + b, 128 + c] = Incomplete))"
  by (simp_all add: decode_char_def decode_two_def decode_three_def decode_four_def is_continuation_def)

lemma decode_encoded:
  assumes "is_scalar c"
  obtains b bs where "utf8_encode_char c = b # bs"
    and "\<And>r. decode_char b (bs @ r) = Decoded c (Suc (length bs))"
    and "\<And>k. k < length bs \<Longrightarrow> decode_char b (take k bs) = Incomplete"
proof -
  obtain q r0 r1 r2 where c: "c = 262144 * q + 4096 * r2 + 64 * r1 + r0" "r0 < 64" "r1 < 64" "r2 < 64"
    and m: "c mod 64 = r0" "c div 64 mod 64 = r1" "c div 4096 mod 64 = r2"
      "c div 64 = 4096 * q + 64 * r2 + r1" "c div 4096 = 64 * q + r2" "c div 262144 = q"
    by (rule digits_64)
  consider "c < 128" | "128 \<le> c" "c < 2048" | "2048 \<le> c" "c < 65536" | "65536 \<le> c" by linarith
  then show ?thesis
  proof cases
    case 1
    then show ?thesis using that [of c "[]"] by (simp add: utf8_encode_char_def decode_char_def)
  next
    case 2
    then have z: "q = 0" "r2 = 0" using c by linarith+
    then have "2 \<le> r1" "r1 \<le> 31" using 2 c by linarith+
    then show ?thesis
    proof (intro that)
      show "utf8_encode_char c = [192 + r1, 128 + r0]" using 2 m z by (simp add: utf8_encode_char_def)
      show "decode_char (192 + r1) ([128 + r0] @ r) = Decoded c (Suc (length [128 + r0]))" for r
        using decode_digits(1) [of r1 r0 r] \<open>2 \<le> r1\<close> \<open>r1 \<le> 31\<close> c z by simp
      show "decode_char (192 + r1) (take k [128 + r0]) = Incomplete" if "k < length [128 + r0]" for k
        using that decode_digits(4) [of r1] \<open>2 \<le> r1\<close> \<open>r1 \<le> 31\<close> by simp
    qed
  next
    case 3
    then have q: "q = 0" and "r2 \<le> 15" using c by linarith+
    have "r2 = 0 \<Longrightarrow> 32 \<le> r1" using 3 c q by linarith
    moreover have "r2 = 13 \<Longrightarrow> r1 < 32" using assms c q unfolding is_scalar_def by (elim disjE) linarith+
    ultimately have "second_of_three (224 + r2) (128 + r1)"
      using c(3) by (auto simp: second_of_three_def is_continuation_def)
    then show ?thesis
    proof (intro that)
      show "utf8_encode_char c = [224 + r2, 128 + r1, 128 + r0]" using 3 m q by (simp add: utf8_encode_char_def)
      show "decode_char (224 + r2) ([128 + r1, 128 + r0] @ r) = Decoded c (Suc (length [128 + r1, 128 + r0]))" for r
        using decode_digits(2) [of r2 r1 r0 r] \<open>r2 \<le> 15\<close> c q \<open>second_of_three _ _\<close> by simp
      show "decode_char (224 + r2) (take k [128 + r1, 128 + r0]) = Incomplete"
        if "k < length [128 + r1, 128 + r0]" for k
        using that decode_digits(5) [of r2 r1] \<open>r2 \<le> 15\<close> \<open>second_of_three _ _\<close> by (cases k) simp_all
    qed
  next
    case 4
    then have "q \<le> 4" using assms c unfolding is_scalar_def by linarith
    have "q = 0 \<Longrightarrow> 16 \<le> r2" using 4 c by linarith
    moreover have "q = 4 \<Longrightarrow> r2 < 16" using assms c unfolding is_scalar_def by (elim disjE) linarith+
    ultimately have "second_of_four (240 + q) (128 + r2)"
      using c(4) by (auto simp: second_of_four_def is_continuation_def)
    then show ?thesis
    proof (intro that)
      show "utf8_encode_char c = [240 + q, 128 + r2, 128 + r1, 128 + r0]"
        using 4 m by (simp add: utf8_encode_char_def)
      show "decode_char (240 + q) ([128 + r2, 128 + r1, 128 + r0] @ r)
          = Decoded c (Suc (length [128 + r2, 128 + r1, 128 + r0]))" for r
        using decode_digits(3) [of q r2 r1 r0 r] \<open>q \<le> 4\<close> c \<open>second_of_four _ _\<close> by simp
      show "decode_char (240 + q) (take k [128 + r2, 128 + r1, 128 + r0]) = Incomplete"
        if "k < length [128 + r2, 128 + r1, 128 + r0]" for k
      proof -
        consider "k = 0" | "k = 1" | "k = 2" using \<open>k < _\<close> by fastforce
        then show ?thesis using decode_digits(6) [of q r2 r1] \<open>q \<le> 4\<close> c(3) \<open>second_of_four _ _\<close> by cases simp_all
      qed
    qed
  qed
qed

lemma encoded_char:
  assumes "is_scalar c"
  shows "\<exists>b bs. utf8_encode_char c = b # bs \<and> (\<forall>r. decode_char b (bs @ r) = Decoded c (Suc (length bs)))
    \<and> (\<forall>k < length bs. decode_char b (take k bs) = Incomplete)"
  using assms
proof (rule decode_encoded)
  fix b bs
  assume *: "utf8_encode_char c = b # bs" "\<And>r. decode_char b (bs @ r) = Decoded c (Suc (length bs))"
    "\<And>k. k < length bs \<Longrightarrow> decode_char b (take k bs) = Incomplete"
  show ?thesis by (intro exI [of _ b] exI [of _ bs] conjI allI impI *)
qed

declare from_utf8_loop.simps(2) [simp del]

lemma from_utf8_loop_char:
  assumes "is_scalar c"
  shows "from_utf8_loop i acc (utf8_encode_char c @ r) = from_utf8_loop (i + length (utf8_encode_char c)) (acc @ [c]) r"
proof -
  obtain b bs where b: "utf8_encode_char c = b # bs"
      "\<forall>r. decode_char b (bs @ r) = Decoded c (Suc (length bs))"
    using encoded_char [OF assms] by blast
  have "from_utf8_loop i acc (b # bs @ r) = from_utf8_loop (i + Suc (length bs)) (acc @ [c]) r"
    by (subst from_utf8_loop.simps(2)) (simp add: b(2))
  then show ?thesis by (simp add: b(1))
qed

lemma from_utf8_loop_encoded:
  "list_all is_scalar s \<Longrightarrow>
   from_utf8_loop i acc (utf8_encode s @ r) = from_utf8_loop (i + length (utf8_encode s)) (acc @ s) r"
proof (induction s arbitrary: i acc)
  case (Cons c s)
  then show ?case using from_utf8_loop_char [of c i acc "utf8_encode s @ r"] by (simp add: add.assoc)
qed simp

lemma from_utf8_loop_partial:
  assumes "is_scalar c" "r \<noteq> []" "utf8_encode_char c = r @ z" "z \<noteq> []"
  shows "from_utf8_loop i acc r = Inl \<lparr>valid_up_to = i, error_len = None\<rparr>"
proof -
  obtain b bs where b: "utf8_encode_char c = b # bs"
      "\<forall>k < length bs. decode_char b (take k bs) = Incomplete"
    using encoded_char [OF assms(1)] by blast
  obtain r' where r: "r = b # r'" "bs = r' @ z" using assms(2,3) b(1) by (cases r) auto
  then have "decode_char b r' = Incomplete" using b(2) [rule_format, of "length r'"] assms(4) by simp
  then show ?thesis unfolding r(1) by (subst from_utf8_loop.simps(2)) simp
qed

lemma from_utf8_encoded: "list_all is_scalar s \<Longrightarrow> from_utf8 (utf8_encode s) = Inr s"
  using from_utf8_loop_encoded [of s 0 "[]" "[]"] by (simp add: from_utf8_def)

lemma from_utf8_partial:
  assumes "list_all is_scalar (s @ [c])" "r \<noteq> []" "utf8_encode_char c = r @ z" "z \<noteq> []"
  shows "from_utf8 (utf8_encode s @ r) = Inl \<lparr>valid_up_to = length (utf8_encode s), error_len = None\<rparr>"
  using from_utf8_loop_encoded [of s 0 "[]" r] from_utf8_loop_partial [of c r z] assms
  by (simp add: from_utf8_def)

text \<open>A beginning of the encoding of a text is that of some characters and a part of the next one.\<close>

lemma utf8_prefix_cases:
  assumes "utf8_encode u = x @ y"
  obtains u1 u2 where "u = u1 @ u2" "x = utf8_encode u1" "y = utf8_encode u2"
  | u1 c u2 r z where "u = u1 @ c # u2" "x = utf8_encode u1 @ r" "utf8_encode_char c = r @ z"
      "r \<noteq> []" "z \<noteq> []" "y = z @ utf8_encode u2"
proof -
  have "(\<exists>u1 u2. u = u1 @ u2 \<and> x = utf8_encode u1 \<and> y = utf8_encode u2)
    \<or> (\<exists>u1 c u2 r z. u = u1 @ c # u2 \<and> x = utf8_encode u1 @ r \<and> utf8_encode_char c = r @ z
        \<and> r \<noteq> [] \<and> z \<noteq> [] \<and> y = z @ utf8_encode u2)"
    using assms
  proof (induction u arbitrary: x)
    case Nil
    then show ?case by simp
  next
    case (Cons c u)
    then have "utf8_encode_char c @ utf8_encode u = x @ y" by simp
    then consider x' where "x = utf8_encode_char c @ x'" "utf8_encode u = x' @ y"
      | z where "utf8_encode_char c = x @ z" "y = z @ utf8_encode u" "z \<noteq> []"
      by (auto simp: append_eq_append_conv2) (metis append_Nil2)+
    then show ?case
    proof cases
      case 1
      from Cons.IH [OF 1(2)] show ?thesis
      proof (elim disjE exE conjE)
        fix u1 u2 assume "u = u1 @ u2" "x' = utf8_encode u1" "y = utf8_encode u2"
        then show ?thesis using 1 by (intro disjI1 exI [of _ "c # u1"] exI [of _ u2]) simp
      next
        fix u1 d u2 r z
        assume "u = u1 @ d # u2" "x' = utf8_encode u1 @ r" "utf8_encode_char d = r @ z" "r \<noteq> []" "z \<noteq> []"
          "y = z @ utf8_encode u2"
        then show ?thesis
          using 1 by (intro disjI2 exI [of _ "c # u1"] exI [of _ d] exI [of _ u2] exI [of _ r] exI [of _ z]) simp
      qed
    next
      case 2
      show ?thesis
      proof (cases "x = []")
        case True
        then show ?thesis using 2 by (intro disjI1 exI [of _ "[]"] exI [of _ "c # u"]) simp
      next
        case False
        then show ?thesis
          using 2 by (intro disjI2 exI [of _ "[]"] exI [of _ c] exI [of _ u] exI [of _ x] exI [of _ z]) simp
      qed
    qed
  qed
  then show ?thesis using that by blast
qed

section \<open>Streams of bytes\<close>

fun push_all_bytes ::
  "('p \<Rightarrow> rstr \<Rightarrow> ('p \<times> 'x stream_chunk) option) \<Rightarrow> 'p utf8_parser \<Rightarrow> byte list list
     \<Rightarrow> ('p utf8_parser \<times> (utf8_stream_error + 'x stream_chunk)) option" where
  "push_all_bytes push p [] = Some (p, Inr empty_chunk)"
| "push_all_bytes push p (b # bs) =
     (case push_bytes push p b of
        None \<Rightarrow> None
      | Some (p, Inl e) \<Rightarrow> Some (p, Inl e)
      | Some (p, Inr out) \<Rightarrow>
          map_option (\<lambda>(q, r). (q, case r of Inl e \<Rightarrow> Inl e | Inr out' \<Rightarrow> Inr (chunk_append out out')))
            (push_all_bytes push p bs))"

text \<open>
  The bytes held back are a proper part of the character they begin, or none; together with the
  bytes to come they are the encoding of the text to come.
\<close>

definition holds_back :: "'p utf8_parser \<Rightarrow> byte list \<Rightarrow> rstr \<Rightarrow> bool" where
  "holds_back p rest u \<longleftrightarrow> list_all is_scalar u \<and> pending_utf8 p @ rest = utf8_encode u
     \<and> (pending_utf8 p \<noteq> [] \<longrightarrow> length (pending_utf8 p) < length (utf8_encode u))"

lemma push_bytes_boundary:
  assumes "list_all is_scalar u" "pending_utf8 p @ b = utf8_encode u"
  shows "push_bytes push p b = push_inner push p u []"
  using assms by (simp add: push_bytes_def Let_def from_utf8_encoded)

lemma push_bytes_partial:
  assumes "list_all is_scalar (u @ [c])" "pending_utf8 p @ b = utf8_encode u @ r"
    and "utf8_encode_char c = r @ z" "r \<noteq> []" "z \<noteq> []"
  shows "push_bytes push p b =
    (if u = [] then Some (p\<lparr>pending_utf8 := r\<rparr>, Inr empty_chunk) else push_inner push p u r)"
proof -
  have "utf8_encode u = [] \<longleftrightarrow> u = []" by (cases u) simp_all
  then show ?thesis
    using assms from_utf8_partial [OF assms(1,4,3,5)]
    by (auto simp: push_bytes_def Let_def from_utf8_encoded)
qed

context stream_text_parser
begin

lemma push_bytes_step:
  assumes "ok (inner p)" "holds_back p (b @ rest) u"
  shows "\<exists>q c u1 u2. push_bytes push p b = Some (q, Inr c) \<and> u = u1 @ u2 \<and> holds_back q rest u2
    \<and> push (inner p) u1 = Some (inner q, c) \<and> ok (inner q)"
proof -
  have u: "list_all is_scalar u" and "utf8_encode u = (pending_utf8 p @ b) @ rest"
    using assms(2) by (simp_all add: holds_back_def)
  from this(2) show ?thesis
  proof (cases rule: utf8_prefix_cases)
    case (1 u1 u2)
    obtain q c where "push (inner p) u1 = Some (q, c)" "ok q" using push_total [OF assms(1)] by blast
    then show ?thesis
      using 1 u push_bytes_boundary [of u1 p b push]
      by (intro exI [of _ "\<lparr>inner = q, pending_utf8 = []\<rparr>"] exI [of _ c] exI [of _ u1] exI [of _ u2])
        (simp add: holds_back_def push_inner_def)
  next
    case (2 u1 d u2 r z)
    obtain q c where q: "push (inner p) u1 = Some (q, c)" "ok q" using push_total [OF assms(1)] by blast
    have "q = inner p \<and> c = empty_chunk" if "u1 = []" using q(1) push_Nil [OF assms(1)] that by simp
    then have "push_bytes push p b = Some (\<lparr>inner = q, pending_utf8 = r\<rparr>, Inr c)"
      using push_bytes_partial [of u1 d p b r z push] 2 u q(1) by (cases p) (auto simp: push_inner_def)
    then show ?thesis
      using 2 u q
      by (intro exI [of _ "\<lparr>inner = q, pending_utf8 = r\<rparr>"] exI [of _ c] exI [of _ u1] exI [of _ "d # u2"])
        (simp add: holds_back_def)
  qed
qed

lemma push_all_bytes_follows:
  "ok (inner p) \<Longrightarrow> holds_back p (concat bs) u \<Longrightarrow>
   \<exists>q c c'. push_all_bytes push p bs = Some (\<lparr>inner = q, pending_utf8 = []\<rparr>, Inr c)
     \<and> push (inner p) u = Some (q, c') \<and> view c = view c' \<and> ok q"
proof (induction bs arbitrary: p u)
  case Nil
  then have "u = []" "pending_utf8 p = []" by (auto simp: holds_back_def) (metis neq_Nil_conv utf8_encode_simps(2) append_is_Nil_conv utf8_encode_char_nonempty)
  then show ?case using Nil.prems(1) push_Nil by (cases p) simp
next
  case (Cons b bs)
  obtain q c u1 u2 where 1: "push_bytes push p b = Some (q, Inr c)" "u = u1 @ u2"
      "holds_back q (concat bs) u2" "push (inner p) u1 = Some (inner q, c)" "ok (inner q)"
    using push_bytes_step [OF Cons.prems(1), of b "concat bs" u] Cons.prems(2) by auto
  obtain r d d' where 2: "push_all_bytes push q bs = Some (\<lparr>inner = r, pending_utf8 = []\<rparr>, Inr d)"
      "push (inner q) u2 = Some (r, d')" "view d = view d'" "ok r"
    using Cons.IH [OF 1(5,3)] by blast
  obtain e where "push (inner p) (u1 @ u2) = Some (r, e)" "view e = view (chunk_append c d')"
    using push_append [OF Cons.prems(1) 1(4) 2(2)] by blast
  then show ?case using 1 2 view_append [of c c d d'] by simp
qed

end

section \<open>Properties\<close>

text \<open>
  C32. When the bytes pushed are not valid UTF-8, the push fails and leaves the wrapper and the wrapped
  parser as they were, so that none of the pushed bytes is seen; the same holds for finishing.
\<close>

theorem utf8_errors_roll_back:
  assumes "push_bytes push p chunk = Some (q, Inl e) \<or> finish_bytes push fin p = Some (q, Inl e)"
  shows "q = p"
  using assms
  by (cases p)
    (auto simp: push_bytes_def finish_bytes_def push_inner_def Let_def
      split: sum.splits option.splits if_splits prod.splits)

theorem utf8_errors_roll_back_witness:
  "\<exists>e. push_bytes citation_push_str \<lparr>inner = the new_citation_parser, pending_utf8 = [195]\<rparr> [65, 66]
     = Some (\<lparr>inner = the new_citation_parser, pending_utf8 = [195]\<rparr>, Inl e)"
proof -
  let ?p = "\<lparr>inner = the new_citation_parser, pending_utf8 = [195]\<rparr>"
  obtain q e where "push_bytes citation_push_str ?p [65, 66] = Some (q, Inl e)"
    by (simp add: push_bytes_def from_utf8_def from_utf8_loop.simps decode_char_def decode_two_def
        is_continuation_def)
  then show ?thesis
    using utf8_errors_roll_back [of citation_push_str ?p "[65, 66]" q e citation_finish] by auto
qed

text \<open>
  C29. Feeding the UTF-8 encoding of a text to the wrapped citation parser, cut into pieces at any byte,
  never fails, and after finishing it has shown and extracted exactly what the text means.
\<close>

theorem utf8_citations_streamed:
  assumes "list_all is_scalar t" "concat pieces = utf8_encode t"
  shows "\<exists>p q r c d. new_citation_parser = Some p
    \<and> push_all_bytes citation_push_str (new_utf8_parser p) pieces = Some (q, Inr c)
    \<and> finish_bytes citation_push_str citation_finish q = Some (r, Inr d)
    \<and> chunk_append c d = citation_reference t"
proof -
  obtain p q0 c0 where p: "new_citation_parser = Some p" "push_all citation_push_str p [t] = Some (q0, c0)"
      "chunk_append c0 (snd (citation_finish q0)) = citation_reference (concat [t])"
    using citation_pieces by blast
  have "settled p" using new_citation_settled p(1) by (metis option.inject)
  moreover have "holds_back (new_utf8_parser p) (concat pieces) t"
    using assms by (simp add: holds_back_def new_utf8_parser_def)
  ultimately obtain q c where q: "push_all_bytes citation_push_str (new_utf8_parser p) pieces
        = Some (\<lparr>inner = q, pending_utf8 = []\<rparr>, Inr c)" "citation_push_str p t = Some (q, c)"
    using citation.push_all_bytes_follows [of "new_utf8_parser p" pieces t] by (auto simp: new_utf8_parser_def)
  then have "q0 = q" "c0 = c" using p(2) by simp_all
  moreover have "finish_bytes citation_push_str citation_finish \<lparr>inner = q, pending_utf8 = []\<rparr>
      = Some (\<lparr>inner = fst (citation_finish q), pending_utf8 = []\<rparr>, Inr (snd (citation_finish q)))"
    by (simp add: finish_bytes_def case_prod_beta)
  moreover have "chunk_append c0 (snd (citation_finish q0)) = citation_reference t" using p(3) by simp
  ultimately show ?thesis using p(1) q(1) by blast
qed

theorem utf8_citations_streamed_witness:
  "\<exists>p q r c d. new_citation_parser = Some p
    \<and> push_all_bytes citation_push_str (new_utf8_parser p) [[226], [130, 172, 33]] = Some (q, Inr c)
    \<and> finish_bytes citation_push_str citation_finish q = Some (r, Inr d)
    \<and> chunk_append c d = citation_reference [8364, 33]"
  by (rule utf8_citations_streamed) (simp_all add: is_scalar_def utf8_encode_char_def)

end
