(* ===== verification/Prompt_History.thy ===== *)
theory Prompt_History
  imports Output_Truncation
begin

text \<open>
  The history as it is sent to the model. \<open>core/src/context_manager/normalize.rs\<close> gives every
  tool call an output, removes the outputs that have no call and replaces the media the model does
  not support; \<open>core/src/context_manager/history.rs\<close> composes these passes for a prompt and drops
  the oldest item together with its counterpart. The items are those of \<open>protocol/src/models.rs\<close>,
  with every field; JSON values and records of executed tool calls, which nothing here looks into,
  are of the type \<open>'j\<close>.

  The identifiers of synthetic outputs are version 5 UUIDs of a third-party library: \<open>new_v5\<close> maps
  a name to the text of its UUID in the fixed namespace. An inconsistency of the history is an
  assertion that panics in a debug build and is logged in a release build; \<open>debug\<close> tells which.
\<close>

section \<open>Response items\<close>

datatype message_phase = Commentary | FinalAnswer

datatype content_entry =
    ContentInputText rstr
  | ContentInputImage rstr "image_detail option"
  | ContentInputAudio rstr
  | ContentOutputText rstr

datatype agent_content = AgentInputText rstr | AgentEncryptedContent rstr

datatype reasoning_summary = SummaryText rstr

datatype reasoning_content = ReasoningText rstr | ReasoningPlainText rstr

datatype reasoning_effort =
    EffortNone | EffortMinimal | EffortLow | EffortMedium | EffortHigh | EffortXHigh | EffortMax
  | EffortUltra | EffortPersistent | EffortCustom rstr

datatype local_shell_status = ShellCompleted | ShellInProgress | ShellIncomplete

record local_shell_action =
  shell_command :: "rstr list"
  shell_timeout_ms :: "nat option"
  shell_working_directory :: "rstr option"
  shell_env :: "(rstr \<times> rstr) list option"
  shell_user :: "rstr option"

datatype web_search_action =
    WebSearch "rstr option" "rstr list option"
  | WebOpenPage "rstr option"
  | WebFindInPage "rstr option" "rstr option"
  | WebOther

record 'j message_metadata =
  meta_turn_id :: "rstr option"
  meta_create_time :: "'j option"
  content_item_kinds :: "rstr list option"
  meta_cell_id :: "rstr option"
  meta_executed_tool_calls :: "'j list option"
  meta_tool_calls_complete :: "bool option"

definition default_metadata :: "'j message_metadata" where
  "default_metadata =
     \<lparr>meta_turn_id = None, meta_create_time = None, content_item_kinds = None,
      meta_cell_id = None, meta_executed_tool_calls = None, meta_tool_calls_complete = None\<rparr>"

datatype 'j response_item =
    AdditionalTools (item_id: "rstr option") rstr "'j list"
  | Message (item_id: "rstr option") rstr "content_entry list" "message_phase option"
      "'j message_metadata option"
  | AgentMessage (item_id: "rstr option") rstr rstr "agent_content list"
      "'j message_metadata option"
  | Reasoning (item_id: "rstr option") "reasoning_summary list" "reasoning_content list option"
      "rstr option" "'j message_metadata option"
  | LocalShellCall (item_id: "rstr option") "rstr option" local_shell_status local_shell_action
      "'j message_metadata option"
  | FunctionCall (item_id: "rstr option") rstr "rstr option" rstr "rstr list option" rstr
      "'j message_metadata option"
  | ToolSearchCall (item_id: "rstr option") "rstr option" "rstr option" rstr 'j
      "'j message_metadata option"
  | FunctionCallOutput (item_id: "rstr option") "rstr option" "rstr option" "rstr option"
      output_payload "'j message_metadata option"
  | CustomToolCall (item_id: "rstr option") "rstr option" rstr rstr "rstr option" rstr
      "'j message_metadata option"
  | CustomToolCallOutput (item_id: "rstr option") rstr "rstr option" output_payload
      "'j message_metadata option"
  | ToolSearchOutput (item_id: "rstr option") "rstr option" rstr rstr "'j list"
      "'j message_metadata option"
  | WebSearchCall (item_id: "rstr option") "rstr option" "web_search_action option"
      "'j message_metadata option"
  | ImageGenerationCall (item_id: "rstr option") rstr "rstr option" rstr
      "'j message_metadata option"
  | Compaction (item_id: "rstr option") rstr "'j message_metadata option"
  | ConfigurationUpdate reasoning_effort
  | CompactionTrigger
  | ContextCompaction (item_id: "rstr option") "rstr option" "'j message_metadata option"
  | OtherItem

record harness_metadata =
  client_authored :: bool
  fallback_token_limit_override :: "nat option"
  harness_authored_configuration :: bool
  compaction_model_hash :: "rstr option"
  user_input_order :: "nat option"

record 'j envelope =
  envelope_item :: "'j response_item"
  envelope_metadata :: "harness_metadata option"

definition new_envelope :: "'j response_item \<Rightarrow> 'j envelope" where
  "new_envelope item = \<lparr>envelope_item = item, envelope_metadata = None\<rparr>"

definition payload_from_text :: "rstr \<Rightarrow> output_payload" where
  "payload_from_text content = \<lparr>payload_body = BodyText content, payload_success = None\<rparr>"

section \<open>Outputs for the calls that have none\<close>

datatype history_panic = Reported rstr | IndexOutOfBounds

definition error_or_panic :: "bool \<Rightarrow> rstr \<Rightarrow> history_panic + unit" where
  "error_or_panic debug message = (if debug then Inl (Reported message) else Inr ())"

record tool_ids =
  function_ids :: "rstr set"
  tool_search_ids :: "rstr set"
  custom_tool_ids :: "rstr set"

definition no_tool_ids :: tool_ids where
  "no_tool_ids = \<lparr>function_ids = {}, tool_search_ids = {}, custom_tool_ids = {}\<rparr>"

fun add_output_id :: "tool_ids \<Rightarrow> 'j response_item \<Rightarrow> tool_ids" where
  "add_output_id ids (FunctionCallOutput _ (Some call_id) _ _ _ _) =
     ids\<lparr>function_ids := insert call_id (function_ids ids)\<rparr>"
| "add_output_id ids (ToolSearchOutput _ (Some call_id) _ _ _ _) =
     ids\<lparr>tool_search_ids := insert call_id (tool_search_ids ids)\<rparr>"
| "add_output_id ids (CustomToolCallOutput _ call_id _ _ _) =
     ids\<lparr>custom_tool_ids := insert call_id (custom_tool_ids ids)\<rparr>"
| "add_output_id ids _ = ids"

definition output_ids :: "'j envelope list \<Rightarrow> tool_ids" where
  "output_ids items = foldl (\<lambda>ids e. add_output_id ids (envelope_item e)) no_tool_ids items"

definition synthetic_output_id :: "(rstr \<Rightarrow> rstr) \<Rightarrow> rstr \<Rightarrow> rstr option \<Rightarrow> rstr option" where
  "synthetic_output_id new_v5 id_prefix source =
     (case source of
        None \<Rightarrow> None
      | Some source_id \<Rightarrow>
          if source_id = [] then None
          else Some (id_prefix @ lit ''_'' @ new_v5 (id_prefix @ lit '':'' @ source_id)))"

definition aborted_function_output ::
  "(rstr \<Rightarrow> rstr) \<Rightarrow> rstr option \<Rightarrow> rstr \<Rightarrow> 'j response_item" where
  "aborted_function_output new_v5 ident call_id =
     FunctionCallOutput (synthetic_output_id new_v5 (lit ''fco'') ident) (Some call_id) None None
       (payload_from_text (lit ''aborted'')) None"

fun missing_output ::
  "(rstr \<Rightarrow> rstr) \<Rightarrow> bool \<Rightarrow> tool_ids \<Rightarrow> 'j response_item \<Rightarrow> history_panic + 'j response_item option" where
  "missing_output new_v5 debug ids (FunctionCall ident _ _ _ _ call_id _) =
     (if call_id \<notin> function_ids ids
      then Inr (Some (aborted_function_output new_v5 ident call_id)) else Inr None)"
| "missing_output new_v5 debug ids (ToolSearchCall ident (Some call_id) _ _ _ _) =
     (if call_id \<notin> tool_search_ids ids
      then Inr (Some (ToolSearchOutput (synthetic_output_id new_v5 (lit ''tso'') ident) (Some call_id)
                        (lit ''completed'') (lit ''client'') [] None))
      else Inr None)"
| "missing_output new_v5 debug ids (CustomToolCall ident _ call_id _ _ _ _) =
     (if call_id \<notin> custom_tool_ids ids
      then res_bind (error_or_panic debug
               (lit ''Custom tool call output is missing for call id: '' @ call_id))
             (\<lambda>_. Inr (Some (CustomToolCallOutput (synthetic_output_id new_v5 (lit ''ctco'') ident)
                                call_id None (payload_from_text (lit ''aborted'')) None)))
      else Inr None)"
| "missing_output new_v5 debug ids (LocalShellCall ident (Some call_id) _ _ _) =
     (if call_id \<notin> function_ids ids
      then res_bind (error_or_panic debug
               (lit ''Local shell call output is missing for call id: '' @ call_id))
             (\<lambda>_. Inr (Some (aborted_function_output new_v5 ident call_id)))
      else Inr None)"
| "missing_output new_v5 debug ids _ = Inr None"

fun missing_outputs ::
  "(rstr \<Rightarrow> rstr) \<Rightarrow> bool \<Rightarrow> tool_ids \<Rightarrow> nat \<Rightarrow> 'j envelope list
   \<Rightarrow> history_panic + (nat \<times> 'j envelope) list" where
  "missing_outputs new_v5 debug ids idx [] = Inr []"
| "missing_outputs new_v5 debug ids idx (e # es) =
     res_bind (missing_output new_v5 debug ids (envelope_item e)) (\<lambda>found.
     res_bind (missing_outputs new_v5 debug ids (Suc idx) es) (\<lambda>rest.
       Inr (case found of None \<Rightarrow> rest | Some item \<Rightarrow> (idx, new_envelope item) # rest)))"

text \<open>\<open>Vec::insert\<close> panics for an index past the vector.\<close>

definition vec_insert :: "nat \<Rightarrow> 'a \<Rightarrow> 'a list \<Rightarrow> history_panic + 'a list" where
  "vec_insert i x xs =
     (if i \<le> length xs then Inr (take i xs @ x # drop i xs) else Inl IndexOutOfBounds)"

definition insert_outputs ::
  "(nat \<times> 'a) list \<Rightarrow> 'a list \<Rightarrow> history_panic + 'a list" where
  "insert_outputs missing items =
     foldl (\<lambda>acc (idx, out). res_bind acc (vec_insert (idx + 1) out)) (Inr items) (rev missing)"

definition ensure_call_outputs_present ::
  "(rstr \<Rightarrow> rstr) \<Rightarrow> bool \<Rightarrow> 'j envelope list \<Rightarrow> history_panic + 'j envelope list" where
  "ensure_call_outputs_present new_v5 debug items =
     res_bind (missing_outputs new_v5 debug (output_ids items) 0 items) (\<lambda>missing.
       insert_outputs missing items)"

section \<open>Outputs without a call\<close>

fun add_call_id :: "tool_ids \<Rightarrow> 'j response_item \<Rightarrow> tool_ids" where
  "add_call_id ids (FunctionCall _ _ _ _ _ call_id _) =
     ids\<lparr>function_ids := insert call_id (function_ids ids)\<rparr>"
| "add_call_id ids (LocalShellCall _ (Some call_id) _ _ _) =
     ids\<lparr>function_ids := insert call_id (function_ids ids)\<rparr>"
| "add_call_id ids (ToolSearchCall _ (Some call_id) _ _ _ _) =
     ids\<lparr>tool_search_ids := insert call_id (tool_search_ids ids)\<rparr>"
| "add_call_id ids (CustomToolCall _ _ call_id _ _ _ _) =
     ids\<lparr>custom_tool_ids := insert call_id (custom_tool_ids ids)\<rparr>"
| "add_call_id ids _ = ids"

definition call_ids :: "'j envelope list \<Rightarrow> tool_ids" where
  "call_ids items = foldl (\<lambda>ids e. add_call_id ids (envelope_item e)) no_tool_ids items"

fun orphan_message :: "tool_ids \<Rightarrow> 'j response_item \<Rightarrow> rstr option" where
  "orphan_message ids (FunctionCallOutput _ (Some call_id) _ _ _ _) =
     (if call_id \<notin> function_ids ids
      then Some (lit ''Orphan function call output for call id: '' @ call_id) else None)"
| "orphan_message ids (CustomToolCallOutput _ call_id _ _ _) =
     (if call_id \<notin> custom_tool_ids ids
      then Some (lit ''Orphan custom tool call output for call id: '' @ call_id) else None)"
| "orphan_message ids (ToolSearchOutput _ (Some call_id) _ execution _ _) =
     (if execution \<noteq> lit ''server'' \<and> call_id \<notin> tool_search_ids ids
      then Some (lit ''Orphan tool search output for call id: '' @ call_id) else None)"
| "orphan_message ids _ = None"

fun find_orphans :: "bool \<Rightarrow> tool_ids \<Rightarrow> nat \<Rightarrow> 'j envelope list \<Rightarrow> history_panic + nat list" where
  "find_orphans debug ids position [] = Inr []"
| "find_orphans debug ids position (e # es) =
     (case orphan_message ids (envelope_item e) of
        None \<Rightarrow> find_orphans debug ids (Suc position) es
      | Some message \<Rightarrow>
          res_bind (error_or_panic debug message) (\<lambda>_.
          res_bind (find_orphans debug ids (Suc position) es) (\<lambda>rest. Inr (position # rest))))"

fun retain_positions :: "nat list \<Rightarrow> nat \<Rightarrow> 'a list \<Rightarrow> 'a list" where
  "retain_positions orphans position [] = []"
| "retain_positions orphans position (x # xs) =
     (case orphans of
        p # rest \<Rightarrow>
          if p = position then retain_positions rest (Suc position) xs
          else x # retain_positions orphans (Suc position) xs
      | [] \<Rightarrow> x # retain_positions [] (Suc position) xs)"

definition remove_orphan_outputs ::
  "bool \<Rightarrow> 'j envelope list \<Rightarrow> history_panic + 'j envelope list" where
  "remove_orphan_outputs debug items =
     res_bind (find_orphans debug (call_ids items) 0 items) (\<lambda>orphans.
       Inr (if orphans \<noteq> [] then retain_positions orphans 0 items else items))"

section \<open>Removing the counterpart of an item\<close>

fun vec_position :: "('a \<Rightarrow> bool) \<Rightarrow> 'a list \<Rightarrow> nat option" where
  "vec_position P [] = None"
| "vec_position P (x # xs) = (if P x then Some 0 else map_option Suc (vec_position P xs))"

text \<open>\<open>Vec::remove\<close> is called with an index that was found in the vector.\<close>

definition remove_at :: "nat \<Rightarrow> 'a list \<Rightarrow> 'a list" where
  "remove_at i xs = take i xs @ drop (Suc i) xs"

definition remove_first_matching ::
  "('j response_item \<Rightarrow> bool) \<Rightarrow> 'j envelope list \<Rightarrow> 'j envelope list" where
  "remove_first_matching predicate items =
     (case vec_position (\<lambda>e. predicate (envelope_item e)) items of
        None \<Rightarrow> items | Some pos \<Rightarrow> remove_at pos items)"

fun is_function_output_of :: "rstr \<Rightarrow> 'j response_item \<Rightarrow> bool" where
  "is_function_output_of call_id (FunctionCallOutput _ (Some existing) _ _ _ _) =
     (existing = call_id)"
| "is_function_output_of call_id _ = False"

fun is_function_call_of :: "rstr \<Rightarrow> 'j response_item \<Rightarrow> bool" where
  "is_function_call_of call_id (FunctionCall _ _ _ _ _ existing _) = (existing = call_id)"
| "is_function_call_of call_id _ = False"

fun is_local_shell_call_of :: "rstr \<Rightarrow> 'j response_item \<Rightarrow> bool" where
  "is_local_shell_call_of call_id (LocalShellCall _ (Some existing) _ _ _) = (existing = call_id)"
| "is_local_shell_call_of call_id _ = False"

fun is_tool_search_output_of :: "rstr \<Rightarrow> 'j response_item \<Rightarrow> bool" where
  "is_tool_search_output_of call_id (ToolSearchOutput _ (Some existing) _ _ _ _) =
     (existing = call_id)"
| "is_tool_search_output_of call_id _ = False"

fun is_tool_search_call_of :: "rstr \<Rightarrow> 'j response_item \<Rightarrow> bool" where
  "is_tool_search_call_of call_id (ToolSearchCall _ (Some existing) _ _ _ _) =
     (existing = call_id)"
| "is_tool_search_call_of call_id _ = False"

fun is_custom_output_of :: "rstr \<Rightarrow> 'j response_item \<Rightarrow> bool" where
  "is_custom_output_of call_id (CustomToolCallOutput _ existing _ _ _) = (existing = call_id)"
| "is_custom_output_of call_id _ = False"

fun is_custom_call_of :: "rstr \<Rightarrow> 'j response_item \<Rightarrow> bool" where
  "is_custom_call_of call_id (CustomToolCall _ _ existing _ _ _ _) = (existing = call_id)"
| "is_custom_call_of call_id _ = False"

fun remove_corresponding_for ::
  "'j response_item \<Rightarrow> 'j envelope list \<Rightarrow> 'j envelope list" where
  "remove_corresponding_for (FunctionCall _ _ _ _ _ call_id _) items =
     remove_first_matching (is_function_output_of call_id) items"
| "remove_corresponding_for (FunctionCallOutput _ (Some call_id) _ _ _ _) items =
     (case vec_position (\<lambda>e. is_function_call_of call_id (envelope_item e)) items of
        Some pos \<Rightarrow> remove_at pos items
      | None \<Rightarrow>
         (case vec_position (\<lambda>e. is_local_shell_call_of call_id (envelope_item e)) items of
            Some pos \<Rightarrow> remove_at pos items
          | None \<Rightarrow> items))"
| "remove_corresponding_for (ToolSearchCall _ (Some call_id) _ _ _ _) items =
     remove_first_matching (is_tool_search_output_of call_id) items"
| "remove_corresponding_for (ToolSearchOutput _ (Some call_id) _ _ _ _) items =
     remove_first_matching (is_tool_search_call_of call_id) items"
| "remove_corresponding_for (CustomToolCall _ _ call_id _ _ _ _) items =
     remove_first_matching (is_custom_output_of call_id) items"
| "remove_corresponding_for (CustomToolCallOutput _ call_id _ _ _) items =
     remove_first_matching (is_custom_call_of call_id) items"
| "remove_corresponding_for (LocalShellCall _ (Some call_id) _ _ _) items =
     remove_first_matching (is_function_output_of call_id) items"
| "remove_corresponding_for _ items = items"

section \<open>Media the model does not support\<close>

datatype input_modality = TextModality | ImageModality | AudioModality

record unsupported_media =
  media_text :: rstr
  media_content_kind :: rstr

definition UNSUPPORTED_IMAGE :: unsupported_media where
  "UNSUPPORTED_IMAGE =
     \<lparr>media_text = lit ''image content omitted because you do not support image input'',
      media_content_kind = lit ''images.unsupported''\<rparr>"

definition UNSUPPORTED_AUDIO :: unsupported_media where
  "UNSUPPORTED_AUDIO =
     \<lparr>media_text = lit ''audio content omitted because you do not support audio input'',
      media_content_kind = lit ''audio.unsupported''\<rparr>"

text \<open>
  Content paired with its classification. The markers of an unsupported medium are empty, so its
  rendering is its text.
\<close>

type_synonym annotated_content = "content_entry \<times> rstr"

definition render_media :: "unsupported_media \<Rightarrow> annotated_content" where
  "render_media media = (ContentInputText (media_text media), media_content_kind media)"

definition annotate :: "content_entry list \<Rightarrow> rstr list \<Rightarrow> annotated_content list" where
  "annotate content kinds =
     zip content (kinds @ replicate (length content - length kinds) (lit ''unknown''))"

text \<open>
  Taking the annotated content leaves a message without content and classifications; the first
  component of the result is the item that is left.
\<close>

fun to_annotated_content ::
  "'j response_item \<Rightarrow> 'j response_item \<times> annotated_content list option" where
  "to_annotated_content (Message ident role content phase metadata) =
     (let kinds = (case metadata of
                     None \<Rightarrow> []
                   | Some m \<Rightarrow> (case content_item_kinds m of None \<Rightarrow> [] | Some kinds \<Rightarrow> kinds))
      in (Message ident role [] phase (map_option (content_item_kinds_update (\<lambda>_. None)) metadata),
          Some (annotate content kinds)))"
| "to_annotated_content item = (item, None)"

fun set_annotated_content ::
  "'j response_item \<Rightarrow> annotated_content list \<Rightarrow> 'j response_item \<times> unit option" where
  "set_annotated_content (Message ident role _ phase metadata) annotated =
     (let m = (case metadata of None \<Rightarrow> default_metadata | Some m \<Rightarrow> m)
      in (Message ident role (map fst annotated) phase
            (Some (m\<lparr>content_item_kinds := Some (map snd annotated)\<rparr>)), Some ()))"
| "set_annotated_content item annotated = (item, None)"

fun is_message_image :: "content_entry \<Rightarrow> bool" where
  "is_message_image (ContentInputImage _ _) = True"
| "is_message_image _ = False"

fun is_message_audio :: "content_entry \<Rightarrow> bool" where
  "is_message_audio (ContentInputAudio _) = True"
| "is_message_audio _ = False"

fun is_output_image :: "content_item \<Rightarrow> bool" where
  "is_output_image (InputImage _ _) = True"
| "is_output_image _ = False"

fun is_output_audio :: "content_item \<Rightarrow> bool" where
  "is_output_audio (InputAudio _) = True"
| "is_output_audio _ = False"

definition strip_message ::
  "(content_entry \<Rightarrow> bool) \<Rightarrow> unsupported_media \<Rightarrow> 'j response_item \<Rightarrow> 'j response_item" where
  "strip_message unsupported media item =
     (case to_annotated_content item of
        (left, None) \<Rightarrow> left
      | (left, Some content) \<Rightarrow>
          fst (set_annotated_content left
                 (map (\<lambda>c. if unsupported (fst c) then render_media media else c) content)))"

definition strip_payload ::
  "(content_item \<Rightarrow> bool) \<Rightarrow> unsupported_media \<Rightarrow> output_payload \<Rightarrow> output_payload" where
  "strip_payload unsupported media output =
     (case payload_body output of
        BodyText _ \<Rightarrow> output
      | BodyItems items \<Rightarrow>
          output\<lparr>payload_body :=
            BodyItems (map (\<lambda>i. if unsupported i then InputText (media_text media) else i) items)\<rparr>)"

fun strip_image :: "'j response_item \<Rightarrow> 'j response_item" where
  "strip_image (Message ident role content phase metadata) =
     strip_message is_message_image UNSUPPORTED_IMAGE (Message ident role content phase metadata)"
| "strip_image (FunctionCallOutput ident call_id name namespace output metadata) =
     FunctionCallOutput ident call_id name namespace
       (strip_payload is_output_image UNSUPPORTED_IMAGE output) metadata"
| "strip_image (CustomToolCallOutput ident call_id name output metadata) =
     CustomToolCallOutput ident call_id name
       (strip_payload is_output_image UNSUPPORTED_IMAGE output) metadata"
| "strip_image (ImageGenerationCall ident status revised_prompt result metadata) =
     ImageGenerationCall ident status revised_prompt [] metadata"
| "strip_image item = item"

fun strip_audio :: "'j response_item \<Rightarrow> 'j response_item" where
  "strip_audio (Message ident role content phase metadata) =
     strip_message is_message_audio UNSUPPORTED_AUDIO (Message ident role content phase metadata)"
| "strip_audio (FunctionCallOutput ident call_id name namespace output metadata) =
     FunctionCallOutput ident call_id name namespace
       (strip_payload is_output_audio UNSUPPORTED_AUDIO output) metadata"
| "strip_audio (CustomToolCallOutput ident call_id name output metadata) =
     CustomToolCallOutput ident call_id name
       (strip_payload is_output_audio UNSUPPORTED_AUDIO output) metadata"
| "strip_audio item = item"

definition strip_images_when_unsupported ::
  "input_modality list \<Rightarrow> 'j envelope list \<Rightarrow> 'j envelope list" where
  "strip_images_when_unsupported input_modalities items =
     (if ImageModality \<in> set input_modalities then items
      else map (envelope_item_update strip_image) items)"

definition strip_audio_when_unsupported ::
  "input_modality list \<Rightarrow> 'j envelope list \<Rightarrow> 'j envelope list" where
  "strip_audio_when_unsupported input_modalities items =
     (if AudioModality \<in> set input_modalities then items
      else map (envelope_item_update strip_audio) items)"

section \<open>The history for a prompt\<close>

text \<open>
  Of the manager of the history the items and the baseline of the world state, of the type \<open>'w\<close>,
  are modelled.
\<close>

record ('j, 'w) context_manager =
  history_items :: "'j envelope list"
  world_state_baseline :: "'w option"

definition normalize_history ::
  "(rstr \<Rightarrow> rstr) \<Rightarrow> bool \<Rightarrow> input_modality list \<Rightarrow> 'j envelope list
   \<Rightarrow> history_panic + 'j envelope list" where
  "normalize_history new_v5 debug input_modalities items =
     res_bind (ensure_call_outputs_present new_v5 debug items) (\<lambda>items.
     res_bind (remove_orphan_outputs debug items) (\<lambda>items.
       Inr (strip_audio_when_unsupported input_modalities
              (strip_images_when_unsupported input_modalities items))))"

definition for_prompt_annotated ::
  "(rstr \<Rightarrow> rstr) \<Rightarrow> bool \<Rightarrow> ('j, 'w) context_manager \<Rightarrow> input_modality list
   \<Rightarrow> history_panic + 'j envelope list" where
  "for_prompt_annotated new_v5 debug cm input_modalities =
     normalize_history new_v5 debug input_modalities (history_items cm)"

definition for_prompt ::
  "(rstr \<Rightarrow> rstr) \<Rightarrow> bool \<Rightarrow> ('j, 'w) context_manager \<Rightarrow> input_modality list
   \<Rightarrow> history_panic + 'j response_item list" where
  "for_prompt new_v5 debug cm input_modalities =
     res_bind (for_prompt_annotated new_v5 debug cm input_modalities)
       (\<lambda>items. Inr (map envelope_item items))"

definition remove_first_item :: "('j, 'w) context_manager \<Rightarrow> ('j, 'w) context_manager" where
  "remove_first_item cm =
     (case history_items cm of
        [] \<Rightarrow> cm
      | removed # items \<Rightarrow>
          cm\<lparr>history_items := remove_corresponding_for (envelope_item removed) items,
             world_state_baseline := None\<rparr>)"

section \<open>Calls and outputs that belong together\<close>

text \<open>
  A call and its output name the same tool kind and the same call identifier. A tool search output
  executed by the server needs no call.
\<close>

datatype tool_kind = FunctionTool | SearchTool | CustomTool

fun call_key :: "'j response_item \<Rightarrow> (tool_kind \<times> rstr) option" where
  "call_key (FunctionCall _ _ _ _ _ call_id _) = Some (FunctionTool, call_id)"
| "call_key (LocalShellCall _ (Some call_id) _ _ _) = Some (FunctionTool, call_id)"
| "call_key (ToolSearchCall _ (Some call_id) _ _ _ _) = Some (SearchTool, call_id)"
| "call_key (CustomToolCall _ _ call_id _ _ _ _) = Some (CustomTool, call_id)"
| "call_key _ = None"

fun output_key :: "'j response_item \<Rightarrow> (tool_kind \<times> rstr) option" where
  "output_key (FunctionCallOutput _ (Some call_id) _ _ _ _) = Some (FunctionTool, call_id)"
| "output_key (ToolSearchOutput _ (Some call_id) _ _ _ _) = Some (SearchTool, call_id)"
| "output_key (CustomToolCallOutput _ call_id _ _ _) = Some (CustomTool, call_id)"
| "output_key _ = None"

fun from_server :: "'j response_item \<Rightarrow> bool" where
  "from_server (ToolSearchOutput _ _ _ execution _ _) = (execution = lit ''server'')"
| "from_server _ = False"

definition call_keys :: "'j response_item list \<Rightarrow> (tool_kind \<times> rstr) list" where
  "call_keys items = List.map_filter call_key items"

definition output_keys :: "'j response_item list \<Rightarrow> (tool_kind \<times> rstr) list" where
  "output_keys items = List.map_filter output_key items"

definition paired :: "'j response_item list \<Rightarrow> bool" where
  "paired items \<longleftrightarrow>
     set (call_keys items) \<subseteq> set (output_keys items) \<and>
     set (output_keys (filter (\<lambda>i. \<not> from_server i) items)) \<subseteq> set (call_keys items)"

primrec ids_of :: "tool_kind \<Rightarrow> tool_ids \<Rightarrow> rstr set" where
  "ids_of FunctionTool ids = function_ids ids"
| "ids_of SearchTool ids = tool_search_ids ids"
| "ids_of CustomTool ids = custom_tool_ids ids"

abbreviation in_ids :: "tool_kind \<times> rstr \<Rightarrow> tool_ids \<Rightarrow> bool" where
  "in_ids key ids \<equiv> snd key \<in> ids_of (fst key) ids"

abbreviation items_of :: "'j envelope list \<Rightarrow> 'j response_item list" where
  "items_of es \<equiv> map envelope_item es"

lemma call_keys_simps [simp]:
  "call_keys [] = []"
  "call_keys (i # is) = (case call_key i of None \<Rightarrow> call_keys is | Some k \<Rightarrow> k # call_keys is)"
  "call_keys (is @ js) = call_keys is @ call_keys js"
  by (simp_all add: call_keys_def List.map_filter_def split: option.split)

lemma output_keys_simps [simp]:
  "output_keys [] = []"
  "output_keys (i # is) = (case output_key i of None \<Rightarrow> output_keys is | Some k \<Rightarrow> k # output_keys is)"
  "output_keys (is @ js) = output_keys is @ output_keys js"
  by (simp_all add: output_keys_def List.map_filter_def split: option.split)

lemma in_call_keys_iff: "k \<in> set (call_keys is) \<longleftrightarrow> (\<exists>i\<in>set is. call_key i = Some k)"
  by (induction "is") (auto split: option.splits)

lemma in_output_keys_iff: "k \<in> set (output_keys is) \<longleftrightarrow> (\<exists>i\<in>set is. output_key i = Some k)"
  by (induction "is") (auto split: option.splits)

lemma paired_iff:
  "paired items \<longleftrightarrow>
   (\<forall>i\<in>set items. \<forall>k. call_key i = Some k \<longrightarrow> (\<exists>j\<in>set items. output_key j = Some k)) \<and>
   (\<forall>i\<in>set items. \<forall>k. output_key i = Some k \<and> \<not> from_server i \<longrightarrow>
      (\<exists>j\<in>set items. call_key j = Some k))"
  unfolding paired_def subset_iff in_call_keys_iff in_output_keys_iff by (auto; blast)

lemma add_output_id_key:
  "in_ids k (add_output_id ids i) \<longleftrightarrow> in_ids k ids \<or> output_key i = Some k"
  by (cases k; cases "fst k"; cases "(ids, i)" rule: add_output_id.cases) auto

lemma add_call_id_key:
  "in_ids k (add_call_id ids i) \<longleftrightarrow> in_ids k ids \<or> call_key i = Some k"
  by (cases k; cases "fst k"; cases "(ids, i)" rule: add_call_id.cases) auto

lemma no_tool_ids_key [simp]: "\<not> in_ids k no_tool_ids"
  by (cases k; cases "fst k") (simp_all add: no_tool_ids_def)

lemma output_ids_key: "in_ids k (output_ids es) \<longleftrightarrow> k \<in> set (output_keys (items_of es))"
proof (induction es rule: rev_induct)
  case (snoc e es)
  then show ?case by (auto simp: output_ids_def add_output_id_key split: option.split)
qed (simp add: output_ids_def)

lemma call_ids_key: "in_ids k (call_ids es) \<longleftrightarrow> k \<in> set (call_keys (items_of es))"
proof (induction es rule: rev_induct)
  case (snoc e es)
  then show ?case by (auto simp: call_ids_def add_call_id_key split: option.split)
qed (simp add: call_ids_def)

section \<open>The passes as operations on the whole list\<close>

text \<open>
  In a release build nothing panics: the missing output of an item is determined by its key, and
  the index arithmetic inserts it right after its call.
\<close>

lemma error_or_panic_release [simp]: "error_or_panic False m = Inr ()"
  by (simp add: error_or_panic_def)

definition missing_for :: "(rstr \<Rightarrow> rstr) \<Rightarrow> tool_ids \<Rightarrow> 'j response_item \<Rightarrow> 'j response_item option" where
  "missing_for new_v5 ids i = (case missing_output new_v5 False ids i of Inl _ \<Rightarrow> None | Inr m \<Rightarrow> m)"

lemma missing_output_release: "missing_output new_v5 False ids i = Inr (missing_for new_v5 ids i)"
  unfolding missing_for_def by (cases "(new_v5, False, ids, i)" rule: missing_output.cases) auto

lemma missing_output_debug:
  "missing_output new_v5 debug ids i = Inr (missing_for new_v5 ids i)
   \<or> (\<exists>m. missing_output new_v5 debug ids i = Inl (Reported m))"
  unfolding missing_for_def
  by (cases "(new_v5, debug, ids, i)" rule: missing_output.cases) (auto simp: error_or_panic_def)

lemma missing_for_None:
  "missing_for new_v5 ids i = None \<longleftrightarrow> (case call_key i of None \<Rightarrow> True | Some k \<Rightarrow> in_ids k ids)"
  unfolding missing_for_def
  by (cases "(new_v5, False, ids, i)" rule: missing_output.cases) auto

lemma missing_for_Some:
  "missing_for new_v5 ids i = Some out \<Longrightarrow>
   call_key out = None \<and> output_key out = call_key i \<and> \<not> from_server out"
  unfolding missing_for_def
  by (cases "(new_v5, False, ids, i)" rule: missing_output.cases)
    (auto simp: aborted_function_output_def lit_def split: if_splits)

lemma missing_output_answered:
  "missing_for new_v5 ids i = None \<Longrightarrow> missing_output new_v5 debug ids i = Inr None"
  unfolding missing_for_def
  by (cases "(new_v5, debug, ids, i)" rule: missing_output.cases) (auto split: if_splits)

definition with_output :: "(rstr \<Rightarrow> rstr) \<Rightarrow> tool_ids \<Rightarrow> 'j envelope \<Rightarrow> 'j envelope list" where
  "with_output new_v5 ids e =
     e # (case missing_for new_v5 ids (envelope_item e) of None \<Rightarrow> [] | Some out \<Rightarrow> [new_envelope out])"

lemma insert_outputs_Cons:
  "insert_outputs ((idx, out) # missing) items
   = res_bind (insert_outputs missing items) (vec_insert (idx + 1) out)"
  by (simp add: insert_outputs_def)

lemma insert_missing_outputs:
  assumes "missing_outputs new_v5 debug ids (length pre) es = Inr missing"
  shows "insert_outputs missing (pre @ es) = Inr (pre @ concat (map (with_output new_v5 ids) es))"
  using assms
proof (induction es arbitrary: pre missing)
  case Nil
  then show ?case by (simp add: insert_outputs_def)
next
  case (Cons e es)
  then obtain found rest where
    found: "missing_output new_v5 debug ids (envelope_item e) = Inr found" and
    rest: "missing_outputs new_v5 debug ids (length (pre @ [e])) es = Inr rest" and
    missing: "missing = (case found of None \<Rightarrow> rest | Some item \<Rightarrow> (length pre, new_envelope item) # rest)"
    by (auto simp: res_iffs)
  have "found = missing_for new_v5 ids (envelope_item e)"
    using missing_output_debug [of new_v5 debug ids "envelope_item e"] found by auto
  then show ?case using Cons.IH [OF rest] missing
    by (auto simp: insert_outputs_Cons with_output_def vec_insert_def split: option.split)
qed

lemma missing_outputs_cases:
  "(\<exists>missing. missing_outputs new_v5 debug ids idx es = Inr missing)
   \<or> (\<exists>m. missing_outputs new_v5 debug ids idx es = Inl (Reported m)) \<and> debug"
proof (induction es arbitrary: idx)
  case (Cons e es)
  show ?case
    using Cons.IH [of "Suc idx"] missing_output_debug [of new_v5 debug ids "envelope_item e"]
      missing_output_release [of new_v5 ids "envelope_item e"]
    by (cases debug) (auto simp: res_iffs)
qed simp

definition all_outputs :: "(rstr \<Rightarrow> rstr) \<Rightarrow> 'j envelope list \<Rightarrow> 'j envelope list" where
  "all_outputs new_v5 items = concat (map (with_output new_v5 (output_ids items)) items)"

lemma ensure_call_outputs_present_cases:
  "ensure_call_outputs_present new_v5 debug items = Inr (all_outputs new_v5 items)
   \<or> (\<exists>m. ensure_call_outputs_present new_v5 debug items = Inl (Reported m)) \<and> debug"
  using missing_outputs_cases [of new_v5 debug "output_ids items" 0 items]
    insert_missing_outputs [of new_v5 debug "output_ids items" "[]" items]
  by (auto simp: ensure_call_outputs_present_def all_outputs_def)


lemma find_orphans_bound: "find_orphans debug ids p es = Inr orphans \<Longrightarrow> q \<in> set orphans \<Longrightarrow> p \<le> q"
  by (induction es arbitrary: p orphans) (auto simp: res_iffs split: option.splits, fastforce+)

lemma retain_positions_filter:
  assumes "find_orphans debug ids p es = Inr orphans"
  shows "retain_positions orphans p es
         = filter (\<lambda>e. orphan_message ids (envelope_item e) = None) es"
  using assms
proof (induction es arbitrary: p orphans)
  case (Cons e es)
  show ?case
  proof (cases "orphan_message ids (envelope_item e)")
    case None
    then have rest: "find_orphans debug ids (Suc p) es = Inr orphans" using Cons.prems by simp
    have "p \<notin> set orphans" using find_orphans_bound [OF rest] by fastforce
    then show ?thesis using Cons.IH [OF rest] None by (auto split: list.split)
  next
    case (Some m)
    then show ?thesis using Cons by (auto simp: res_iffs)
  qed
qed simp

lemma find_orphans_Nil: "find_orphans debug ids p es = Inr [] \<Longrightarrow> e \<in> set es \<Longrightarrow> orphan_message ids (envelope_item e) = None"
  by (induction es arbitrary: p) (auto simp: res_iffs split: option.splits)

lemma find_orphans_cases:
  "(\<exists>orphans. find_orphans debug ids p es = Inr orphans)
   \<or> (\<exists>m. find_orphans debug ids p es = Inl (Reported m)) \<and> debug"
proof (induction es arbitrary: p)
  case (Cons e es)
  show ?case using Cons.IH [of "Suc p"]
    by (cases debug) (auto simp: res_iffs error_or_panic_def split: option.split)
qed simp

definition requested :: "'j envelope list \<Rightarrow> 'j envelope \<Rightarrow> bool" where
  "requested items e \<longleftrightarrow> orphan_message (call_ids items) (envelope_item e) = None"

lemma remove_orphan_outputs_cases:
  "remove_orphan_outputs debug items = Inr (filter (requested items) items)
   \<or> (\<exists>m. remove_orphan_outputs debug items = Inl (Reported m)) \<and> debug"
proof (cases "find_orphans debug (call_ids items) 0 items")
  case (Inl m)
  then show ?thesis using find_orphans_cases [of debug "call_ids items" 0 items]
    by (auto simp: remove_orphan_outputs_def)
next
  case (Inr orphans)
  have "filter (requested items) items = items" if "orphans = []"
    using find_orphans_Nil Inr that by (auto simp: requested_def filter_id_conv)
  then show ?thesis using retain_positions_filter [OF Inr]
    by (simp add: remove_orphan_outputs_def Inr requested_def [abs_def])
qed

lemma requested_key:
  "requested items e \<longleftrightarrow>
   (case output_key (envelope_item e) of
      None \<Rightarrow> True
    | Some k \<Rightarrow> from_server (envelope_item e) \<or> k \<in> set (call_keys (items_of items)))"
  unfolding requested_def call_ids_key [symmetric]
  by (cases "(call_ids items, envelope_item e)" rule: orphan_message.cases) auto

section \<open>What the passes achieve\<close>

lemma call_keys_with_output [simp]:
  "call_keys (items_of (with_output new_v5 ids e)) = call_keys [envelope_item e]"
  using missing_for_Some [of new_v5 ids "envelope_item e"]
  by (auto simp: with_output_def new_envelope_def split: option.splits)

lemma call_keys_all_outputs: "call_keys (items_of (all_outputs new_v5 items)) = call_keys (items_of items)"
proof -
  have "call_keys (items_of (concat (map (with_output new_v5 ids) es))) = call_keys (items_of es)" for ids and es :: "'a envelope list"
    by (induction es) (simp_all split: option.split)
  then show ?thesis by (simp add: all_outputs_def)
qed

lemma all_outputs_answered:
  assumes "k \<in> set (call_keys (items_of items))"
  shows "k \<in> set (output_keys (items_of (all_outputs new_v5 items)))"
proof -
  obtain e where e: "e \<in> set items" "call_key (envelope_item e) = Some k"
    using assms by (auto simp: in_call_keys_iff)
  show ?thesis
  proof (cases "missing_for new_v5 (output_ids items) (envelope_item e)")
    case None
    then have "k \<in> set (output_keys (items_of items))"
      using e by (simp add: missing_for_None output_ids_key)
    then obtain e' where "e' \<in> set items" "output_key (envelope_item e') = Some k"
      by (auto simp: in_output_keys_iff)
    then show ?thesis by (force simp: in_output_keys_iff all_outputs_def with_output_def)
  next
    case (Some out)
    then have "output_key out = Some k" using missing_for_Some [OF Some] e by simp
    then show ?thesis using e Some
      by (force simp: in_output_keys_iff all_outputs_def with_output_def new_envelope_def)
  qed
qed

lemma output_key_no_call: "output_key i = Some k \<Longrightarrow> call_key i = None"
  by (cases i rule: output_key.cases) auto

lemma call_keys_requested: "call_keys (items_of (filter (requested items) es)) = call_keys (items_of es)"
proof (induction es)
  case (Cons e es)
  have "call_key (envelope_item e) = None" if "\<not> requested items e"
    using that by (auto simp: requested_key output_key_no_call split: option.splits)
  then show ?case using Cons by (auto split: option.split)
qed simp

lemma paired_filter_requested:
  assumes "set (call_keys (items_of items)) \<subseteq> set (output_keys (items_of items))"
  shows "paired (items_of (filter (requested items) items))"
proof -
  have "k \<in> set (output_keys (items_of (filter (requested items) items)))"
    if called: "k \<in> set (call_keys (items_of items))" for k
  proof -
    obtain e where "e \<in> set items" "output_key (envelope_item e) = Some k"
      using subsetD [OF assms called] by (auto simp: in_output_keys_iff)
    then show ?thesis using called by (force simp: in_output_keys_iff requested_key)
  qed
  then show ?thesis
    by (auto simp: paired_def call_keys_requested in_output_keys_iff requested_key)
qed

lemma requested_all: "paired (items_of items) \<Longrightarrow> filter (requested items) items = items"
  by (auto simp: filter_id_conv requested_key paired_iff in_call_keys_iff split: option.split)

lemma all_outputs_paired: "paired (items_of items) \<Longrightarrow> all_outputs new_v5 items = items"
proof -
  assume paired: "paired (items_of items)"
  have "with_output new_v5 (output_ids items) e = [e]" if "e \<in> set items" for e
  proof -
    have "missing_for new_v5 (output_ids items) (envelope_item e) = None"
      using paired that
      by (auto simp: missing_for_None output_ids_key paired_iff in_output_keys_iff split: option.split)
    then show ?thesis by (simp add: with_output_def)
  qed
  then have "map (with_output new_v5 (output_ids items)) items = map (\<lambda>e. [e]) items" by simp
  then show ?thesis by (simp only: all_outputs_def concat_map_singleton) simp
qed

section \<open>Replacing media\<close>

fun no_images :: "'j response_item \<Rightarrow> bool" where
  "no_images (Message _ _ content _ _) = (\<not> list_ex is_message_image content)"
| "no_images (FunctionCallOutput _ _ _ _ output _) =
     (case payload_body output of BodyText _ \<Rightarrow> True | BodyItems items \<Rightarrow> \<not> list_ex is_output_image items)"
| "no_images (CustomToolCallOutput _ _ _ output _) =
     (case payload_body output of BodyText _ \<Rightarrow> True | BodyItems items \<Rightarrow> \<not> list_ex is_output_image items)"
| "no_images (ImageGenerationCall _ _ _ result _) = (result = [])"
| "no_images _ = True"

fun no_audio :: "'j response_item \<Rightarrow> bool" where
  "no_audio (Message _ _ content _ _) = (\<not> list_ex is_message_audio content)"
| "no_audio (FunctionCallOutput _ _ _ _ output _) =
     (case payload_body output of BodyText _ \<Rightarrow> True | BodyItems items \<Rightarrow> \<not> list_ex is_output_audio items)"
| "no_audio (CustomToolCallOutput _ _ _ output _) =
     (case payload_body output of BodyText _ \<Rightarrow> True | BodyItems items \<Rightarrow> \<not> list_ex is_output_audio items)"
| "no_audio _ = True"

definition media_supported :: "input_modality list \<Rightarrow> 'j response_item \<Rightarrow> bool" where
  "media_supported mods i \<longleftrightarrow>
     (if ImageModality \<in> set mods then True else no_images i) \<and>
     (if AudioModality \<in> set mods then True else no_audio i)"

text \<open>Every entry of a message has a classification.\<close>

fun classified :: "'j response_item \<Rightarrow> bool" where
  "classified (Message _ _ content _ (Some metadata)) =
     (case content_item_kinds metadata of None \<Rightarrow> False | Some kinds \<Rightarrow> length kinds = length content)"
| "classified (Message _ _ _ _ None) = False"
| "classified _ = True"

definition strip_media :: "input_modality list \<Rightarrow> 'j response_item \<Rightarrow> 'j response_item" where
  "strip_media mods i =
     (let i = (if ImageModality \<in> set mods then i else strip_image i)
      in if AudioModality \<in> set mods then i else strip_audio i)"

lemma annotate_simps [simp]:
  "map fst (annotate content kinds) = content"
  "length (annotate content kinds) = length content"
  "length kinds = length content \<Longrightarrow> annotate content kinds = zip content kinds"
  by (simp_all add: annotate_def map_fst_zip_take)

lemma map_fst_replaced:
  "map fst (map (\<lambda>c. if P (fst c) then render_media m else c) xs)
   = map (\<lambda>c. if P c then ContentInputText (media_text m) else c) (map fst xs)"
  by (induction xs) (simp_all add: render_media_def)

lemma strip_message_content:
  "\<exists>metadata'. strip_message P m (Message ident role content phase metadata) =
     Message ident role (map (\<lambda>c. if P c then ContentInputText (media_text m) else c) content) phase
       (Some metadata') \<and>
     (\<exists>kinds. content_item_kinds metadata' = Some kinds \<and> length kinds = length content) \<and>
     meta_turn_id metadata' = Option.bind metadata meta_turn_id"
  by (cases metadata)
    (simp_all add: strip_message_def Let_def map_fst_replaced default_metadata_def del: map_map map_eq_conv)


lemma strip_message_unchanged:
  assumes "\<not> list_ex P content" "classified (Message ident role content phase metadata)"
  shows "strip_message P m (Message ident role content phase metadata) = Message ident role content phase metadata"
proof -
  obtain md kinds where md: "metadata = Some md" and kinds: "content_item_kinds md = Some kinds"
    and len: "length kinds = length content"
    using assms(2) by (cases metadata) (auto split: option.splits)
  have "map (\<lambda>c. if P (fst c) then render_media m else c) (zip content kinds) = zip content kinds"
    using assms(1) by (auto simp: list_ex_iff intro!: map_idI dest: set_zip_leftD)
  then show ?thesis using kinds len by (simp add: strip_message_def md del: map_map)
qed

lemma strip_payload_unchanged:
  "(case payload_body output of BodyText _ \<Rightarrow> True | BodyItems items \<Rightarrow> \<not> list_ex P items) \<Longrightarrow>
   strip_payload P m output = output"
  by (cases "output") (auto simp: strip_payload_def list_ex_iff intro!: map_idI split: output_body.splits)

lemma strip_image_unchanged: "no_images i \<Longrightarrow> classified i \<Longrightarrow> strip_image i = i"
  by (cases i) (simp_all add: strip_message_unchanged strip_payload_unchanged)

lemma strip_audio_unchanged: "no_audio i \<Longrightarrow> classified i \<Longrightarrow> strip_audio i = i"
  by (cases i) (simp_all add: strip_message_unchanged strip_payload_unchanged)

lemma strip_image_achieves: "no_images (strip_image i) \<and> classified (strip_image i)"
proof (cases i)
  case (Message ident role content phase metadata)
  then show ?thesis
    using strip_message_content [of is_message_image UNSUPPORTED_IMAGE ident role content phase metadata]
    by (auto simp: list_ex_iff)
qed (auto simp: strip_payload_def list_ex_iff split: output_body.split)

lemma strip_audio_achieves: "no_audio (strip_audio i) \<and> classified (strip_audio i)"
proof (cases i)
  case (Message ident role content phase metadata)
  then show ?thesis
    using strip_message_content [of is_message_audio UNSUPPORTED_AUDIO ident role content phase metadata]
    by (auto simp: list_ex_iff)
qed (auto simp: strip_payload_def list_ex_iff split: output_body.split)

lemma strip_audio_no_images: "no_images i \<Longrightarrow> no_images (strip_audio i)"
proof (cases i)
  case (Message ident role content phase metadata)
  assume "no_images i"
  then show ?thesis
    using strip_message_content [of is_message_audio UNSUPPORTED_AUDIO ident role content phase metadata] Message
    by (auto simp: list_ex_iff)
qed (auto simp: strip_payload_def list_ex_iff split: output_body.split)

lemma strip_media_supported: "media_supported mods (strip_media mods i)"
  by (simp add: media_supported_def strip_media_def Let_def strip_image_achieves strip_audio_achieves
      strip_audio_no_images)

lemma strip_media_idem: "strip_media mods (strip_media mods i) = strip_media mods i"
  by (simp add: strip_media_def Let_def strip_image_achieves strip_audio_achieves strip_audio_no_images
      strip_image_unchanged strip_audio_unchanged)

lemma strip_message_Message: "\<exists>c md. strip_message P m (Message ident role content phase metadata) = Message ident role c phase md"
  using strip_message_content by blast

lemma strip_keys [simp]:
  "call_key (strip_media mods i) = call_key i"
  "output_key (strip_media mods i) = output_key i"
  "from_server (strip_media mods i) = from_server i"
proof -
  have image: "call_key (strip_image i) = call_key i \<and> output_key (strip_image i) = output_key i
     \<and> from_server (strip_image i) = from_server i" for i :: "'a response_item"
  proof (cases i)
    case (Message ident role content phase metadata)
    then show ?thesis
      using strip_message_Message [of is_message_image UNSUPPORTED_IMAGE ident role content phase metadata] by auto
  next
    case (FunctionCallOutput ident call_id name namespace payload metadata)
    then show ?thesis by (cases call_id) simp_all
  qed simp_all
  have audio: "call_key (strip_audio i) = call_key i \<and> output_key (strip_audio i) = output_key i
     \<and> from_server (strip_audio i) = from_server i" for i :: "'a response_item"
  proof (cases i)
    case (Message ident role content phase metadata)
    then show ?thesis
      using strip_message_Message [of is_message_audio UNSUPPORTED_AUDIO ident role content phase metadata] by auto
  next
    case (FunctionCallOutput ident call_id name namespace payload metadata)
    then show ?thesis by (cases call_id) simp_all
  qed simp_all
  show "call_key (strip_media mods i) = call_key i" "output_key (strip_media mods i) = output_key i"
    "from_server (strip_media mods i) = from_server i"
    using image audio by (simp_all add: strip_media_def)
qed


text \<open>
  The replacement in one pass. An unsupported entry of a message or item of a tool output becomes the
  text that says so, and an unsupported generated image is cleared. Unless everything is supported, each
  entry of a message gets a classification: that of the replacement, the one it had, or \<open>unknown\<close>. Nothing
  else changes.
\<close>

definition unsupported_entry :: "input_modality list \<Rightarrow> content_entry \<Rightarrow> unsupported_media option" where
  "unsupported_entry mods c =
     (if ImageModality \<notin> set mods \<and> is_message_image c then Some UNSUPPORTED_IMAGE
      else if AudioModality \<notin> set mods \<and> is_message_audio c then Some UNSUPPORTED_AUDIO
      else None)"

definition replace_entry :: "input_modality list \<Rightarrow> content_entry \<Rightarrow> content_entry" where
  "replace_entry mods c =
     (case unsupported_entry mods c of None \<Rightarrow> c | Some m \<Rightarrow> ContentInputText (media_text m))"

definition replace_kind :: "input_modality list \<Rightarrow> content_entry \<Rightarrow> rstr \<Rightarrow> rstr" where
  "replace_kind mods c kind =
     (case unsupported_entry mods c of None \<Rightarrow> kind | Some m \<Rightarrow> media_content_kind m)"

definition replace_kinds ::
  "input_modality list \<Rightarrow> content_entry list \<Rightarrow> 'j message_metadata option \<Rightarrow> 'j message_metadata option" where
  "replace_kinds mods content metadata =
     (if ImageModality \<in> set mods \<and> AudioModality \<in> set mods then metadata
      else
        let m = (case metadata of None \<Rightarrow> default_metadata | Some m \<Rightarrow> m);
            kinds = (case content_item_kinds m of None \<Rightarrow> [] | Some kinds \<Rightarrow> kinds)
        in Some (m\<lparr>content_item_kinds :=
             Some (map2 (replace_kind mods) content (kinds @ replicate (length content - length kinds) (lit ''unknown'')))\<rparr>))"

definition replace_output :: "input_modality list \<Rightarrow> content_item \<Rightarrow> content_item" where
  "replace_output mods c =
     (if ImageModality \<notin> set mods \<and> is_output_image c then InputText (media_text UNSUPPORTED_IMAGE)
      else if AudioModality \<notin> set mods \<and> is_output_audio c then InputText (media_text UNSUPPORTED_AUDIO)
      else c)"

definition replace_payload :: "input_modality list \<Rightarrow> output_payload \<Rightarrow> output_payload" where
  "replace_payload mods p =
     (case payload_body p of
        BodyText _ \<Rightarrow> p
      | BodyItems items \<Rightarrow> p\<lparr>payload_body := BodyItems (map (replace_output mods) items)\<rparr>)"

fun replace_media :: "input_modality list \<Rightarrow> 'j response_item \<Rightarrow> 'j response_item" where
  "replace_media mods (Message ident role content phase metadata) =
     Message ident role (map (replace_entry mods) content) phase (replace_kinds mods content metadata)"
| "replace_media mods (FunctionCallOutput ident call_id name namespace p metadata) =
     FunctionCallOutput ident call_id name namespace (replace_payload mods p) metadata"
| "replace_media mods (CustomToolCallOutput ident call_id name p metadata) =
     CustomToolCallOutput ident call_id name (replace_payload mods p) metadata"
| "replace_media mods (ImageGenerationCall ident status revised_prompt result metadata) =
     ImageGenerationCall ident status revised_prompt (if ImageModality \<in> set mods then result else []) metadata"
| "replace_media mods i = i"

lemma replace_payload_strip:
  "replace_payload mods p =
     (let p = (if ImageModality \<in> set mods then p else strip_payload is_output_image UNSUPPORTED_IMAGE p)
      in if AudioModality \<in> set mods then p else strip_payload is_output_audio UNSUPPORTED_AUDIO p)"
  by (cases p) (auto simp: replace_payload_def strip_payload_def replace_output_def Let_def
      intro!: map_idI elim!: is_output_image.elims split: output_body.split)

lemma annotated_replaced:
  "map snd (map (\<lambda>c. if P (fst c) then render_media m else c) xs)
   = map (\<lambda>(c, kind). if P c then media_content_kind m else kind) xs"
  by (induction xs) (auto simp: render_media_def)

definition known_kinds :: "content_entry list \<Rightarrow> 'j message_metadata \<Rightarrow> rstr list" where
  "known_kinds content m =
     (let kinds = (case content_item_kinds m of None \<Rightarrow> [] | Some kinds \<Rightarrow> kinds)
      in take (length content) (kinds @ replicate (length content - length kinds) (lit ''unknown'')))"

lemma known_kinds_length [simp]: "length (known_kinds content m) = length content"
  by (simp add: known_kinds_def Let_def)

lemma known_kinds_known [simp]:
  "length kinds = length content \<Longrightarrow> known_kinds content (m\<lparr>content_item_kinds := Some kinds\<rparr>) = kinds"
  by (simp add: known_kinds_def)

lemma zip_take_length: "zip xs (take (length xs) ys) = zip xs ys"
  by (induction xs ys rule: list_induct2') simp_all

lemma zip_known_kinds:
  "zip content (known_kinds content m) = annotate content (case content_item_kinds m of None \<Rightarrow> [] | Some kinds \<Rightarrow> kinds)"
  by (simp add: known_kinds_def annotate_def Let_def zip_take_length del: take_append)

lemma strip_message_kinds:
  fixes metadata :: "'j message_metadata option"
  defines "m0 \<equiv> (case metadata of None \<Rightarrow> default_metadata | Some m \<Rightarrow> m)"
  shows "strip_message P m (Message ident role content phase metadata) =
     Message ident role (map (\<lambda>c. if P c then ContentInputText (media_text m) else c) content) phase
       (Some (m0\<lparr>content_item_kinds :=
          Some (map2 (\<lambda>c kind. if P c then media_content_kind m else kind) content (known_kinds content m0))\<rparr>))"
  unfolding zip_known_kinds m0_def
  by (cases metadata)
    (simp_all add: strip_message_def Let_def map_fst_replaced annotated_replaced default_metadata_def del: map_map map_eq_conv)

lemma strip_media_Message:
  "strip_media mods (Message ident role content phase metadata) = replace_media mods (Message ident role content phase metadata)"
proof -
  have kinds: "replace_kinds mods content metadata =
      (if ImageModality \<in> set mods \<and> AudioModality \<in> set mods then metadata
       else let m = (case metadata of None \<Rightarrow> default_metadata | Some m \<Rightarrow> m)
            in Some (m\<lparr>content_item_kinds := Some (map2 (replace_kind mods) content (known_kinds content m))\<rparr>))"
    by (simp add: replace_kinds_def Let_def zip_known_kinds annotate_def)
  have nested: "map2 f (map g xs) (map2 h xs ys) = map2 (\<lambda>x y. f (g x) (h x y)) xs ys"
    for f :: "content_entry \<Rightarrow> rstr \<Rightarrow> rstr" and g h xs ys
    by (induction xs ys rule: list_induct2') simp_all
  have both: "\<not> (is_message_image c \<and> is_message_audio c)" for c by (cases c) simp_all
  note entries = replace_entry_def [abs_def] replace_kind_def [abs_def] unsupported_entry_def
  show ?thesis
  proof (cases "ImageModality \<in> set mods"; cases "AudioModality \<in> set mods")
    assume i: "ImageModality \<notin> set mods" and a: "AudioModality \<notin> set mods"
    have entry: "replace_entry mods = (\<lambda>c. if is_message_audio c then ContentInputText (media_text UNSUPPORTED_AUDIO) else c)
        \<circ> (\<lambda>c. if is_message_image c then ContentInputText (media_text UNSUPPORTED_IMAGE) else c)"
      using i a by (auto simp: entries fun_eq_iff)
    have kind: "replace_kind mods = (\<lambda>c kind. if is_message_audio (if is_message_image c then ContentInputText (media_text UNSUPPORTED_IMAGE) else c)
        then media_content_kind UNSUPPORTED_AUDIO else if is_message_image c then media_content_kind UNSUPPORTED_IMAGE else kind)"
      using i a both by (auto simp: entries fun_eq_iff)
    show ?thesis unfolding replace_media.simps kinds entry kind
      using i a by (simp add: strip_media_def Let_def strip_message_kinds nested)
  qed (simp_all add: strip_media_def kinds Let_def strip_message_kinds entries if_distrib [of "case_option _ _"] cong: if_cong)
qed

lemma strip_media_replaced: "strip_media mods i = replace_media mods i"
proof (cases i)
  case (Message ident role content phase metadata)
  then show ?thesis using strip_media_Message by simp
qed (simp_all add: strip_media_def Let_def replace_payload_strip)

section \<open>The normalised history\<close>

definition normal_items :: "(rstr \<Rightarrow> rstr) \<Rightarrow> 'j envelope list \<Rightarrow> 'j envelope list" where
  "normal_items new_v5 items =
     filter (requested (all_outputs new_v5 items)) (all_outputs new_v5 items)"

lemma strip_both:
  "strip_audio_when_unsupported mods (strip_images_when_unsupported mods items)
   = map (envelope_item_update (strip_media mods)) items"
  by (auto simp: strip_audio_when_unsupported_def strip_images_when_unsupported_def strip_media_def
      intro: map_idI [symmetric])

lemma normalize_history_cases:
  "normalize_history new_v5 debug mods items
     = Inr (map (envelope_item_update (strip_media mods)) (normal_items new_v5 items))
   \<or> (\<exists>m. normalize_history new_v5 debug mods items = Inl (Reported m)) \<and> debug"
  using ensure_call_outputs_present_cases [of new_v5 debug items]
    remove_orphan_outputs_cases [of debug "all_outputs new_v5 items"]
  by (auto simp: normalize_history_def strip_both normal_items_def)

lemma normal_items_paired: "paired (items_of (normal_items new_v5 items))"
  unfolding normal_items_def
  by (rule paired_filter_requested) (auto simp: call_keys_all_outputs all_outputs_answered)

lemma normal_items_calls: "call_keys (items_of (normal_items new_v5 items)) = call_keys (items_of items)"
  by (simp add: normal_items_def call_keys_requested call_keys_all_outputs)

lemma normal_items_fixed: "paired (items_of items) \<Longrightarrow> normal_items new_v5 items = items"
  by (simp add: normal_items_def all_outputs_paired requested_all)

lemma strip_media_paired:
  "paired (map (strip_media mods) is) = paired is"
  "call_keys (map (strip_media mods) is) = call_keys is"
  by (simp add: paired_iff, induction "is") (auto split: option.split)


text \<open>
  An item that takes no part in the pairing: neither a call nor an output, or one without a call
  identifier.
\<close>

definition unkeyed :: "'j response_item \<Rightarrow> bool" where
  "unkeyed i \<longleftrightarrow> call_key i = None \<and> output_key i = None"

text \<open>The items of a history that stay: all but the outputs whose call is missing.\<close>

definition stays :: "(tool_kind \<times> rstr) list \<Rightarrow> 'j response_item \<Rightarrow> bool" where
  "stays calls i \<longleftrightarrow> (case output_key i of None \<Rightarrow> True | Some k \<Rightarrow> from_server i \<or> k \<in> set calls)"

lemma normal_items_unkeyed:
  "filter unkeyed (items_of (normal_items new_v5 items)) = filter unkeyed (items_of items)"
proof -
  have one: "filter unkeyed (items_of (with_output new_v5 ids e)) = filter unkeyed [envelope_item e]"
    for ids and e :: "'a envelope"
    using missing_for_Some [of new_v5 ids "envelope_item e"] missing_for_None [of new_v5 ids "envelope_item e"]
    by (auto simp: with_output_def new_envelope_def unkeyed_def split: option.splits)
  have "filter unkeyed (items_of (concat (map (with_output new_v5 ids) es))) = filter unkeyed (items_of es)"
    for ids and es :: "'a envelope list"
    by (induction es) (simp_all add: one)
  moreover have "filter unkeyed (items_of (filter (requested as) es)) = filter unkeyed (items_of es)"
    for as es :: "'a envelope list"
    by (induction es) (auto simp: requested_key unkeyed_def)
  ultimately show ?thesis by (simp add: normal_items_def all_outputs_def)
qed

lemma normal_items_stay:
  "subseq (filter (stays (call_keys (items_of items))) (items_of items)) (items_of (normal_items new_v5 items))"
proof -
  have "subseq es (concat (map (with_output new_v5 ids) es))" for ids and es :: "'a envelope list"
    by (induction es) (auto simp: with_output_def intro: list_emb_append2)
  then have "subseq (filter (requested (all_outputs new_v5 items)) items) (normal_items new_v5 items)"
    unfolding normal_items_def all_outputs_def by (intro subseq_filter)
  moreover have "requested (all_outputs new_v5 items) = stays (call_keys (items_of items)) \<circ> envelope_item"
    by (simp add: fun_eq_iff requested_key stays_def call_keys_all_outputs split: option.split)
  ultimately show ?thesis by (metis filter_map subseq_map)
qed

section \<open>The prompt\<close>

lemma for_prompt_cases:
  "for_prompt new_v5 debug cm mods
     = Inr (map (strip_media mods) (items_of (normal_items new_v5 (history_items cm))))
   \<or> (\<exists>m. for_prompt new_v5 debug cm mods = Inl (Reported m)) \<and> debug"
  using normalize_history_cases [of new_v5 debug mods "history_items cm"]
  by (auto simp: for_prompt_def for_prompt_annotated_def)

text \<open>
  C33. In a release build a prompt can be made of every history, whatever the model supports. In the
  prompt every call with a call identifier has an output, and every output that names a call identifier
  has a call, except outputs that the server produced. The calls are those of the history, in their
  order. No item of the history is lost but outputs whose call is missing, and what is added are outputs
  with a call identifier: calls and outputs without one, and items that are neither, are those of the
  history. Media are replaced as the model requires. A debug build gives the same prompt or stops with
  the report of an inconsistency.
\<close>

theorem prompt_calls_answered:
  "\<exists>items. for_prompt new_v5 False cm mods = Inr items \<and>
     paired items \<and>
     call_keys items = call_keys (map envelope_item (history_items cm)) \<and>
     subseq (map (replace_media mods)
         (filter (stays (call_keys (map envelope_item (history_items cm)))) (map envelope_item (history_items cm)))) items \<and>
     filter unkeyed items = map (replace_media mods) (filter unkeyed (map envelope_item (history_items cm))) \<and>
     (for_prompt new_v5 True cm mods = Inr items
      \<or> (\<exists>m. for_prompt new_v5 True cm mods = Inl (Reported m)))"
proof -
  let ?normal = "items_of (normal_items new_v5 (history_items cm))"
  have "filter unkeyed (map (strip_media mods) is) = map (strip_media mods) (filter unkeyed is)" for "is" :: "'a response_item list"
    by (induction "is") (simp_all add: unkeyed_def)
  then have unkeyed: "filter unkeyed (map (strip_media mods) ?normal)
      = map (strip_media mods) (filter unkeyed (items_of (history_items cm)))"
    by (simp only: normal_items_unkeyed)
  note kept = subseq_map [OF normal_items_stay [of "history_items cm" new_v5], of "strip_media mods"]
  show ?thesis
    using for_prompt_cases [of new_v5 False cm mods] for_prompt_cases [of new_v5 True cm mods] unkeyed kept
    unfolding strip_media_replaced [of mods, abs_def, symmetric]
    by (auto simp: strip_media_paired normal_items_paired normal_items_calls simp del: map_map filter_map)
qed

lemma missing_outputs_none:
  "\<forall>e\<in>set es. missing_for new_v5 ids (envelope_item e) = None \<Longrightarrow>
   missing_outputs new_v5 debug ids idx es = Inr []"
  by (induction es arbitrary: idx) (simp_all add: missing_output_answered)

lemma find_orphans_none:
  "\<forall>e\<in>set es. orphan_message ids (envelope_item e) = None \<Longrightarrow> find_orphans debug ids p es = Inr []"
  by (induction es arbitrary: p) simp_all

lemma paired_consistent:
  assumes "paired (items_of items)" "e \<in> set items"
  shows "missing_for new_v5 (output_ids items) (envelope_item e) = None" "requested items e"
  using assms
  by (auto simp: missing_for_None output_ids_key requested_key paired_iff in_output_keys_iff
      in_call_keys_iff split: option.split)

lemma normalize_paired:
  assumes "paired (items_of items)"
  shows "normalize_history new_v5 debug mods items
         = Inr (map (envelope_item_update (strip_media mods)) items)"
proof -
  have "ensure_call_outputs_present new_v5 debug items = Inr items"
    using paired_consistent(1) [OF assms]
    by (simp add: ensure_call_outputs_present_def missing_outputs_none insert_outputs_def)
  moreover have "remove_orphan_outputs debug items = Inr items"
    using paired_consistent(2) [OF assms]
    by (simp add: remove_orphan_outputs_def find_orphans_none requested_def)
  ultimately show ?thesis by (simp add: normalize_history_def strip_both)
qed

text \<open>
  C35. Normalising a history that is normalised already changes nothing, and never reports an
  inconsistency, not even in a debug build.
\<close>

theorem normalize_history_idempotent:
  "res_bind (normalize_history new_v5 False mods items) (normalize_history new_v5 debug mods)
   = normalize_history new_v5 False mods items"
proof -
  let ?strip = "map (envelope_item_update (strip_media mods))"
  have "items_of (?strip es) = map (strip_media mods) (items_of es)" for es :: "'a envelope list"
    by simp
  then have "paired (items_of (?strip (normal_items new_v5 items)))"
    by (simp only: strip_media_paired normal_items_paired)
  from normalize_paired [OF this] show ?thesis
    using normalize_history_cases [of new_v5 False mods items]
    by (auto simp: strip_media_idem comp_def)
qed

text \<open>
  C34. In a release build the prompt for a model holds no image and no audio that the model does not
  support. It is the prompt for a model that supports images and audio, item by item, with each
  unsupported entry of a message or tool output replaced in place by the text that says so, the result
  of a generated image cleared where images are not supported, and the classifications of the entries
  of messages completed where a medium is not supported; everything else is kept.
\<close>

theorem prompt_media_supported:
  "\<exists>full items.
     for_prompt new_v5 False cm [ImageModality, AudioModality] = Inr full \<and>
     for_prompt new_v5 False cm mods = Inr items \<and>
     list_all (media_supported mods) items \<and>
     items = map (replace_media mods) full"
proof -
  let ?normal = "items_of (normal_items new_v5 (history_items cm))"
  have "map (strip_media [ImageModality, AudioModality]) ?normal = ?normal"
    by (auto simp: strip_media_def intro: map_idI)
  then have "for_prompt new_v5 False cm [ImageModality, AudioModality] = Inr ?normal"
    using for_prompt_cases [of new_v5 False cm "[ImageModality, AudioModality]"] by simp
  moreover have "for_prompt new_v5 False cm mods = Inr (map (strip_media mods) ?normal)"
    using for_prompt_cases [of new_v5 False cm mods] by simp
  moreover have "map (strip_media mods) ?normal = map (replace_media mods) ?normal"
    by (simp add: strip_media_replaced)
  moreover have "list_all (media_supported mods) (map (strip_media mods) ?normal)"
    by (simp add: list_all_iff strip_media_supported)
  ultimately show ?thesis by blast
qed

section \<open>Dropping the oldest item\<close>

text \<open>The lists that remain when one item with the property is taken out, or none has it.\<close>

definition taken_out :: "('a \<Rightarrow> bool) \<Rightarrow> 'a list \<Rightarrow> 'a list \<Rightarrow> bool" where
  "taken_out P xs ys \<longleftrightarrow>
     (\<exists>pre x post. xs = pre @ x # post \<and> P x \<and> ys = pre @ post) \<or> (\<forall>x\<in>set xs. \<not> P x) \<and> ys = xs"

lemma taken_out_at: "P x \<Longrightarrow> taken_out P (pre @ x # post) (pre @ post)"
  unfolding taken_out_def by blast

lemma taken_out_none: "\<forall>x\<in>set xs. \<not> P x \<Longrightarrow> taken_out P xs xs"
  unfolding taken_out_def by blast

lemma taken_out_cases:
  assumes "taken_out P xs ys"
  obtains (at) pre x post where "xs = pre @ x # post" "P x" "ys = pre @ post"
  | (none) "\<forall>x\<in>set xs. \<not> P x" "ys = xs"
  using assms unfolding taken_out_def by blast

lemma taken_out_Cons: "taken_out P xs ys \<Longrightarrow> \<not> P x \<Longrightarrow> taken_out P (x # xs) (x # ys)"
proof (erule taken_out_cases)
  fix pre y post
  assume "xs = pre @ y # post" "P y" "ys = pre @ post"
  then show "taken_out P (x # xs) (x # ys)" using taken_out_at [of P y "x # pre" post] by simp
qed (simp add: taken_out_none)

lemma taken_out_position:
  "taken_out P xs (case vec_position P xs of None \<Rightarrow> xs | Some pos \<Rightarrow> remove_at pos xs)"
proof (induction xs)
  case Nil
  then show ?case by (simp add: taken_out_def)
next
  case (Cons x xs)
  show ?case
  proof (cases "P x")
    case True
    then show ?thesis using taken_out_at [of P x "[]" xs] by (simp add: remove_at_def)
  next
    case False
    then show ?thesis using taken_out_Cons [OF Cons]
      by (auto simp: remove_at_def split: option.splits)
  qed
qed

lemma vec_position_None: "vec_position P xs = None \<longleftrightarrow> (\<forall>x\<in>set xs. \<not> P x)"
  by (induction xs) auto

lemma taken_out_mono:
  assumes "taken_out P xs ys" "\<And>x. P x \<Longrightarrow> Q x" "\<exists>x\<in>set xs. P x"
  shows "taken_out Q xs ys"
  using assms by (auto elim!: taken_out_cases intro: taken_out_at)

lemma taken_out_or:
  "taken_out P xs ys \<Longrightarrow> \<forall>x\<in>set xs. \<not> R x \<Longrightarrow> taken_out (\<lambda>x. R x \<or> P x) xs ys"
  by (auto elim!: taken_out_cases intro: taken_out_at simp: taken_out_none)

lemma taken_out_map: "taken_out (\<lambda>x. P (f x)) xs ys \<Longrightarrow> taken_out P (map f xs) (map f ys)"
  by (auto elim!: taken_out_cases intro: taken_out_at simp: taken_out_none)

lemma remove_first_matching_taken_out:
  "taken_out (\<lambda>e. P (envelope_item e)) items (remove_first_matching P items)"
  unfolding remove_first_matching_def by (rule taken_out_position)


lemma is_output_of_key:
  "is_function_output_of c i \<longleftrightarrow> output_key i = Some (FunctionTool, c)"
  "is_tool_search_output_of c i \<longleftrightarrow> output_key i = Some (SearchTool, c)"
  "is_custom_output_of c i \<longleftrightarrow> output_key i = Some (CustomTool, c)"
  by (cases i rule: output_key.cases; auto)+

lemma is_call_of_key:
  "is_function_call_of c i \<or> is_local_shell_call_of c i \<longleftrightarrow> call_key i = Some (FunctionTool, c)"
  "is_tool_search_call_of c i \<longleftrightarrow> call_key i = Some (SearchTool, c)"
  "is_custom_call_of c i \<longleftrightarrow> call_key i = Some (CustomTool, c)"
  by (cases i rule: call_key.cases; auto)+

lemma removed_function_call:
  "taken_out (\<lambda>e. call_key (envelope_item e) = Some (FunctionTool, c)) items
     (remove_corresponding_for (FunctionCallOutput ident (Some c) name namespace p md) items)"
proof -
  let ?call = "\<lambda>e. is_function_call_of c (envelope_item e)"
  let ?shell = "\<lambda>e. is_local_shell_call_of c (envelope_item e)"
  have key: "?call e \<or> ?shell e \<longleftrightarrow> call_key (envelope_item e) = Some (FunctionTool, c)" for e :: "'a envelope"
    by (rule is_call_of_key)
  show ?thesis
  proof (cases "vec_position ?call items")
    case None
    have "taken_out (\<lambda>e. ?call e \<or> ?shell e) items (case vec_position ?shell items of None \<Rightarrow> items | Some pos \<Rightarrow> remove_at pos items)"
      using taken_out_position [of ?shell items] None
      by (auto simp: vec_position_None intro: taken_out_or)
    then show ?thesis using None by (simp add: key option.case_eq_if)
  next
    case (Some pos)
    then have "\<exists>e\<in>set items. ?call e" using vec_position_None [of ?call items] by auto
    then have "taken_out (\<lambda>e. ?call e \<or> ?shell e) items (remove_at pos items)"
      using taken_out_position [of ?call items] Some by (auto intro: taken_out_mono)
    then show ?thesis using Some by (simp add: key)
  qed
qed

lemma remove_corresponding_output:
  "call_key i = Some k \<Longrightarrow>
   taken_out (\<lambda>e. output_key (envelope_item e) = Some k) items (remove_corresponding_for i items)"
  using remove_first_matching_taken_out [of "\<lambda>i. output_key i = Some k" items]
  by (cases i rule: call_key.cases) (auto simp: is_output_of_key [abs_def])

lemma remove_corresponding_call:
  "output_key i = Some k \<Longrightarrow>
   taken_out (\<lambda>e. call_key (envelope_item e) = Some k) items (remove_corresponding_for i items)"
  using remove_first_matching_taken_out [of "\<lambda>i. call_key i = Some k" items] removed_function_call
  by (cases i rule: output_key.cases) (auto simp: is_call_of_key(2,3) [abs_def] simp del: remove_corresponding_for.simps(2))

lemma remove_corresponding_none:
  "call_key i = None \<Longrightarrow> output_key i = None \<Longrightarrow> remove_corresponding_for i items = items"
  by (cases "(i, items)" rule: remove_corresponding_for.cases) auto


lemma map_filter_simps [simp]:
  "List.map_filter f [] = []"
  "List.map_filter f (x # xs) = (case f x of None \<Rightarrow> List.map_filter f xs | Some y \<Rightarrow> y # List.map_filter f xs)"
  "List.map_filter f (xs @ ys) = List.map_filter f xs @ List.map_filter f ys"
  by (simp_all add: List.map_filter_def split: option.split)

lemma in_map_filter_iff: "y \<in> set (List.map_filter f xs) \<longleftrightarrow> (\<exists>x\<in>set xs. f x = Some y)"
  by (induction xs) (auto split: option.splits)

lemma taken_out_key:
  assumes "taken_out (\<lambda>i. f i = Some k) xs ys" "count_list (List.map_filter f xs) k \<le> 1"
  shows "set (List.map_filter f ys) = set (List.map_filter f xs) - {k}"
proof (rule taken_out_cases [OF assms(1)])
  fix pre x post
  assume *: "xs = pre @ x # post" "f x = Some k" "ys = pre @ post"
  then have "count_list (List.map_filter f ys) k = 0" using assms(2) by simp
  then have "k \<notin> set (List.map_filter f ys)" by (rule iffD1 [OF count_list_0_iff])
  then show ?thesis using * by auto
qed (auto simp: in_map_filter_iff)

lemma taken_out_count:
  "taken_out P xs ys \<Longrightarrow> count_list (List.map_filter g (map f ys)) k \<le> count_list (List.map_filter g (map f xs)) k"
  by (auto elim!: taken_out_cases split: option.split)

lemma taken_out_other_key:
  assumes "taken_out (\<lambda>i. f i = Some k) xs ys" "\<And>i. f i = Some k \<Longrightarrow> g i = None"
  shows "List.map_filter g ys = List.map_filter g xs"
  using assms by (auto elim!: taken_out_cases)

lemma taken_out_subset: "taken_out P xs ys \<Longrightarrow> set ys \<subseteq> set xs"
  by (auto elim!: taken_out_cases)

text \<open>The identifier of a call or an output, and that at most one call and one output have it.\<close>

definition item_key :: "'j response_item \<Rightarrow> (tool_kind \<times> rstr) option" where
  "item_key i = (case call_key i of None \<Rightarrow> output_key i | Some k \<Rightarrow> Some k)"

definition sole_key :: "'j response_item list \<Rightarrow> tool_kind \<times> rstr \<Rightarrow> bool" where
  "sole_key items k \<longleftrightarrow> count_list (call_keys items) k \<le> 1 \<and> count_list (output_keys items) k \<le> 1"

lemma call_key_no_output: "call_key i = Some k \<Longrightarrow> output_key i = None"
  by (cases i rule: call_key.cases) auto

lemma paired_keys_iff:
  "paired items \<longleftrightarrow>
   set (call_keys items) \<subseteq> set (output_keys items) \<and>
   (\<forall>i\<in>set items. \<forall>k. output_key i = Some k \<and> \<not> from_server i \<longrightarrow> k \<in> set (call_keys items))"
  unfolding paired_def subset_iff in_output_keys_iff by (auto; blast)

lemma drop_call_paired:
  assumes paired: "paired (i # is)" and sole: "sole_key (i # is) k" and key: "call_key i = Some k"
    and out: "taken_out (\<lambda>j. output_key j = Some k) is js"
  shows "paired js"
proof -
  have keys: "set (output_keys js) = set (output_keys is) - {k}"
    using taken_out_key [OF out] sole key by (simp add: sole_key_def output_keys_def call_key_no_output)
  have calls: "call_keys js = call_keys is"
    using taken_out_other_key [OF out, of call_key] by (simp add: call_keys_def output_key_no_call)
  have fresh: "k \<notin> set (call_keys is)" using sole key by (simp add: sole_key_def count_list_0_iff)
  have "set (call_keys is) \<subseteq> set (output_keys is)"
    using paired key by (auto simp: paired_keys_iff call_key_no_output)
  moreover have "k' \<in> set (call_keys is)"
    if "j \<in> set js" "output_key j = Some k'" "\<not> from_server j" for j k'
  proof -
    have "k' \<in> set (output_keys js)" using that by (auto simp: in_output_keys_iff)
    then have "k' \<noteq> k" using keys by simp
    moreover have "j \<in> set is" using taken_out_subset [OF out] that by auto
    ultimately show ?thesis using paired key that by (cases k') (auto simp: paired_keys_iff)
  qed
  ultimately show ?thesis using keys calls fresh by (auto simp: paired_keys_iff)
qed

lemma drop_output_paired:
  assumes paired: "paired (i # is)" and sole: "sole_key (i # is) k" and key: "output_key i = Some k"
    and out: "taken_out (\<lambda>j. call_key j = Some k) is js"
  shows "paired js"
proof -
  have keys: "set (call_keys js) = set (call_keys is) - {k}"
    using taken_out_key [OF out] sole key by (simp add: sole_key_def call_keys_def output_key_no_call)
  have outputs: "output_keys js = output_keys is"
    using taken_out_other_key [OF out, of output_key] by (simp add: output_keys_def call_key_no_output)
  have fresh: "k \<notin> set (output_keys is)" using sole key by (simp add: sole_key_def count_list_0_iff)
  have "set (call_keys is) \<subseteq> insert k (set (output_keys is))"
    using paired key by (auto simp: paired_keys_iff output_key_no_call)
  moreover have "k' \<in> set (call_keys is) - {k}"
    if "j \<in> set js" "output_key j = Some k'" "\<not> from_server j" for j k'
  proof -
    have "j \<in> set is" using taken_out_subset [OF out] that by auto
    then have "k' \<noteq> k" using fresh that by (auto simp: in_output_keys_iff)
    then show ?thesis using \<open>j \<in> set is\<close> paired key that by (cases k') (auto simp: paired_keys_iff output_key_no_call)
  qed
  ultimately show ?thesis using keys outputs fresh by (auto simp: paired_keys_iff)
qed

lemma drop_other_paired:
  "paired (i # is) \<Longrightarrow> call_key i = None \<Longrightarrow> output_key i = None \<Longrightarrow> paired is"
  by (auto simp: paired_keys_iff)

text \<open>Dropping an item with its counterpart only takes identifiers away.\<close>

lemma remove_corresponding_less:
  "length (remove_corresponding_for i items) \<le> length items"
  "count_list (call_keys (items_of (remove_corresponding_for i items))) k \<le> count_list (call_keys (items_of items)) k"
  "count_list (output_keys (items_of (remove_corresponding_for i items))) k \<le> count_list (output_keys (items_of items)) k"
proof -
  obtain P where P: "taken_out P items (remove_corresponding_for i items)"
  proof (cases "item_key i")
    case None
    then have "remove_corresponding_for i items = items"
      by (intro remove_corresponding_none) (simp_all add: item_key_def split: option.splits)
    then show thesis using that taken_out_none [of items "\<lambda>_. False"] by simp
  next
    case (Some k)
    then show thesis
      using that remove_corresponding_output [of i k items] remove_corresponding_call [of i k items]
      by (auto simp: item_key_def split: option.splits)
  qed
  then show "length (remove_corresponding_for i items) \<le> length items" by (auto elim: taken_out_cases)
  show "count_list (call_keys (items_of (remove_corresponding_for i items))) k \<le> count_list (call_keys (items_of items)) k"
    "count_list (output_keys (items_of (remove_corresponding_for i items))) k \<le> count_list (output_keys (items_of items)) k"
    using taken_out_count [OF P] by (simp_all add: call_keys_def output_keys_def)
qed

text \<open>
  C36. When calls and outputs of a history correspond and the oldest item is dropped, they still do: a
  call goes together with its output, and an output with its call. It is assumed that the identifier of
  the oldest item, if it has one, is that of at most one call and one output. No identifier becomes more
  frequent, so in a history without repeated identifiers the oldest item can be dropped again and again.
  The baseline of the world state is forgotten. The notifications of code mode repeat the identifier of
  their call: only the first output goes with such a call.
\<close>

theorem remove_first_item_keeps_pairs:
  assumes "paired (map envelope_item (history_items cm))" "history_items cm \<noteq> []"
    and "pred_option (sole_key (map envelope_item (history_items cm))) (item_key (envelope_item (hd (history_items cm))))"
  shows "paired (map envelope_item (history_items (remove_first_item cm))) \<and>
    count_list (call_keys (map envelope_item (history_items (remove_first_item cm)))) k
      \<le> count_list (call_keys (map envelope_item (history_items cm))) k \<and>
    count_list (output_keys (map envelope_item (history_items (remove_first_item cm)))) k
      \<le> count_list (output_keys (map envelope_item (history_items cm))) k \<and>
    length (history_items (remove_first_item cm)) < length (history_items cm) \<and>
    world_state_baseline (remove_first_item cm) = None"
proof -
  obtain e es where items: "history_items cm = e # es" using assms(2) by (cases "history_items cm") auto
  let ?rest = "remove_corresponding_for (envelope_item e) es"
  note drop = assms(1) [unfolded items list.map]
  have sole: "sole_key (envelope_item e # items_of es) k" if "item_key (envelope_item e) = Some k" for k
    using assms(3) that by (simp add: items)
  consider (call) k where "call_key (envelope_item e) = Some k" | (out) k where "output_key (envelope_item e) = Some k"
    | (other) "call_key (envelope_item e) = None" "output_key (envelope_item e) = None" by fastforce
  then have "paired (items_of ?rest)"
  proof cases
    case call
    with sole have "sole_key (envelope_item e # items_of es) k" by (simp add: item_key_def)
    then show ?thesis
      using drop_call_paired [OF drop _ call taken_out_map [where f = envelope_item, OF remove_corresponding_output [OF call, of es]]]
      by blast
  next
    case out
    with sole have "sole_key (envelope_item e # items_of es) k" by (simp add: item_key_def output_key_no_call)
    then show ?thesis
      using drop_output_paired [OF drop _ out taken_out_map [where f = envelope_item, OF remove_corresponding_call [OF out, of es]]]
      by blast
  next
    case other
    then show ?thesis using drop_other_paired [OF drop] remove_corresponding_none [OF other] by simp
  qed
  then show ?thesis
    using remove_corresponding_less [of "envelope_item e" es] le_SucI
    by (auto simp: remove_first_item_def items less_Suc_eq_le split: option.split intro: le_SucI)
qed

theorem remove_first_item_keeps_pairs_witness:
  "let call = FunctionCall None (lit ''shell'') None (lit ''{}'') None (lit ''c1'') None;
       search = ToolSearchOutput None (Some (lit ''c2'')) (lit ''completed'') (lit ''server'') [] None;
       result = FunctionCallOutput None (Some (lit ''c1'')) None None (payload_from_text (lit ''ok'')) None;
       cm = \<lparr>history_items = map new_envelope [call, search, result], world_state_baseline = Some ()\<rparr>
          :: (unit, unit) context_manager
   in history_items (remove_first_item cm) = [new_envelope search] \<and>
      paired (map envelope_item (history_items (remove_first_item cm)))"
  unfolding Let_def
proof (rule conjI)
  let ?call = "FunctionCall None (lit ''shell'') None (lit ''{}'') None (lit ''c1'') None :: unit response_item"
  let ?search = "ToolSearchOutput None (Some (lit ''c2'')) (lit ''completed'') (lit ''server'') [] None :: unit response_item"
  let ?result = "FunctionCallOutput None (Some (lit ''c1'')) None None (payload_from_text (lit ''ok'')) None :: unit response_item"
  let ?cm = "\<lparr>history_items = map new_envelope [?call, ?search, ?result], world_state_baseline = Some ()\<rparr>
     :: (unit, unit) context_manager"
  have "paired (map envelope_item (history_items ?cm))"
    by (simp add: paired_def new_envelope_def)
  moreover have "pred_option (sole_key (map envelope_item (history_items ?cm))) (item_key (envelope_item (hd (history_items ?cm))))"
    by (simp add: sole_key_def item_key_def new_envelope_def)
  ultimately show "paired (map envelope_item (history_items (remove_first_item ?cm)))"
    using remove_first_item_keeps_pairs [of ?cm] by simp
  show "history_items (remove_first_item ?cm) = [new_envelope ?search]"
    by (simp add: remove_first_item_def new_envelope_def remove_first_matching_def remove_at_def)
qed

end
