(* ===== verification/Retained_Context.thy ===== *)
theory Retained_Context
  imports Hexa_Prelude
begin

text \<open>
  The facts about the user that a thread keeps outside the model's context:
  \<open>history/src/retained_context.rs\<close>. It holds the answers to verified questions and the user's
  messages, each as a family of records ordered by acceptance and bounded in number and size, with
  a flag that says whether something was lost.

  The sizes of records and families are the lengths of their JSON text, written by a third-party
  library: the record \<open>json_sizes\<close> holds them, with \<open>None\<close> for a value that cannot be written.
  The loop that evicts records could run forever if not even the empty family fits; operations that
  use it return \<open>None\<close> in that case. Order numbers are 64 bit integers whose addition saturates.
\<close>

section \<open>Records\<close>

record question_answer =
  question :: rstr
  given_answer :: rstr

record verified_answer =
  answer_turn_id :: rstr
  answer_call_id :: rstr
  answer_questions :: "question_answer list"

record user_message =
  message_turn_id :: rstr
  message_id :: "rstr option"
  message_text :: rstr
  message_complete :: bool

record 'a ordered =
  entry_order :: nat
  entry_value :: 'a

datatype retained_event = VerifiedAnswerEvent verified_answer "nat option"

datatype retained_entry = UserMessageEntry user_message | VerifiedAnswerEntry verified_answer

record retained_context =
  verified_answers :: "verified_answer ordered list"
  verified_answers_incomplete :: bool
  user_messages :: "user_message ordered list"
  user_messages_incomplete :: bool
  next_order :: nat

definition default_context :: retained_context where
  "default_context =
     \<lparr>verified_answers = [], verified_answers_incomplete = False,
      user_messages = [], user_messages_incomplete = False, next_order = 0\<rparr>"

record json_sizes =
  size_of_message :: "user_message \<Rightarrow> nat option"
  size_of_answer :: "verified_answer \<Rightarrow> nat option"
  size_of_messages :: "user_message ordered list \<Rightarrow> nat option"
  size_of_answers :: "verified_answer ordered list \<Rightarrow> nat option"

section \<open>Bounds\<close>

definition MAX_FAMILY_RECORDS :: nat where "MAX_FAMILY_RECORDS = 8"

definition MAX_RECORD_BYTES :: nat where "MAX_RECORD_BYTES = 16384"

definition MAX_FAMILY_BYTES :: nat where "MAX_FAMILY_BYTES = 65536"

definition MAX_ID_BYTES :: nat where "MAX_ID_BYTES = 1024"

definition exceeds :: "nat \<Rightarrow> nat option \<Rightarrow> bool" where
  "exceeds limit bytes = (case bytes of None \<Rightarrow> True | Some n \<Rightarrow> limit < n)"

partial_function (option) evict ::
  "('a list \<Rightarrow> nat option) \<Rightarrow> 'a list \<Rightarrow> bool \<Rightarrow> ('a list \<times> bool) option" where
  "evict json_len items incomplete =
     (if length items > MAX_FAMILY_RECORDS \<or> exceeds MAX_FAMILY_BYTES (json_len items)
      then evict json_len (tl items) True
      else Some (items, incomplete))"

definition bound_family ::
  "('a ordered list \<Rightarrow> nat option) \<Rightarrow> 'a ordered list \<Rightarrow> bool \<Rightarrow> ('a ordered list \<times> bool) option" where
  "bound_family json_len items incomplete = evict json_len (sort_key entry_order items) incomplete"

text \<open>Cutting a string at the last character boundary that is not past the given byte.\<close>

fun truncate_floor :: "nat \<Rightarrow> rstr \<Rightarrow> rstr" where
  "truncate_floor n [] = []"
| "truncate_floor n (c # s) =
     (if len_utf8 c \<le> n then c # truncate_floor (n - len_utf8 c) s else [])"

definition bound_message :: "json_sizes \<Rightarrow> user_message \<Rightarrow> user_message" where
  "bound_message sizes m =
     (if exceeds MAX_RECORD_BYTES (size_of_message sizes m)
      then m\<lparr>message_text := [], message_complete := False,
             message_turn_id := truncate_floor MAX_ID_BYTES (message_turn_id m),
             message_id := map_option (truncate_floor MAX_ID_BYTES) (message_id m)\<rparr>
      else m)"

definition bound_answer :: "json_sizes \<Rightarrow> verified_answer \<Rightarrow> verified_answer" where
  "bound_answer sizes a =
     (if exceeds MAX_RECORD_BYTES (size_of_answer sizes a)
      then a\<lparr>answer_questions := [],
             answer_turn_id := truncate_floor MAX_ID_BYTES (answer_turn_id a),
             answer_call_id := truncate_floor MAX_ID_BYTES (answer_call_id a)\<rparr>
      else a)"

fun bound_event :: "json_sizes \<Rightarrow> retained_event \<Rightarrow> retained_event" where
  "bound_event sizes (VerifiedAnswerEvent a acceptance_order) =
     VerifiedAnswerEvent (bound_answer sizes a) acceptance_order"

section \<open>Operations\<close>

definition reserve_order :: "retained_context \<Rightarrow> retained_context \<times> nat" where
  "reserve_order ctx =
     (ctx\<lparr>next_order := saturating_add (next_order ctx) 1\<rparr>, next_order ctx)"

definition record_order :: "retained_context \<Rightarrow> nat option \<Rightarrow> retained_context \<times> nat" where
  "record_order ctx acceptance_order =
     (let ord = (case acceptance_order of None \<Rightarrow> next_order ctx | Some ord \<Rightarrow> ord)
      in (ctx\<lparr>next_order := max (next_order ctx) (saturating_add ord 1)\<rparr>, ord))"

definition verified_answers_complete :: "retained_context \<Rightarrow> bool" where
  "verified_answers_complete ctx \<longleftrightarrow>
     \<not> verified_answers_incomplete ctx \<and>
     list_all (\<lambda>e. answer_questions (entry_value e) \<noteq> []) (verified_answers ctx)"

definition user_messages_complete :: "retained_context \<Rightarrow> bool" where
  "user_messages_complete ctx \<longleftrightarrow>
     \<not> user_messages_incomplete ctx \<and>
     list_all (\<lambda>e. message_complete (entry_value e)) (user_messages ctx)"

definition mark_user_messages_incomplete :: "retained_context \<Rightarrow> retained_context" where
  "mark_user_messages_incomplete ctx = ctx\<lparr>user_messages_incomplete := True\<rparr>"

definition ordered_entries :: "retained_context \<Rightarrow> retained_entry list" where
  "ordered_entries ctx =
     map snd (sort_key fst
       (map (\<lambda>e. (entry_order e, VerifiedAnswerEntry (entry_value e))) (verified_answers ctx)
        @ map (\<lambda>e. (entry_order e, UserMessageEntry (entry_value e))) (user_messages ctx)))"

text \<open>
  The record of the same source, if the family has one: its index is found and it is removed
  unless it equals the new record.
\<close>

fun take_first :: "('a \<Rightarrow> bool) \<Rightarrow> 'a list \<Rightarrow> ('a \<times> 'a list) option" where
  "take_first P [] = None"
| "take_first P (x # xs) =
     (if P x then Some (x, xs) else map_option (\<lambda>(y, ys). (y, x # ys)) (take_first P xs))"

definition same_message :: "user_message \<Rightarrow> user_message ordered \<Rightarrow> bool" where
  "same_message m e \<longleftrightarrow> message_id m \<noteq> None \<and> message_id (entry_value e) = message_id m"

definition push_message ::
  "json_sizes \<Rightarrow> retained_context \<Rightarrow> user_message \<Rightarrow> nat option \<Rightarrow> retained_context option" where
  "push_message sizes ctx m acceptance_order =
     (let (ctx, ord) = record_order ctx acceptance_order in
      map_option (\<lambda>(items, incomplete). ctx\<lparr>user_messages := items, user_messages_incomplete := incomplete\<rparr>)
        (bound_family (size_of_messages sizes)
           (user_messages ctx @ [\<lparr>entry_order = ord, entry_value = m\<rparr>])
           (user_messages_incomplete ctx)))"

definition record_user_message ::
  "json_sizes \<Rightarrow> retained_context \<Rightarrow> user_message \<Rightarrow> nat option \<Rightarrow> retained_context option" where
  "record_user_message sizes ctx m acceptance_order =
     (let m = bound_message sizes m in
      case take_first (same_message m) (user_messages ctx) of
        None \<Rightarrow> push_message sizes ctx m acceptance_order
      | Some (existing, others) \<Rightarrow>
          if entry_value existing = m then Some ctx
          else push_message sizes (ctx\<lparr>user_messages := others\<rparr>) m acceptance_order)"

definition same_answer :: "verified_answer \<Rightarrow> verified_answer ordered \<Rightarrow> bool" where
  "same_answer a e \<longleftrightarrow>
     answer_turn_id (entry_value e) = answer_turn_id a \<and>
     answer_call_id (entry_value e) = answer_call_id a"

definition push_answer ::
  "json_sizes \<Rightarrow> retained_context \<Rightarrow> verified_answer \<Rightarrow> nat option \<Rightarrow> retained_context option" where
  "push_answer sizes ctx a acceptance_order =
     (let (ctx, ord) = record_order ctx acceptance_order in
      map_option (\<lambda>(items, incomplete). ctx\<lparr>verified_answers := items, verified_answers_incomplete := incomplete\<rparr>)
        (bound_family (size_of_answers sizes)
           (verified_answers ctx @ [\<lparr>entry_order = ord, entry_value = a\<rparr>])
           (verified_answers_incomplete ctx)))"

definition record_event ::
  "json_sizes \<Rightarrow> retained_context \<Rightarrow> retained_event \<Rightarrow> (retained_context \<times> bool) option" where
  "record_event sizes ctx event =
     (case bound_event sizes event of VerifiedAnswerEvent a acceptance_order \<Rightarrow>
        (case take_first (same_answer a) (verified_answers ctx) of
           None \<Rightarrow> map_option (\<lambda>ctx. (ctx, True)) (push_answer sizes ctx a acceptance_order)
         | Some (existing, others) \<Rightarrow>
             if entry_value existing = a then Some (ctx, False)
             else map_option (\<lambda>ctx. (ctx, True))
                    (push_answer sizes (ctx\<lparr>verified_answers := others\<rparr>) a acceptance_order)))"

definition raise_order :: "nat \<Rightarrow> 'a ordered \<Rightarrow> nat" where
  "raise_order n e = max n (saturating_add (entry_order e) 1)"

definition restore ::
  "json_sizes \<Rightarrow> retained_context option \<Rightarrow> retained_context option" where
  "restore sizes checkpoint =
     (let ctx = (case checkpoint of
                   None \<Rightarrow> default_context\<lparr>user_messages_incomplete := True\<rparr>
                 | Some ctx \<Rightarrow> ctx);
          answers = map (entry_value_update (bound_answer sizes)) (verified_answers ctx);
          messages = map (entry_value_update (bound_message sizes)) (user_messages ctx);
          next = foldl raise_order (foldl raise_order (next_order ctx) answers) messages
      in case bound_family (size_of_answers sizes) answers (verified_answers_incomplete ctx) of
           None \<Rightarrow> None
         | Some (answers, answers_incomplete) \<Rightarrow>
             map_option (\<lambda>(messages, messages_incomplete).
                 \<lparr>verified_answers = answers, verified_answers_incomplete = answers_incomplete,
                  user_messages = messages, user_messages_incomplete = messages_incomplete,
                  next_order = next\<rparr>)
               (bound_family (size_of_messages sizes) messages (user_messages_incomplete ctx)))"

definition retain_answers ::
  "(verified_answer \<Rightarrow> bool) \<Rightarrow> retained_context \<Rightarrow> retained_context" where
  "retain_answers keep ctx =
     ctx\<lparr>verified_answers := filter (\<lambda>e. keep (entry_value e)) (verified_answers ctx)\<rparr>"

definition rollback_order ::
  "retained_context \<Rightarrow> rstr option \<Rightarrow> nat option \<Rightarrow> nat option" where
  "rollback_order ctx first_removed_message_id acceptance_order =
     (case acceptance_order of
        Some ord \<Rightarrow> Some ord
      | None \<Rightarrow>
          (case first_removed_message_id of
             None \<Rightarrow> None
           | Some removed \<Rightarrow>
               map_option entry_order
                 (List.find (\<lambda>e. message_id (entry_value e) = Some removed) (user_messages ctx))))"

definition rollback ::
  "retained_context \<Rightarrow> rstr list \<Rightarrow> rstr option \<Rightarrow> nat option \<Rightarrow> retained_context" where
  "rollback ctx turn_ids first_removed_message_id acceptance_order =
     (case rollback_order ctx first_removed_message_id acceptance_order of
        Some ord \<Rightarrow>
          ctx\<lparr>verified_answers := filter (\<lambda>e. entry_order e < ord) (verified_answers ctx),
              user_messages := filter (\<lambda>e. entry_order e < ord) (user_messages ctx)\<rparr>
      | None \<Rightarrow>
          ctx\<lparr>user_messages_incomplete :=
                user_messages_incomplete ctx \<or> first_removed_message_id \<noteq> None
                \<or> list_ex (\<lambda>e. message_turn_id (entry_value e) \<in> set turn_ids) (user_messages ctx),
              verified_answers :=
                filter (\<lambda>e. answer_turn_id (entry_value e) \<notin> set turn_ids) (verified_answers ctx),
              user_messages :=
                filter (\<lambda>e. message_turn_id (entry_value e) \<notin> set turn_ids) (user_messages ctx)\<rparr>)"

section \<open>Sequences of operations\<close>

datatype retained_op =
    ReserveOrder
  | RecordMessage user_message "nat option"
  | RecordEvent retained_event
  | MarkIncomplete
  | RetainAnswers "verified_answer \<Rightarrow> bool"
  | Rollback "rstr list" "rstr option" "nat option"
  | RestoreCheckpoint

fun apply_op :: "json_sizes \<Rightarrow> retained_op \<Rightarrow> retained_context \<Rightarrow> retained_context option" where
  "apply_op sizes ReserveOrder ctx = Some (fst (reserve_order ctx))"
| "apply_op sizes (RecordMessage m acceptance_order) ctx = record_user_message sizes ctx m acceptance_order"
| "apply_op sizes (RecordEvent event) ctx = map_option fst (record_event sizes ctx event)"
| "apply_op sizes MarkIncomplete ctx = Some (mark_user_messages_incomplete ctx)"
| "apply_op sizes (RetainAnswers keep) ctx = Some (retain_answers keep ctx)"
| "apply_op sizes (Rollback turn_ids removed acceptance_order) ctx =
     Some (rollback ctx turn_ids removed acceptance_order)"
| "apply_op sizes RestoreCheckpoint ctx = restore sizes (Some ctx)"

fun run_ops :: "json_sizes \<Rightarrow> retained_op list \<Rightarrow> retained_context \<Rightarrow> retained_context option" where
  "run_ops sizes [] ctx = Some ctx"
| "run_ops sizes (op # ops) ctx = Option.bind (apply_op sizes op ctx) (run_ops sizes ops)"

text \<open>
  What the JSON library promises: an empty family is written in a few bytes, and a family from
  which records were removed is not longer than before.
\<close>

definition shrinking :: "('a list \<Rightarrow> nat option) \<Rightarrow> bool" where
  "shrinking json_len \<longleftrightarrow>
     \<not> exceeds MAX_FAMILY_BYTES (json_len []) \<and>
     (\<forall>items P. \<not> exceeds MAX_FAMILY_BYTES (json_len items) \<longrightarrow>
        \<not> exceeds MAX_FAMILY_BYTES (json_len (filter P items)))"

definition json_laws :: "json_sizes \<Rightarrow> bool" where
  "json_laws sizes \<longleftrightarrow> shrinking (size_of_messages sizes) \<and> shrinking (size_of_answers sizes)"

section \<open>A family of records\<close>

lemma evict_result:
  assumes "\<not> exceeds MAX_FAMILY_BYTES (json_len [])"
  shows "\<exists>k. evict json_len items incomplete = Some (drop k items, incomplete \<or> 0 < k) \<and>
    length (drop k items) \<le> MAX_FAMILY_RECORDS \<and> \<not> exceeds MAX_FAMILY_BYTES (json_len (drop k items))"
proof (induction items arbitrary: incomplete)
  case Nil
  then show ?case using assms by (intro exI [of _ 0], subst evict.simps) simp
next
  case (Cons x items)
  show ?case
  proof (cases "length (x # items) > MAX_FAMILY_RECORDS \<or> exceeds MAX_FAMILY_BYTES (json_len (x # items))")
    case True
    obtain k where k: "evict json_len items True = Some (drop k items, True)"
      "length (drop k items) \<le> MAX_FAMILY_RECORDS" "\<not> exceeds MAX_FAMILY_BYTES (json_len (drop k items))"
      using Cons [of True] by auto
    have "evict json_len (x # items) incomplete = evict json_len items True"
      using True by (subst evict.simps) simp
    then show ?thesis using k by (intro exI [of _ "Suc k"]) simp
  next
    case False
    then have "evict json_len (x # items) incomplete = Some (x # items, incomplete)"
      by (subst evict.simps) simp
    then show ?thesis using False by (intro exI [of _ 0]) auto
  qed
qed

lemma evict_fits:
  "length items \<le> MAX_FAMILY_RECORDS \<Longrightarrow> \<not> exceeds MAX_FAMILY_BYTES (json_len items) \<Longrightarrow>
   evict json_len items incomplete = Some (items, incomplete)"
  by (subst evict.simps) simp

lemma take_first_set: "take_first P xs = Some (y, ys) \<Longrightarrow> P y \<and> set xs = insert y (set ys)"
  by (induction xs arbitrary: ys) (auto split: if_splits)

lemma take_first_map:
  "take_first P (map f xs) = map_option (\<lambda>(y, ys). (f y, map f ys)) (take_first (\<lambda>x. P (f x)) xs)"
  by (induction xs) (auto simp: option.map_comp comp_def split_def)

lemma map_insort_key: "map f (insort_key (\<lambda>x. k (f x)) x xs) = insort_key k (f x) (map f xs)"
  by (induction xs) auto

lemma map_sort_key: "map f (sort_key (\<lambda>x. k (f x)) xs) = sort_key k (map f xs)"
  by (induction xs) (simp_all add: map_insort_key)

text \<open>
  What both families rely on: bounding a record again changes nothing, and a record that is still
  complete was not changed by bounding. The abstract family is the log of all records, unbounded.
\<close>

definition fit :: "('a \<Rightarrow> 'a) \<Rightarrow> ('a ordered list \<Rightarrow> nat option) \<Rightarrow> nat \<Rightarrow> 'a ordered list \<Rightarrow> bool" where
  "fit bound json_len next items \<longleftrightarrow>
     sorted (map entry_order items) \<and> length items \<le> MAX_FAMILY_RECORDS \<and>
     \<not> exceeds MAX_FAMILY_BYTES (json_len items) \<and>
     list_all (\<lambda>e. bound (entry_value e) = entry_value e \<and> saturating_add (entry_order e) 1 \<le> next) items"

definition log_record ::
  "('a \<Rightarrow> 'a) \<Rightarrow> ('a \<Rightarrow> 'a ordered \<Rightarrow> bool) \<Rightarrow> nat \<Rightarrow> 'a \<Rightarrow> 'a ordered list \<Rightarrow> 'a ordered list" where
  "log_record bound same ord v log =
     (case take_first (\<lambda>e. same (bound v) (entry_value_update bound e)) log of
        None \<Rightarrow> sort_key entry_order (log @ [\<lparr>entry_order = ord, entry_value = v\<rparr>])
      | Some (e, others) \<Rightarrow>
          if bound (entry_value e) = bound v then log
          else sort_key entry_order (others @ [\<lparr>entry_order = ord, entry_value = v\<rparr>]))"

definition log_retain ::
  "('a \<Rightarrow> 'a) \<Rightarrow> ('a ordered \<Rightarrow> bool) \<Rightarrow> 'a ordered list \<Rightarrow> 'a ordered list" where
  "log_retain bound keep log = filter (\<lambda>e. keep (entry_value_update bound e)) log"

locale retained_family =
  fixes bound :: "'a \<Rightarrow> 'a" and complete :: "'a \<Rightarrow> bool"
  assumes bound_idem: "bound (bound v) = bound v"
    and bound_complete: "complete (bound v) \<Longrightarrow> bound v = v"
begin

abbreviation bounded :: "'a ordered list \<Rightarrow> 'a ordered list" where
  "bounded \<equiv> map (entry_value_update bound)"

lemma push_fit:
  assumes "shrinking json_len"
    and "list_all (\<lambda>e. bound (entry_value e) = entry_value e \<and> saturating_add (entry_order e) 1 \<le> next) items"
  shows "\<exists>k. bound_family json_len items incomplete = Some (drop k (sort_key entry_order items), incomplete \<or> 0 < k)
    \<and> fit bound json_len next (drop k (sort_key entry_order items))"
proof -
  have "\<not> exceeds MAX_FAMILY_BYTES (json_len [])" using assms(1) by (simp add: shrinking_def)
  from evict_result [where json_len = json_len, OF this, of "sort_key entry_order items" incomplete] obtain k where
    k: "bound_family json_len items incomplete = Some (drop k (sort_key entry_order items), incomplete \<or> 0 < k)"
      "length (drop k (sort_key entry_order items)) \<le> MAX_FAMILY_RECORDS"
      "\<not> exceeds MAX_FAMILY_BYTES (json_len (drop k (sort_key entry_order items)))"
    by (auto simp: bound_family_def)
  have "sorted (map entry_order (drop k (sort_key entry_order items)))"
    by (simp add: drop_map [symmetric])
  moreover have "set (drop k (sort_key entry_order items)) \<subseteq> set items"
    using set_drop_subset [of k "sort_key entry_order items"] by simp
  ultimately show ?thesis using k assms(2) by (auto simp: fit_def list_all_iff)
qed

lemma fit_fixed:
  assumes "fit bound json_len next items"
  shows "bounded items = items" "bound_family json_len items incomplete = Some (items, incomplete)"
proof -
  show "bounded items = items" using assms by (auto simp: fit_def list_all_iff intro!: map_idI)
  have "sort_key entry_order items = items" using assms by (simp add: fit_def sort_key_id_if_sorted)
  then show "bound_family json_len items incomplete = Some (items, incomplete)"
    using assms by (simp add: bound_family_def fit_def evict_fits)
qed

lemma fit_filter: "shrinking json_len \<Longrightarrow> fit bound json_len next items \<Longrightarrow> fit bound json_len next (filter P items)"
  unfolding fit_def shrinking_def
  by (auto simp: list_all_iff intro: sorted_filter le_trans [OF length_filter_le])

lemma fit_mono: "fit bound json_len next items \<Longrightarrow> next \<le> next' \<Longrightarrow> fit bound json_len next' items"
  by (auto simp: fit_def list_all_iff)

lemma bounded_retain: "bounded (log_retain bound keep log) = filter keep (bounded log)"
  by (simp add: log_retain_def filter_map comp_def)

lemma bounded_sort: "bounded (sort_key entry_order log) = sort_key entry_order (bounded log)"
  using map_sort_key [of "entry_value_update bound" entry_order] by simp

lemma bounded_complete: "list_all (\<lambda>e. complete (entry_value e)) (bounded log) \<Longrightarrow> bounded log = log"
  using bound_complete by (induction log) auto

end

context retained_family begin

lemma push_log:
  assumes shrink: "shrinking json_len"
    and ok: "list_all (\<lambda>e. bound (entry_value e) = entry_value e \<and> saturating_add (entry_order e) 1 \<le> next) items"
  shows "\<exists>items' incomplete'.
    bound_family json_len (items @ [\<lparr>entry_order = ord, entry_value = bound v\<rparr>]) incomplete = Some (items', incomplete') \<and>
    fit bound json_len (max next (saturating_add ord 1)) items' \<and>
    (\<not> incomplete' \<longrightarrow> \<not> incomplete \<and>
       items' = sort_key entry_order (items @ [\<lparr>entry_order = ord, entry_value = bound v\<rparr>]))"
proof -
  let ?items = "items @ [\<lparr>entry_order = ord, entry_value = bound v\<rparr>]"
  have "list_all (\<lambda>e. bound (entry_value e) = entry_value e
      \<and> saturating_add (entry_order e) 1 \<le> max next (saturating_add ord 1)) ?items"
    using ok by (auto simp: list_all_iff bound_idem)
  from push_fit [OF shrink this, of incomplete] show ?thesis by (metis drop0 not_gr_zero)
qed

lemma log_record_bounded:
  "bounded (log_record bound same ord v log) =
   (case take_first (same (bound v)) (bounded log) of
      None \<Rightarrow> sort_key entry_order (bounded log @ [\<lparr>entry_order = ord, entry_value = bound v\<rparr>])
    | Some (e, others) \<Rightarrow>
        if entry_value e = bound v then bounded log
        else sort_key entry_order (others @ [\<lparr>entry_order = ord, entry_value = bound v\<rparr>]))"
  by (auto simp: log_record_def take_first_map bounded_sort split: option.split)

end

section \<open>The two families\<close>

lemma truncate_floor_idem: "truncate_floor n (truncate_floor n s) = truncate_floor n s"
  by (induction n s rule: truncate_floor.induct) auto

lemma bound_message_idem: "bound_message sizes (bound_message sizes m) = bound_message sizes m"
  by (auto simp: bound_message_def truncate_floor_idem option.map_comp comp_def)

lemma bound_answer_idem: "bound_answer sizes (bound_answer sizes a) = bound_answer sizes a"
  by (auto simp: bound_answer_def truncate_floor_idem)

interpretation messages: retained_family "bound_message sizes" message_complete for sizes
  by unfold_locales (auto simp: bound_message_idem, auto simp: bound_message_def split: if_splits)

interpretation answers: retained_family "bound_answer sizes" "\<lambda>a. answer_questions a \<noteq> []" for sizes
  by unfold_locales (auto simp: bound_answer_idem, auto simp: bound_answer_def split: if_splits)

section \<open>The log of everything recorded\<close>

text \<open>
  The log assigns the orders that the context assigns and is cut where the context is cut, and
  never loses a record otherwise.
\<close>

definition rollback_keeps ::
  "retained_context \<Rightarrow> rstr option \<Rightarrow> nat option \<Rightarrow> ('a \<Rightarrow> bool) \<Rightarrow> 'a ordered \<Rightarrow> bool" where
  "rollback_keeps ctx removed acceptance_order kept_turn e =
     (case rollback_order ctx removed acceptance_order of
        Some ord \<Rightarrow> entry_order e < ord | None \<Rightarrow> kept_turn (entry_value e))"

fun message_log :: "json_sizes \<Rightarrow> retained_context \<Rightarrow> retained_op \<Rightarrow> user_message ordered list
    \<Rightarrow> user_message ordered list" where
  "message_log sizes ctx (RecordMessage m acceptance_order) log =
     log_record (bound_message sizes) same_message (snd (record_order ctx acceptance_order)) m log"
| "message_log sizes ctx (Rollback turn_ids removed acceptance_order) log =
     log_retain (bound_message sizes)
       (rollback_keeps ctx removed acceptance_order (\<lambda>m. message_turn_id m \<notin> set turn_ids)) log"
| "message_log sizes ctx op log = log"

fun answer_log :: "json_sizes \<Rightarrow> retained_context \<Rightarrow> retained_op \<Rightarrow> verified_answer ordered list
    \<Rightarrow> verified_answer ordered list" where
  "answer_log sizes ctx (RecordEvent (VerifiedAnswerEvent a acceptance_order)) log =
     log_record (bound_answer sizes) same_answer (snd (record_order ctx acceptance_order)) a log"
| "answer_log sizes ctx (RetainAnswers keep) log =
     log_retain (bound_answer sizes) (\<lambda>e. keep (entry_value e)) log"
| "answer_log sizes ctx (Rollback turn_ids removed acceptance_order) log =
     log_retain (bound_answer sizes)
       (rollback_keeps ctx removed acceptance_order (\<lambda>a. answer_turn_id a \<notin> set turn_ids)) log"
| "answer_log sizes ctx op log = log"

fun run_logs :: "json_sizes \<Rightarrow> retained_op list \<Rightarrow> retained_context
    \<Rightarrow> user_message ordered list \<times> verified_answer ordered list
    \<Rightarrow> (user_message ordered list \<times> verified_answer ordered list) option" where
  "run_logs sizes [] ctx logs = Some logs"
| "run_logs sizes (op # ops) ctx (ms, as) =
     Option.bind (apply_op sizes op ctx) (\<lambda>ctx'.
       run_logs sizes ops ctx' (message_log sizes ctx op ms, answer_log sizes ctx op as))"

definition messages_follow :: "json_sizes \<Rightarrow> retained_context \<Rightarrow> user_message ordered list \<Rightarrow> bool" where
  "messages_follow sizes ctx log \<longleftrightarrow>
     fit (bound_message sizes) (size_of_messages sizes) (next_order ctx) (user_messages ctx) \<and>
     (\<not> user_messages_incomplete ctx \<longrightarrow>
        user_messages ctx = map (entry_value_update (bound_message sizes)) log)"

definition answers_follow :: "json_sizes \<Rightarrow> retained_context \<Rightarrow> verified_answer ordered list \<Rightarrow> bool" where
  "answers_follow sizes ctx log \<longleftrightarrow>
     fit (bound_answer sizes) (size_of_answers sizes) (next_order ctx) (verified_answers ctx) \<and>
     (\<not> verified_answers_incomplete ctx \<longrightarrow>
        verified_answers ctx = map (entry_value_update (bound_answer sizes)) log)"

lemmas follow_defs = messages_follow_def answers_follow_def

lemma record_order_simps [simp]:
  "fst (record_order ctx acc) = ctx\<lparr>next_order := max (next_order ctx) (saturating_add (snd (record_order ctx acc)) 1)\<rparr>"
  "snd (record_order (ctx\<lparr>user_messages := ms\<rparr>) acc) = snd (record_order ctx acc)"
  "snd (record_order (ctx\<lparr>verified_answers := as\<rparr>) acc) = snd (record_order ctx acc)"
  by (simp_all add: record_order_def Let_def split: option.split)

lemma push_message_follows:
  assumes laws: "json_laws sizes" and others: "set others \<subseteq> set (user_messages ctx)"
    and follow: "messages_follow sizes ctx log"
  shows "\<exists>items inc. push_message sizes (ctx\<lparr>user_messages := others\<rparr>) (bound_message sizes m) acc
      = Some (ctx\<lparr>next_order := max (next_order ctx) (saturating_add (snd (record_order ctx acc)) 1),
           user_messages := items, user_messages_incomplete := inc\<rparr>) \<and>
    fit (bound_message sizes) (size_of_messages sizes)
      (max (next_order ctx) (saturating_add (snd (record_order ctx acc)) 1)) items \<and>
    (\<not> inc \<longrightarrow> \<not> user_messages_incomplete ctx \<and> items = sort_key entry_order
       (others @ [\<lparr>entry_order = snd (record_order ctx acc), entry_value = bound_message sizes m\<rparr>]))"
proof -
  have "shrinking (size_of_messages sizes)" using laws by (simp add: json_laws_def)
  moreover have "list_all (\<lambda>e. bound_message sizes (entry_value e) = entry_value e \<and>
      saturating_add (entry_order e) 1 \<le> next_order ctx) others"
    using follow others by (auto simp: messages_follow_def fit_def list_all_iff)
  ultimately obtain items inc where
    "bound_family (size_of_messages sizes)
       (others @ [\<lparr>entry_order = snd (record_order ctx acc), entry_value = bound_message sizes m\<rparr>])
       (user_messages_incomplete ctx) = Some (items, inc)" and
    rest: "fit (bound_message sizes) (size_of_messages sizes)
       (max (next_order ctx) (saturating_add (snd (record_order ctx acc)) 1)) items"
      "\<not> inc \<longrightarrow> \<not> user_messages_incomplete ctx \<and> items = sort_key entry_order
         (others @ [\<lparr>entry_order = snd (record_order ctx acc), entry_value = bound_message sizes m\<rparr>])"
    using messages.push_log by blast
  then have "push_message sizes (ctx\<lparr>user_messages := others\<rparr>) (bound_message sizes m) acc
      = Some (ctx\<lparr>next_order := max (next_order ctx) (saturating_add (snd (record_order ctx acc)) 1),
           user_messages := items, user_messages_incomplete := inc\<rparr>)"
    by (simp add: push_message_def split_def Let_def)
  then show ?thesis using rest by blast
qed

lemma push_answer_follows:
  assumes laws: "json_laws sizes" and others: "set others \<subseteq> set (verified_answers ctx)"
    and follow: "answers_follow sizes ctx log"
  shows "\<exists>items inc. push_answer sizes (ctx\<lparr>verified_answers := others\<rparr>) (bound_answer sizes a) acc
      = Some (ctx\<lparr>next_order := max (next_order ctx) (saturating_add (snd (record_order ctx acc)) 1),
           verified_answers := items, verified_answers_incomplete := inc\<rparr>) \<and>
    fit (bound_answer sizes) (size_of_answers sizes)
      (max (next_order ctx) (saturating_add (snd (record_order ctx acc)) 1)) items \<and>
    (\<not> inc \<longrightarrow> \<not> verified_answers_incomplete ctx \<and> items = sort_key entry_order
       (others @ [\<lparr>entry_order = snd (record_order ctx acc), entry_value = bound_answer sizes a\<rparr>]))"
proof -
  have "shrinking (size_of_answers sizes)" using laws by (simp add: json_laws_def)
  moreover have "list_all (\<lambda>e. bound_answer sizes (entry_value e) = entry_value e \<and>
      saturating_add (entry_order e) 1 \<le> next_order ctx) others"
    using follow others by (auto simp: answers_follow_def fit_def list_all_iff)
  ultimately obtain items inc where
    "bound_family (size_of_answers sizes)
       (others @ [\<lparr>entry_order = snd (record_order ctx acc), entry_value = bound_answer sizes a\<rparr>])
       (verified_answers_incomplete ctx) = Some (items, inc)" and
    rest: "fit (bound_answer sizes) (size_of_answers sizes)
       (max (next_order ctx) (saturating_add (snd (record_order ctx acc)) 1)) items"
      "\<not> inc \<longrightarrow> \<not> verified_answers_incomplete ctx \<and> items = sort_key entry_order
         (others @ [\<lparr>entry_order = snd (record_order ctx acc), entry_value = bound_answer sizes a\<rparr>])"
    using answers.push_log by blast
  then have "push_answer sizes (ctx\<lparr>verified_answers := others\<rparr>) (bound_answer sizes a) acc
      = Some (ctx\<lparr>next_order := max (next_order ctx) (saturating_add (snd (record_order ctx acc)) 1),
           verified_answers := items, verified_answers_incomplete := inc\<rparr>)"
    by (simp add: push_answer_def split_def Let_def)
  then show ?thesis using rest by blast
qed

lemma record_message_follows:
  assumes laws: "json_laws sizes" and follow: "messages_follow sizes ctx log" "answers_follow sizes ctx as"
  shows "\<exists>ctx'. record_user_message sizes ctx m acc = Some ctx' \<and>
    messages_follow sizes ctx' (message_log sizes ctx (RecordMessage m acc) log) \<and>
    answers_follow sizes ctx' as"
proof -
  let ?m = "bound_message sizes m"
  have keep: "fit (bound_answer sizes) (size_of_answers sizes) (max (next_order ctx) n) (verified_answers ctx)" for n
    using answers.fit_mono follow(2) by (auto simp: answers_follow_def)
  show ?thesis
  proof (cases "take_first (same_message ?m) (user_messages ctx)")
    case None
    from push_message_follows [OF laws _ follow(1), of "user_messages ctx" m acc] None keep follow
    show ?thesis by (auto simp: record_user_message_def follow_defs messages.log_record_bounded)
  next
    case (Some found)
    then obtain e others where found: "take_first (same_message ?m) (user_messages ctx) = Some (e, others)"
      by (cases found) auto
    show ?thesis
    proof (cases "entry_value e = ?m")
      case True
      then show ?thesis using found follow
        by (auto simp: record_user_message_def follow_defs messages.log_record_bounded)
    next
      case False
      have "set others \<subseteq> set (user_messages ctx)" using take_first_set [OF found] by auto
      from push_message_follows [OF laws this follow(1), of m acc] found False keep follow
      show ?thesis by (auto simp: record_user_message_def follow_defs messages.log_record_bounded)
    qed
  qed
qed

lemma record_answer_follows:
  assumes laws: "json_laws sizes" and follow: "messages_follow sizes ctx ms" "answers_follow sizes ctx log"
  shows "\<exists>ctx' added. record_event sizes ctx (VerifiedAnswerEvent a acc) = Some (ctx', added) \<and>
    messages_follow sizes ctx' ms \<and>
    answers_follow sizes ctx' (answer_log sizes ctx (RecordEvent (VerifiedAnswerEvent a acc)) log)"
proof -
  let ?a = "bound_answer sizes a"
  have keep: "fit (bound_message sizes) (size_of_messages sizes) (max (next_order ctx) n) (user_messages ctx)" for n
    using messages.fit_mono follow(1) by (auto simp: messages_follow_def)
  show ?thesis
  proof (cases "take_first (same_answer ?a) (verified_answers ctx)")
    case None
    from push_answer_follows [OF laws _ follow(2), of "verified_answers ctx" a acc] None keep follow
    show ?thesis by (auto simp: record_event_def follow_defs answers.log_record_bounded)
  next
    case (Some found)
    then obtain e others where found: "take_first (same_answer ?a) (verified_answers ctx) = Some (e, others)"
      by (cases found) auto
    show ?thesis
    proof (cases "entry_value e = ?a")
      case True
      then show ?thesis using found follow
        by (auto simp: record_event_def follow_defs answers.log_record_bounded)
    next
      case False
      have "set others \<subseteq> set (verified_answers ctx)" using take_first_set [OF found] by auto
      from push_answer_follows [OF laws this follow(2), of a acc] found False keep follow
      show ?thesis by (auto simp: record_event_def follow_defs answers.log_record_bounded)
    qed
  qed
qed

lemma rollback_follows:
  assumes laws: "json_laws sizes" and follow: "messages_follow sizes ctx ms" "answers_follow sizes ctx as"
  shows "messages_follow sizes (rollback ctx turn_ids removed acc) (message_log sizes ctx (Rollback turn_ids removed acc) ms)"
    "answers_follow sizes (rollback ctx turn_ids removed acc) (answer_log sizes ctx (Rollback turn_ids removed acc) as)"
proof -
  have shrink: "shrinking (size_of_messages sizes)" "shrinking (size_of_answers sizes)"
    using laws by (simp_all add: json_laws_def)
  have eq: "user_messages (rollback ctx turn_ids removed acc) =
      filter (rollback_keeps ctx removed acc (\<lambda>m. message_turn_id m \<notin> set turn_ids)) (user_messages ctx)"
    "verified_answers (rollback ctx turn_ids removed acc) =
      filter (rollback_keeps ctx removed acc (\<lambda>a. answer_turn_id a \<notin> set turn_ids)) (verified_answers ctx)"
    "next_order (rollback ctx turn_ids removed acc) = next_order ctx"
    "verified_answers_incomplete (rollback ctx turn_ids removed acc) = verified_answers_incomplete ctx"
    "user_messages_incomplete ctx \<Longrightarrow> user_messages_incomplete (rollback ctx turn_ids removed acc)"
    by (simp_all add: rollback_def rollback_keeps_def [abs_def] split: option.split)
  show "messages_follow sizes (rollback ctx turn_ids removed acc) (message_log sizes ctx (Rollback turn_ids removed acc) ms)"
    "answers_follow sizes (rollback ctx turn_ids removed acc) (answer_log sizes ctx (Rollback turn_ids removed acc) as)"
    using follow eq shrink
    by (auto simp: follow_defs messages.bounded_retain answers.bounded_retain
        intro: messages.fit_filter answers.fit_filter)
qed

lemma raise_order_fixed:
  "list_all (\<lambda>e. saturating_add (entry_order e) 1 \<le> n) items \<Longrightarrow> foldl raise_order n items = n"
  by (induction items) (simp_all add: raise_order_def max_absorb1)

lemma restore_follows:
  assumes "messages_follow sizes ctx ms" "answers_follow sizes ctx as"
  shows "restore sizes (Some ctx) = Some ctx"
proof -
  have fit: "fit (bound_message sizes) (size_of_messages sizes) (next_order ctx) (user_messages ctx)"
    "fit (bound_answer sizes) (size_of_answers sizes) (next_order ctx) (verified_answers ctx)"
    using assms by (simp_all add: follow_defs)
  have "foldl raise_order (next_order ctx) (user_messages ctx) = next_order ctx"
    "foldl raise_order (next_order ctx) (verified_answers ctx) = next_order ctx"
    using fit by (auto simp: fit_def list_all_iff intro!: raise_order_fixed)
  then show ?thesis
    by (simp add: restore_def messages.fit_fixed [OF fit(1)] answers.fit_fixed [OF fit(2)])
qed

lemma apply_op_follows:
  assumes laws: "json_laws sizes" and follow: "messages_follow sizes ctx ms" "answers_follow sizes ctx as"
  shows "\<exists>ctx'. apply_op sizes op ctx = Some ctx' \<and>
    messages_follow sizes ctx' (message_log sizes ctx op ms) \<and>
    answers_follow sizes ctx' (answer_log sizes ctx op as)"
proof (cases op)
  case (RecordMessage m acc)
  then show ?thesis using record_message_follows [OF assms] by simp
next
  case (RecordEvent event)
  then show ?thesis using record_answer_follows [OF assms] by (cases event) force
next
  case (Rollback turn_ids removed acc)
  then show ?thesis using rollback_follows [OF assms] by simp
next
  case RestoreCheckpoint
  then show ?thesis using restore_follows [OF follow] follow by simp
next
  case (RetainAnswers keep)
  have "shrinking (size_of_answers sizes)" using laws by (simp add: json_laws_def)
  then show ?thesis using RetainAnswers follow
    by (auto simp: retain_answers_def follow_defs answers.bounded_retain intro: answers.fit_filter)
next
  case ReserveOrder
  then show ?thesis using follow
    by (auto simp: reserve_order_def follow_defs fit_def list_all_iff saturating_add_def)
qed (use follow in \<open>auto simp: follow_defs mark_user_messages_incomplete_def\<close>)


lemma run_ops_follows:
  assumes "json_laws sizes" "messages_follow sizes ctx ms" "answers_follow sizes ctx as"
  shows "\<exists>ctx' ms' as'. run_ops sizes ops ctx = Some ctx' \<and> run_logs sizes ops ctx (ms, as) = Some (ms', as') \<and>
    messages_follow sizes ctx' ms' \<and> answers_follow sizes ctx' as'"
  using assms(2,3)
proof (induction ops arbitrary: ctx ms as)
  case (Cons op ops)
  from apply_op_follows [OF assms(1) Cons.prems, of op] obtain ctx' where
    "apply_op sizes op ctx = Some ctx'" "messages_follow sizes ctx' (message_log sizes ctx op ms)"
    "answers_follow sizes ctx' (answer_log sizes ctx op as)" by blast
  with Cons.IH show ?case by fastforce
qed simp

lemma start_follows:
  "json_laws sizes \<Longrightarrow> messages_follow sizes default_context [] \<and> answers_follow sizes default_context []"
  by (simp add: json_laws_def shrinking_def follow_defs fit_def default_context_def)

lemmas run_ops_start = run_ops_follows [OF _ conjunct1 [OF start_follows] conjunct2 [OF start_follows]]

section \<open>What is retained\<close>

text \<open>A JSON library in miniature: the size of a record is its text, of a family its length.\<close>

definition plain_sizes :: json_sizes where
  "plain_sizes =
     \<lparr>size_of_message = \<lambda>m. Some (str_len (message_text m)),
      size_of_answer = \<lambda>a. Some (length (answer_questions a)),
      size_of_messages = \<lambda>ms. Some (2 + length ms),
      size_of_answers = \<lambda>as. Some (2 + length as)\<rparr>"

lemma plain_sizes_laws: "json_laws plain_sizes"
  by (auto simp: json_laws_def shrinking_def exceeds_def plain_sizes_def MAX_FAMILY_BYTES_def
      dest: less_le_trans [OF _ length_filter_le])

definition plain_message :: "string \<Rightarrow> user_message" where
  "plain_message t =
     \<lparr>message_turn_id = lit ''turn'', message_id = Some (lit t), message_text = lit t, message_complete = True\<rparr>"

text \<open>
  Every sequence of operations on a new context returns. The user's messages and the verified
  answers are then each at most eight records and 64 KiB of JSON, in the order of acceptance, and
  every record is within its own bound or reduced to its identifiers.
\<close>

lemma retained_context_bounded:
  assumes "json_laws sizes"
  shows "\<exists>ctx. run_ops sizes ops default_context = Some ctx \<and>
    length (user_messages ctx) \<le> 8 \<and> length (verified_answers ctx) \<le> 8 \<and>
    (\<exists>n\<le>65536. size_of_messages sizes (user_messages ctx) = Some n) \<and>
    (\<exists>n\<le>65536. size_of_answers sizes (verified_answers ctx) = Some n) \<and>
    sorted (map entry_order (user_messages ctx)) \<and> sorted (map entry_order (verified_answers ctx)) \<and>
    list_all (\<lambda>e. bound_message sizes (entry_value e) = entry_value e) (user_messages ctx) \<and>
    list_all (\<lambda>e. bound_answer sizes (entry_value e) = entry_value e) (verified_answers ctx)"
  using run_ops_start [OF assms assms assms, of ops]
  by (auto simp: follow_defs fit_def exceeds_def MAX_FAMILY_RECORDS_def MAX_FAMILY_BYTES_def
      list_all_iff not_less split: option.splits)

text \<open>
  C37. A context that reports its user messages as complete holds every message recorded since the
  thread began and not rolled back, unchanged, and likewise for the verified answers: whatever was
  evicted, cut or skipped makes the context report that it is incomplete.
\<close>

theorem complete_context_has_everything:
  assumes "json_laws sizes"
  shows "\<exists>ctx ms as. run_ops sizes ops default_context = Some ctx \<and>
    run_logs sizes ops default_context ([], []) = Some (ms, as) \<and>
    (user_messages_complete ctx \<longrightarrow> user_messages ctx = ms) \<and>
    (verified_answers_complete ctx \<longrightarrow> verified_answers ctx = as)"
proof -
  obtain ctx ms as where run: "run_ops sizes ops default_context = Some ctx"
    "run_logs sizes ops default_context ([], []) = Some (ms, as)"
    and follow: "messages_follow sizes ctx ms" "answers_follow sizes ctx as"
    using run_ops_start [OF assms assms assms, of ops] by blast
  have "user_messages ctx = ms" if "user_messages_complete ctx"
    using that follow(1) messages.bounded_complete [of sizes ms]
    by (simp add: user_messages_complete_def messages_follow_def)
  moreover have "verified_answers ctx = as" if "verified_answers_complete ctx"
    using that follow(2) answers.bounded_complete [of sizes as]
    by (simp add: verified_answers_complete_def answers_follow_def)
  ultimately show ?thesis using run by blast
qed

theorem complete_context_has_everything_witness:
  "\<exists>ctx ms as.
     run_ops plain_sizes [ReserveOrder, RecordMessage (plain_message ''b'') None, RecordMessage (plain_message ''a'') (Some 0)]
       default_context = Some ctx \<and>
     run_logs plain_sizes [ReserveOrder, RecordMessage (plain_message ''b'') None, RecordMessage (plain_message ''a'') (Some 0)]
       default_context ([], []) = Some (ms, as) \<and>
     user_messages_complete ctx \<and> user_messages ctx = ms \<and>
     map entry_value ms = [plain_message ''a'', plain_message ''b'']"
proof -
  let ?ops = "[ReserveOrder, RecordMessage (plain_message ''b'') None, RecordMessage (plain_message ''a'') (Some 0)]"
  have "user_messages_complete ctx \<and> map entry_value (user_messages ctx) = [plain_message ''a'', plain_message ''b'']"
    if "run_ops plain_sizes ?ops default_context = Some ctx" for ctx
    using that
    by (auto simp: default_context_def reserve_order_def record_user_message_def push_message_def
        record_order_def bound_message_def exceeds_def plain_sizes_def plain_message_def lit_def
        len_utf8_def saturating_add_def usize_max_def MAX_RECORD_BYTES_def MAX_FAMILY_RECORDS_def
        MAX_FAMILY_BYTES_def same_message_def bound_family_def evict_fits user_messages_complete_def)
  then show ?thesis using complete_context_has_everything [OF plain_sizes_laws, of ?ops] by auto
qed

text \<open>
  C38. Restoring the checkpoint of a context that any operations have produced gives that context
  back: the limits applied again on restoring lose nothing.
\<close>

theorem checkpoint_round_trip:
  assumes "json_laws sizes"
  shows "\<exists>ctx. run_ops sizes ops default_context = Some ctx \<and> restore sizes (Some ctx) = Some ctx"
  using run_ops_start [OF assms assms assms, of ops] restore_follows by blast

theorem checkpoint_round_trip_witness:
  "\<exists>ctx. run_ops plain_sizes [RecordMessage (plain_message ''a'') (Some 7), ReserveOrder] default_context = Some ctx \<and>
    restore plain_sizes (Some ctx) = Some ctx"
  by (rule checkpoint_round_trip [OF plain_sizes_laws])

end
