(* ===== verification/Network_Address.thy ===== *)
theory Network_Address
  imports Hexa_Prelude "HOL-Library.Word"
begin

text \<open>
  Hosts of the network proxy, \<open>network-proxy/src/policy.rs\<close>: the classification of IP addresses, the
  normalisation of host names and the domain patterns of the policy. An IPv4 address is a 32 bit word
  and an IPv6 address a 128 bit word. The classifications of addresses and the parser of IP literals
  are those of the standard library (\<open>core::net\<close>), which the source relies on.

  Globs are compiled and matched by the third-party crate \<open>globset\<close> and domains of managed patterns are
  checked by the crate \<open>url\<close>; both are parameters.
\<close>

unbundle bit_operations_syntax

section \<open>Addresses\<close>

type_synonym ipv4_addr = "32 word"

type_synonym ipv6_addr = "128 word"

datatype ip_addr = V4 ipv4_addr | V6 ipv6_addr

definition ipv4_of_octets :: "nat list \<Rightarrow> ipv4_addr" where
  "ipv4_of_octets os = foldl (\<lambda>acc b. push_bit 8 acc OR of_nat b) 0 os"

definition ipv4_octet :: "nat \<Rightarrow> ipv4_addr \<Rightarrow> ipv4_addr" where
  "ipv4_octet i ip = drop_bit (24 - 8 * i) ip AND 255"

definition ipv6_segment :: "nat \<Rightarrow> ipv6_addr \<Rightarrow> 16 word" where
  "ipv6_segment i ip = ucast (drop_bit (112 - 16 * i) ip)"

definition is_loopback_v4 :: "ipv4_addr \<Rightarrow> bool" where
  "is_loopback_v4 ip \<longleftrightarrow> ipv4_octet 0 ip = 127"

definition is_private_v4 :: "ipv4_addr \<Rightarrow> bool" where
  "is_private_v4 ip \<longleftrightarrow>
     ipv4_octet 0 ip = 10
     \<or> ipv4_octet 0 ip = 172 \<and> 16 \<le> ipv4_octet 1 ip \<and> ipv4_octet 1 ip \<le> 31
     \<or> ipv4_octet 0 ip = 192 \<and> ipv4_octet 1 ip = 168"

definition is_link_local_v4 :: "ipv4_addr \<Rightarrow> bool" where
  "is_link_local_v4 ip \<longleftrightarrow> ipv4_octet 0 ip = 169 \<and> ipv4_octet 1 ip = 254"

definition is_multicast_v4 :: "ipv4_addr \<Rightarrow> bool" where
  "is_multicast_v4 ip \<longleftrightarrow> 224 \<le> ipv4_octet 0 ip \<and> ipv4_octet 0 ip \<le> 239"

definition to_ipv4 :: "ipv6_addr \<Rightarrow> ipv4_addr option" where
  "to_ipv4 ip =
     (if drop_bit 32 ip = 0 \<or> drop_bit 32 ip = 0xffff then Some (ucast ip) else None)"

fun ip_is_loopback :: "ip_addr \<Rightarrow> bool" where
  "ip_is_loopback (V4 ip) = is_loopback_v4 ip"
| "ip_is_loopback (V6 ip) = (ip = 1)"

definition ipv4_in_cidr :: "ipv4_addr \<Rightarrow> nat list \<Rightarrow> nat \<Rightarrow> bool" where
  "ipv4_in_cidr ip base prefix_len =
     (let mask = (if prefix_len = 0 then 0 else push_bit (32 - prefix_len) (- 1))
      in ip AND mask = ipv4_of_octets base AND mask)"

definition is_non_public_ipv4 :: "ipv4_addr \<Rightarrow> bool" where
  "is_non_public_ipv4 ip \<longleftrightarrow>
     is_loopback_v4 ip
     \<or> is_private_v4 ip
     \<or> is_link_local_v4 ip
     \<or> ip = 0
     \<or> is_multicast_v4 ip
     \<or> ip = 0xffffffff
     \<or> ipv4_in_cidr ip [0, 0, 0, 0] 8
     \<or> ipv4_in_cidr ip [100, 64, 0, 0] 10
     \<or> ipv4_in_cidr ip [192, 0, 0, 0] 24
     \<or> ipv4_in_cidr ip [192, 0, 2, 0] 24
     \<or> ipv4_in_cidr ip [198, 18, 0, 0] 15
     \<or> ipv4_in_cidr ip [198, 51, 100, 0] 24
     \<or> ipv4_in_cidr ip [203, 0, 113, 0] 24
     \<or> ipv4_in_cidr ip [240, 0, 0, 0] 4"

definition is_non_public_ipv6 :: "ipv6_addr \<Rightarrow> bool" where
  "is_non_public_ipv6 ip =
     (case to_ipv4 ip of
        Some v4 \<Rightarrow> is_non_public_ipv4 v4 \<or> ip = 1
      | None \<Rightarrow>
          ip = 1
          \<or> ip = 0
          \<or> ipv6_segment 0 ip AND 0xff00 = 0xff00
          \<or> ipv6_segment 0 ip AND 0xfe00 = 0xfc00
          \<or> ipv6_segment 0 ip AND 0xffc0 = 0xfe80)"

fun is_non_public_ip :: "ip_addr \<Rightarrow> bool" where
  "is_non_public_ip (V4 ip) = is_non_public_ipv4 ip"
| "is_non_public_ip (V6 ip) = is_non_public_ipv6 ip"

section \<open>The parser of IP literals\<close>

text \<open>
  A reader takes the remaining text and returns the value with what is left, or nothing, in which
  case the text is not consumed.
\<close>

definition digit_value :: "nat \<Rightarrow> rchar \<Rightarrow> nat option" where
  "digit_value radix c =
     (let d = (if 48 \<le> c \<and> c \<le> 57 then c - 48
               else if 97 \<le> c \<and> c \<le> 122 then c - 87
               else if 65 \<le> c \<and> c \<le> 90 then c - 55
               else radix)
      in if d < radix then Some d else None)"

fun read_digits :: "nat \<Rightarrow> rstr \<Rightarrow> nat list \<times> rstr" where
  "read_digits radix [] = ([], [])"
| "read_digits radix (c # s) =
     (case digit_value radix c of
        None \<Rightarrow> ([], c # s)
      | Some d \<Rightarrow> (let (ds, rest) = read_digits radix s in (d # ds, rest)))"

definition read_number :: "nat \<Rightarrow> nat \<Rightarrow> bool \<Rightarrow> nat \<Rightarrow> rstr \<Rightarrow> (nat \<times> rstr) option" where
  "read_number radix max_digits allow_zero_prefix limit s =
     (let (ds, rest) = read_digits radix s;
          n = foldl (\<lambda>acc d. acc * radix + d) 0 ds
      in if max_digits < length ds \<or> ds = [] then None
         else if \<not> allow_zero_prefix \<and> hd ds = 0 \<and> 1 < length ds then None
         else if n \<le> limit then Some (n, rest) else None)"

definition read_separator :: "rchar \<Rightarrow> nat \<Rightarrow> (rstr \<Rightarrow> ('a \<times> rstr) option) \<Rightarrow> rstr \<Rightarrow> ('a \<times> rstr) option" where
  "read_separator sep index inner s =
     (if 0 < index
      then (case s of c # rest \<Rightarrow> if c = sep then inner rest else None | [] \<Rightarrow> None)
      else inner s)"

fun read_octets :: "nat \<Rightarrow> nat \<Rightarrow> rstr \<Rightarrow> (nat list \<times> rstr) option" where
  "read_octets 0 index s = Some ([], s)"
| "read_octets (Suc n) index s =
     (case read_separator 46 index (read_number 10 3 False 255) s of
        None \<Rightarrow> None
      | Some (b, rest) \<Rightarrow>
          map_option (\<lambda>(bs, rest). (b # bs, rest)) (read_octets n (Suc index) rest))"

definition read_ipv4_addr :: "rstr \<Rightarrow> (nat list \<times> rstr) option" where
  "read_ipv4_addr s = read_octets 4 0 s"

text \<open>The groups read, whether an embedded IPv4 address ended them, and the rest of the text.\<close>

fun read_groups :: "nat \<Rightarrow> nat \<Rightarrow> rstr \<Rightarrow> nat list \<times> bool \<times> rstr" where
  "read_groups 0 index s = ([], False, s)"
| "read_groups (Suc n) index s =
     (case (if 0 < n then read_separator 58 index read_ipv4_addr s else None) of
        Some (os, rest) \<Rightarrow> ([os ! 0 * 256 + os ! 1, os ! 2 * 256 + os ! 3], True, rest)
      | None \<Rightarrow>
          (case read_separator 58 index (read_number 16 4 True 65535) s of
             None \<Rightarrow> ([], False, s)
           | Some (g, rest) \<Rightarrow>
               (let (gs, v4, rest) = read_groups n (Suc index) rest in (g # gs, v4, rest))))"

definition ipv6_of_segments :: "nat list \<Rightarrow> ipv6_addr" where
  "ipv6_of_segments gs = foldl (\<lambda>acc g. push_bit 16 acc OR of_nat g) 0 gs"

definition read_ipv6_addr :: "rstr \<Rightarrow> (ipv6_addr \<times> rstr) option" where
  "read_ipv6_addr s =
     (let (head, head_ipv4, rest) = read_groups 8 0 s in
      if length head = 8 then Some (ipv6_of_segments head, rest)
      else if head_ipv4 then None
      else (case rest of
              c # c' # rest \<Rightarrow>
                if c = 58 \<and> c' = 58
                then (let (tail, _, rest) = read_groups (8 - (length head + 1)) 0 rest in
                      Some (ipv6_of_segments
                              (head @ replicate (8 - length head - length tail) 0 @ tail), rest))
                else None
            | _ \<Rightarrow> None))"

definition parse_ip_addr :: "rstr \<Rightarrow> ip_addr option" where
  "parse_ip_addr s =
     (case (case read_ipv4_addr s of
              Some (os, rest) \<Rightarrow> Some (V4 (ipv4_of_octets os), rest)
            | None \<Rightarrow> map_option (\<lambda>(ip, rest). (V6 ip, rest)) (read_ipv6_addr s)) of
        Some (ip, []) \<Rightarrow> Some ip
      | _ \<Rightarrow> None)"

section \<open>Hosts\<close>

fun split_once_str :: "rstr \<Rightarrow> rstr \<Rightarrow> (rstr \<times> rstr) option" where
  "split_once_str d [] = (if d = [] then Some ([], []) else None)"
| "split_once_str d (c # s) =
     (if starts_with (c # s) d then Some ([], drop (length d) (c # s))
      else map_option (\<lambda>(a, b). (c # a, b)) (split_once_str d s))"

definition unscoped_ip_literal :: "rstr \<Rightarrow> rstr option" where
  "unscoped_ip_literal host =
     (case split_once_str (lit ''%'') host of
        None \<Rightarrow> None
      | Some (ip, _) \<Rightarrow> if parse_ip_addr ip \<noteq> None then Some ip else None)"

definition scoped_literal :: "rstr \<Rightarrow> rstr \<Rightarrow> rstr option" where
  "scoped_literal host delimiter =
     (case split_once_str delimiter host of
        None \<Rightarrow> None
      | Some (ip, scope) \<Rightarrow>
          if parse_ip_addr ip \<noteq> None then Some (ip @ lit ''%'' @ scope) else None)"

definition normalize_ip_literal :: "rstr \<Rightarrow> rstr option" where
  "normalize_ip_literal host =
     (if parse_ip_addr host \<noteq> None then Some host
      else find_map (scoped_literal host) [lit ''%25'', lit ''%''])"

definition normalize_dns_host_or_ip_literal :: "rstr \<Rightarrow> rstr" where
  "normalize_dns_host_or_ip_literal host =
     (let host = trim_end_matches (\<lambda>c. c = 46) (to_ascii_lowercase host) in
      case normalize_ip_literal host of Some ip \<Rightarrow> ip | None \<Rightarrow> host)"

definition normalize_host :: "rstr \<Rightarrow> rstr" where
  "normalize_host host =
     (let host = trim host in
      if starts_with host (lit ''['') \<and> 93 \<in> set host
      then normalize_dns_host_or_ip_literal (takeWhile (\<lambda>c. c \<noteq> 93) (tl host))
      else if length (filter (\<lambda>c. c = 58) host) = 1
      then normalize_dns_host_or_ip_literal (hd (split_char 58 host))
      else normalize_dns_host_or_ip_literal host)"

definition parse_host :: "rstr \<Rightarrow> rstr + rstr" where
  "parse_host input =
     (let normalized = normalize_host input in
      if normalized = [] then Inl (lit ''host is empty'') else Inr normalized)"

definition is_loopback_host :: "rstr \<Rightarrow> bool" where
  "is_loopback_host host =
     (let host = (case unscoped_ip_literal host of Some ip \<Rightarrow> ip | None \<Rightarrow> host) in
      if host = lit ''localhost'' then True
      else (case parse_ip_addr host of Some ip \<Rightarrow> ip_is_loopback ip | None \<Rightarrow> False))"

section \<open>Domain patterns\<close>

definition normalize_pattern :: "rstr \<Rightarrow> rstr" where
  "normalize_pattern pat =
     (let pat = trim pat in
      if pat = lit ''*'' then lit ''*''
      else
        let (wildcard, remainder) =
          (case strip_prefix pat (lit ''**.'') of
             Some domain \<Rightarrow> (lit ''**.'', domain)
           | None \<Rightarrow>
               (case strip_prefix pat (lit ''*.'') of
                  Some domain \<Rightarrow> (lit ''*.'', domain)
                | None \<Rightarrow> ([], pat)));
            remainder = normalize_host remainder
        in if wildcard = [] then remainder else wildcard @ remainder)"

datatype domain_pattern = ApexAndSubdomains rstr | SubdomainsOnly rstr | Exact rstr

definition parse_domain :: "(rstr \<Rightarrow> domain_pattern) \<Rightarrow> rstr \<Rightarrow> domain_pattern" where
  "parse_domain build domain =
     (let domain = trim domain in if domain = [] then Exact [] else build domain)"

definition parse_domain_pattern :: "rstr \<Rightarrow> domain_pattern" where
  "parse_domain_pattern input =
     (let input = trim input in
      if input = [] then Exact []
      else case strip_prefix input (lit ''**.'') of
             Some domain \<Rightarrow> parse_domain ApexAndSubdomains domain
           | None \<Rightarrow>
               (case strip_prefix input (lit ''*.'') of
                  Some domain \<Rightarrow> parse_domain SubdomainsOnly domain
                | None \<Rightarrow> Exact input))"

fun pattern_candidates :: "domain_pattern \<Rightarrow> rstr list" where
  "pattern_candidates (Exact domain) = [domain]"
| "pattern_candidates (SubdomainsOnly domain) = [lit ''?*.'' @ domain]"
| "pattern_candidates (ApexAndSubdomains domain) = [domain, lit ''?*.'' @ domain]"

definition expand_domain_pattern :: "rstr \<Rightarrow> rstr list" where
  "expand_domain_pattern pat = pattern_candidates (parse_domain_pattern pat)"

definition is_global_wildcard_domain_pattern :: "rstr \<Rightarrow> bool" where
  "is_global_wildcard_domain_pattern pat \<longleftrightarrow>
     list_ex (\<lambda>candidate. candidate = lit ''*'') (expand_domain_pattern (normalize_pattern pat))"

text \<open>
  The crate \<open>url\<close> parses a host and prints it: \<open>url_host\<close> is the printed host, or nothing when the
  host is invalid.
\<close>

definition parse_domain_for_constraints :: "(rstr \<Rightarrow> rstr option) \<Rightarrow> rstr \<Rightarrow> rstr" where
  "parse_domain_for_constraints url_host input =
     (let domain = trim_end_matches (\<lambda>c. c = 46) (trim input) in
      if domain = [] then []
      else
        let bracketed = starts_with domain (lit ''['') \<and> ends_with domain (lit '']'');
            host = (if bracketed then butlast (tl domain) else domain)
        in if 42 \<in> set host \<or> 63 \<in> set host \<or> 37 \<in> set host then domain
           else (case url_host host of Some printed \<Rightarrow> printed | None \<Rightarrow> []))"

definition parse_for_constraints :: "(rstr \<Rightarrow> rstr option) \<Rightarrow> rstr \<Rightarrow> domain_pattern" where
  "parse_for_constraints url_host input =
     (let input = trim input in
      if input = [] then Exact []
      else case strip_prefix input (lit ''**.'') of
             Some domain \<Rightarrow> ApexAndSubdomains (parse_domain_for_constraints url_host domain)
           | None \<Rightarrow>
               (case strip_prefix input (lit ''*.'') of
                  Some domain \<Rightarrow> SubdomainsOnly (parse_domain_for_constraints url_host domain)
                | None \<Rightarrow> Exact (parse_domain_for_constraints url_host input)))"

definition normalize_domain :: "rstr \<Rightarrow> rstr" where
  "normalize_domain domain = to_ascii_lowercase (trim_end_matches (\<lambda>c. c = 46) domain)"

definition domain_eq :: "rstr \<Rightarrow> rstr \<Rightarrow> bool" where
  "domain_eq left right \<longleftrightarrow> normalize_domain left = normalize_domain right"

definition is_subdomain_or_equal :: "rstr \<Rightarrow> rstr \<Rightarrow> bool" where
  "is_subdomain_or_equal child parent =
     (let child = normalize_domain child; parent = normalize_domain parent in
      if child = parent then True else ends_with child (lit ''.'' @ parent))"

definition is_strict_subdomain :: "rstr \<Rightarrow> rstr \<Rightarrow> bool" where
  "is_strict_subdomain child parent =
     (let child = normalize_domain child; parent = normalize_domain parent in
      child \<noteq> parent \<and> ends_with child (lit ''.'' @ parent))"

fun allows :: "domain_pattern \<Rightarrow> domain_pattern \<Rightarrow> bool" where
  "allows (Exact domain) (Exact candidate) = domain_eq candidate domain"
| "allows (Exact domain) _ = False"
| "allows (SubdomainsOnly domain) (Exact candidate) = is_strict_subdomain candidate domain"
| "allows (SubdomainsOnly domain) (SubdomainsOnly candidate) = is_subdomain_or_equal candidate domain"
| "allows (SubdomainsOnly domain) (ApexAndSubdomains candidate) = is_strict_subdomain candidate domain"
| "allows (ApexAndSubdomains domain) (Exact candidate) = is_subdomain_or_equal candidate domain"
| "allows (ApexAndSubdomains domain) (SubdomainsOnly candidate) = is_subdomain_or_equal candidate domain"
| "allows (ApexAndSubdomains domain) (ApexAndSubdomains candidate) = is_subdomain_or_equal candidate domain"

section \<open>Sets of patterns\<close>

text \<open>
  What the proxy uses of \<open>globset\<close>: whether a glob and a set of globs can be built, and whether a
  glob, built without regard to case, matches a host. A set is the list of its globs.
\<close>

record globs =
  glob_builds :: "rstr \<Rightarrow> bool"
  glob_set_builds :: "rstr list \<Rightarrow> bool"
  glob_matches :: "rstr \<Rightarrow> rstr \<Rightarrow> bool"

type_synonym glob_set = "rstr list"

datatype global_wildcard = AllowGlobal | RejectGlobal

datatype glob_error = UnsupportedGlobalWildcard | InvalidGlob rstr | GlobSetTooBig

fun add_candidates ::
  "globs \<Rightarrow> rstr list \<Rightarrow> glob_set \<Rightarrow> glob_error + glob_set" where
  "add_candidates gl [] built = Inr built"
| "add_candidates gl (candidate # rest) built =
     (if candidate \<in> set built then add_candidates gl rest built
      else if glob_builds gl candidate then add_candidates gl rest (built @ [candidate])
      else Inl (InvalidGlob candidate))"

fun add_patterns ::
  "globs \<Rightarrow> global_wildcard \<Rightarrow> rstr list \<Rightarrow> glob_set \<Rightarrow> glob_error + glob_set" where
  "add_patterns gl wildcard [] built = Inr built"
| "add_patterns gl wildcard (pat # pats) built =
     (if wildcard = RejectGlobal \<and> is_global_wildcard_domain_pattern pat
      then Inl UnsupportedGlobalWildcard
      else res_bind (add_candidates gl (expand_domain_pattern (normalize_pattern pat)) built)
             (add_patterns gl wildcard pats))"

definition compile_globset_with_policy ::
  "globs \<Rightarrow> rstr list \<Rightarrow> global_wildcard \<Rightarrow> glob_error + glob_set" where
  "compile_globset_with_policy gl pats wildcard =
     res_bind (add_patterns gl wildcard pats []) (\<lambda>built.
       if glob_set_builds gl built then Inr built else Inl GlobSetTooBig)"

definition compile_allowlist_globset :: "globs \<Rightarrow> rstr list \<Rightarrow> glob_error + glob_set" where
  "compile_allowlist_globset gl pats = compile_globset_with_policy gl pats AllowGlobal"

definition compile_denylist_globset :: "globs \<Rightarrow> rstr list \<Rightarrow> glob_error + glob_set" where
  "compile_denylist_globset gl pats = compile_globset_with_policy gl pats RejectGlobal"

definition set_is_match :: "globs \<Rightarrow> glob_set \<Rightarrow> rstr \<Rightarrow> bool" where
  "set_is_match gl patterns host = list_ex (\<lambda>g. glob_matches gl g host) patterns"

definition globset_matches_host_or_unscoped :: "globs \<Rightarrow> glob_set \<Rightarrow> rstr \<Rightarrow> bool" where
  "globset_matches_host_or_unscoped gl patterns host \<longleftrightarrow>
     set_is_match gl patterns host
     \<or> (case unscoped_ip_literal host of Some ip \<Rightarrow> set_is_match gl patterns ip | None \<Rightarrow> False)"

section \<open>Addresses as numbers\<close>

lemma and_high_mask_eq_iff:
  fixes a b :: "'a::len word"
  shows "a AND push_bit k (- 1) = b AND push_bit k (- 1) \<longleftrightarrow> drop_bit k a = drop_bit k b"
proof
  assume "a AND push_bit k (- 1) = b AND push_bit k (- 1)"
  then have "bit (a AND push_bit k (- 1)) (k + n) = bit (b AND push_bit k (- 1)) (k + n)" for n by simp
  then show "drop_bit k a = drop_bit k b"
    by (auto simp: bit_eq_iff bit_simps dest: bit_imp_le_length)
next
  assume "drop_bit k a = drop_bit k b"
  then have "bit (drop_bit k a) n = bit (drop_bit k b) n" for n by simp
  then have eq: "bit a (k + n) = bit b (k + n)" for n by (simp add: bit_drop_bit_eq)
  have "bit a n = bit b n" if "k \<le> n" for n using eq [of "n - k"] that by simp
  then show "a AND push_bit k (- 1) = b AND push_bit k (- 1)" by (auto simp: bit_eq_iff bit_simps)
qed

lemma div_eq_iff_range: "0 < d \<Longrightarrow> n div d = q \<longleftrightarrow> q * d \<le> n \<and> n < Suc q * d" for n d q :: nat
  by (metis div_nat_eqI dividend_less_div_times less_mult_imp_div_less mult.commute
      mult_Suc nat_less_le times_div_less_eq_dividend)

lemma unat_drop_bit_div: "unat (drop_bit k a) = unat a div 2 ^ k"
  by (subst unat_drop_bit_eq) (rule drop_bit_eq_div)

lemma drop_bit_eq_iff_unat:
  fixes a b :: "'a::len word"
  shows "drop_bit k a = drop_bit k b \<longleftrightarrow> unat a div 2 ^ k = unat b div 2 ^ k"
  by (simp only: word_unat_eq_iff unat_drop_bit_div)

lemma unat_ipv4_octet: "unat (ipv4_octet i ip) = unat ip div 2 ^ (24 - 8 * i) mod 256"
proof -
  have "ipv4_octet i ip = take_bit 8 (drop_bit (24 - 8 * i) ip)"
    by (simp add: ipv4_octet_def take_bit_eq_mask mask_eq_exp_minus_1)
  then have "unat (ipv4_octet i ip) = take_bit 8 (unat (drop_bit (24 - 8 * i) ip))"
    by (simp only: unsigned_take_bit_eq)
  then show ?thesis unfolding unat_drop_bit_div by (simp add: take_bit_eq_mod)
qed

lemma unat_ipv6_segment: "unat (ipv6_segment i ip) = unat ip div 2 ^ (112 - 16 * i) mod 65536"
  unfolding ipv6_segment_def by (simp only: unsigned_ucast_eq unat_drop_bit_div take_bit_eq_mod) simp

lemma ipv4_in_cidr_div:
  assumes "0 < p" "p \<le> 32"
  shows "ipv4_in_cidr ip base p \<longleftrightarrow> unat ip div 2 ^ (32 - p) = unat (ipv4_of_octets base) div 2 ^ (32 - p)"
proof -
  have "(p = 0) = False" using assms by simp
  then show ?thesis
    by (simp only: ipv4_in_cidr_def Let_def if_False and_high_mask_eq_iff drop_bit_eq_iff_unat)
qed

lemma octet_numeral: "ipv4_octet i ip = numeral n \<longleftrightarrow> unat (ipv4_octet i ip) = unat (numeral n :: ipv4_addr)"
  by (rule word_unat_eq_iff)

definition in_blocks :: "(nat \<times> nat) list \<Rightarrow> nat \<Rightarrow> bool" where
  "in_blocks blocks n = list_ex (\<lambda>(first, last). first \<le> n \<and> n \<le> last) blocks"

definition non_public_v4_blocks :: "(nat \<times> nat) list" where
  "non_public_v4_blocks =
     [(0x00000000, 0x00ffffff), (0x0a000000, 0x0affffff), (0x64400000, 0x647fffff),
      (0x7f000000, 0x7fffffff), (0xa9fe0000, 0xa9feffff), (0xac100000, 0xac1fffff),
      (0xc0000000, 0xc00000ff), (0xc0000200, 0xc00002ff), (0xc0a80000, 0xc0a8ffff),
      (0xc6120000, 0xc613ffff), (0xc6336400, 0xc63364ff), (0xcb007100, 0xcb0071ff),
      (0xe0000000, 0xffffffff)]"

definition non_public_v6_blocks :: "(nat \<times> nat) list" where
  "non_public_v6_blocks = [(0xfc00, 0xfdff), (0xfe80, 0xfebf), (0xff00, 0xffff)]"

lemma two_octets_range:
  fixes n q lo hi :: nat
  assumes "lo \<le> hi" "hi < 256"
  shows "n div 16777216 = q \<and> lo \<le> n div 65536 mod 256 \<and> n div 65536 mod 256 \<le> hi \<longleftrightarrow>
    (q * 256 + lo) * 65536 \<le> n \<and> n < (q * 256 + hi + 1) * 65536"
proof -
  define m d r where "m = n div 65536" and "d = m div 256" and "r = m mod 256"
  have m: "m = 256 * d + r" "r < 256" by (simp_all add: d_def r_def)
  have d: "n div 16777216 = d" by (simp add: m_def d_def div_mult2_eq [symmetric])
  have "d = q" if "q * 256 + lo \<le> m" "m \<le> q * 256 + hi" using that assms m by linarith
  then have range: "d = q \<and> lo \<le> r \<and> r \<le> hi \<longleftrightarrow> q * 256 + lo \<le> m \<and> m \<le> q * 256 + hi"
    using m by auto
  have lower: "a \<le> m \<longleftrightarrow> a * 65536 \<le> n" for a by (simp add: m_def less_eq_div_iff_mult_less_eq)
  have upper: "m \<le> a \<longleftrightarrow> n < (a + 1) * 65536" for a
    using div_less_iff_less_mult [of 65536 n "a + 1"] by (simp add: m_def less_Suc_eq_le)
  show ?thesis using range unfolding lower upper by (simp only: d m_def [symmetric] r_def [symmetric])
qed

lemma two_octets_eq:
  fixes n q r :: nat
  assumes "r < 256"
  shows "n div 16777216 = q \<and> n div 65536 mod 256 = r \<longleftrightarrow>
    (q * 256 + r) * 65536 \<le> n \<and> n < (q * 256 + r + 1) * 65536"
proof -
  have "n div 65536 mod 256 = r \<longleftrightarrow> r \<le> n div 65536 mod 256 \<and> n div 65536 mod 256 \<le> r" by auto
  then show ?thesis using two_octets_range [of r r n q] assms by (simp only: order_refl)
qed

lemma is_non_public_ipv4_blocks: "is_non_public_ipv4 ip \<longleftrightarrow> in_blocks non_public_v4_blocks (unat ip)"
proof -
  define n where "n = unat ip"
  have bound: "n < 4294967296" using unsigned_less [where 'a = nat, of ip] by (simp add: n_def)
  have octets: "n div 16777216 = 172 \<and> 16 \<le> n div 65536 mod 256 \<and> n div 65536 mod 256 \<le> 31 \<longleftrightarrow>
      2886729728 \<le> n \<and> n \<le> 2887778303"
    "n div 16777216 = 192 \<and> n div 65536 mod 256 = 168 \<longleftrightarrow> 3232235520 \<le> n \<and> n \<le> 3232301055"
    "n div 16777216 = 169 \<and> n div 65536 mod 256 = 254 \<longleftrightarrow> 2851995648 \<le> n \<and> n \<le> 2852061183"
    using two_octets_range [of 16 31 n 172] two_octets_eq [of 168 n 192] two_octets_eq [of 254 n 169]
    by auto
  have blocks: "n div 16777216 = 127 \<longleftrightarrow> 2130706432 \<le> n \<and> n \<le> 2147483647"
    "n div 16777216 = 10 \<longleftrightarrow> 167772160 \<le> n \<and> n \<le> 184549375"
    "n div 4194304 = 401 \<longleftrightarrow> 1681915904 \<le> n \<and> n \<le> 1686110207"
    "n div 256 = 12582912 \<longleftrightarrow> 3221225472 \<le> n \<and> n \<le> 3221225727"
    "n div 256 = 12582914 \<longleftrightarrow> 3221225984 \<le> n \<and> n \<le> 3221226239"
    "n div 131072 = 25353 \<longleftrightarrow> 3323068416 \<le> n \<and> n \<le> 3323199487"
    "n div 256 = 12989284 \<longleftrightarrow> 3325256704 \<le> n \<and> n \<le> 3325256959"
    "n div 256 = 13303921 \<longleftrightarrow> 3405803776 \<le> n \<and> n \<le> 3405804031"
    by (auto simp: div_eq_iff_range)
  have zero: "n = 0 \<or> n div 16777216 = 0 \<longleftrightarrow> n \<le> 16777215" by auto
  have top: "224 \<le> n div 16777216 \<and> n div 16777216 \<le> 239 \<or> n = 4294967295 \<or> n div 268435456 = 15 \<longleftrightarrow>
      3758096384 \<le> n \<and> n \<le> 4294967295"
    using bound div_eq_iff_range [of 268435456 n 15] div_less_iff_less_mult [of 16777216 n 240]
    by (auto simp: less_eq_div_iff_mult_less_eq)
  have "is_non_public_ipv4 ip \<longleftrightarrow>
      n div 16777216 = 127 \<or> n div 16777216 = 10
      \<or> n div 16777216 = 172 \<and> 16 \<le> n div 65536 mod 256 \<and> n div 65536 mod 256 \<le> 31
      \<or> n div 16777216 = 192 \<and> n div 65536 mod 256 = 168
      \<or> n div 16777216 = 169 \<and> n div 65536 mod 256 = 254
      \<or> n div 4194304 = 401 \<or> n div 256 = 12582912 \<or> n div 256 = 12582914 \<or> n div 131072 = 25353
      \<or> n div 256 = 12989284 \<or> n div 256 = 13303921
      \<or> (n = 0 \<or> n div 16777216 = 0)
      \<or> (224 \<le> n div 16777216 \<and> n div 16777216 \<le> 239 \<or> n = 4294967295 \<or> n div 268435456 = 15)"
    using bound
    unfolding is_non_public_ipv4_def is_loopback_v4_def is_private_v4_def is_link_local_v4_def
      is_multicast_v4_def word_unat_eq_iff word_le_nat_alt n_def
    by (simp add: ipv4_in_cidr_div unat_ipv4_octet ipv4_of_octets_def disj_ac)
  then show ?thesis
    unfolding octets blocks zero top
    by (simp add: in_blocks_def non_public_v4_blocks_def n_def [symmetric] disj_ac)
qed

lemma segment_mask:
  fixes x :: "16 word"
  shows "x AND 0xff00 = 0xff00 \<longleftrightarrow> unat x div 256 = 255"
    "x AND 0xfe00 = 0xfc00 \<longleftrightarrow> unat x div 512 = 126"
    "x AND 0xffc0 = 0xfe80 \<longleftrightarrow> unat x div 64 = 1018"
proof -
  have masks: "(0xff00 :: 16 word) = push_bit 8 (- 1)" "(0xfe00 :: 16 word) = push_bit 9 (- 1)"
    "(0xffc0 :: 16 word) = push_bit 6 (- 1)" by (simp_all add: not_eq_complement mask_eq_exp_minus_1)
  show "x AND 0xff00 = 0xff00 \<longleftrightarrow> unat x div 256 = 255"
    using and_high_mask_eq_iff [of x 8 "0xff00"] unfolding masks(1) [symmetric] drop_bit_eq_iff_unat by simp
  show "x AND 0xfe00 = 0xfc00 \<longleftrightarrow> unat x div 512 = 126"
    using and_high_mask_eq_iff [of x 9 "0xfc00"] unfolding masks(2) [symmetric] drop_bit_eq_iff_unat by simp
  show "x AND 0xffc0 = 0xfe80 \<longleftrightarrow> unat x div 64 = 1018"
    using and_high_mask_eq_iff [of x 6 "0xfe80"] unfolding masks(3) [symmetric] drop_bit_eq_iff_unat by simp
qed

lemma to_ipv4_unat:
  "to_ipv4 ip = (if unat ip div 2 ^ 32 = 0 \<or> unat ip div 2 ^ 32 = 65535 then Some (ucast ip) else None)"
  unfolding to_ipv4_def word_unat_eq_iff unat_drop_bit_div by simp

lemma is_non_public_ipv6_blocks:
  "is_non_public_ipv6 ip \<longleftrightarrow>
   (if unat ip div 2 ^ 32 = 0 \<or> unat ip div 2 ^ 32 = 65535
    then in_blocks non_public_v4_blocks (unat ip mod 2 ^ 32)
    else in_blocks non_public_v6_blocks (unat ip div 2 ^ 112))"
proof (cases "unat ip div 2 ^ 32 = 0 \<or> unat ip div 2 ^ 32 = 65535")
  case True
  have "unat (ucast ip :: 32 word) = unat ip mod 2 ^ 32"
    by (simp add: unsigned_ucast_eq take_bit_eq_mod)
  moreover have "in_blocks non_public_v4_blocks (unat ip mod 2 ^ 32)" if "ip = 1"
    using that by (simp add: in_blocks_def non_public_v4_blocks_def)
  ultimately show ?thesis using True
    by (auto simp: is_non_public_ipv6_def to_ipv4_unat is_non_public_ipv4_blocks)
next
  case False
  have "ip \<noteq> 0" "ip \<noteq> 1" using False by auto
  define s where "s = unat ip div 2 ^ 112"
  have "s < 65536" using unsigned_less [where 'a = nat, of ip] by (simp add: s_def div_less_iff_less_mult)
  then have "unat (ipv6_segment 0 ip) = s" by (simp add: unat_ipv6_segment s_def)
  moreover have "s div 256 = 255 \<longleftrightarrow> 65280 \<le> s \<and> s \<le> 65535" "s div 512 = 126 \<longleftrightarrow> 64512 \<le> s \<and> s \<le> 65023"
    "s div 64 = 1018 \<longleftrightarrow> 65152 \<le> s \<and> s \<le> 65215" by (auto simp: div_eq_iff_range)
  ultimately show ?thesis using False \<open>ip \<noteq> 0\<close> \<open>ip \<noteq> 1\<close>
    by (simp only: is_non_public_ipv6_def to_ipv4_unat segment_mask if_False option.case in_blocks_def
        non_public_v6_blocks_def s_def [symmetric]) auto
qed


section \<open>Patterns and the hosts they match\<close>

fun pattern_domain :: "domain_pattern \<Rightarrow> rstr" where
  "pattern_domain (Exact d) = d"
| "pattern_domain (SubdomainsOnly d) = d"
| "pattern_domain (ApexAndSubdomains d) = d"

definition ascii_str :: "rstr \<Rightarrow> bool" where
  "ascii_str s = list_all (\<lambda>c. c < 128) s"

text \<open>ASCII text without a character that has a meaning in a glob: \<open>* ? [ \ ] { }\<close>.\<close>

definition plain_glob :: "rstr \<Rightarrow> bool" where
  "plain_glob s \<longleftrightarrow> ascii_str s \<and> list_all (\<lambda>c. c \<notin> {42, 63, 91, 92, 93, 123, 125}) s"

text \<open>
  A domain as the constraints keep it, in lower case without final dots, that contains no glob and does
  not start with a dot.
\<close>

definition literal_domain :: "rstr \<Rightarrow> bool" where
  "literal_domain d \<longleftrightarrow> d \<noteq> [] \<and> hd d \<noteq> 46 \<and> plain_glob d \<and> normalize_domain d = d"

text \<open>
  The documented meaning of the globs that the proxy builds, without regard to case and on ASCII hosts:
  plain text matches itself, \<open>?\<close> one character and \<open>*\<close> any number of them.
\<close>

definition globset_laws :: "globs \<Rightarrow> bool" where
  "globset_laws gl \<longleftrightarrow>
     (\<forall>d h. plain_glob d \<and> ascii_str h \<longrightarrow>
        (glob_matches gl d h \<longleftrightarrow> to_ascii_lowercase h = to_ascii_lowercase d)
        \<and> (glob_matches gl (lit ''?*.'' @ d) h \<longleftrightarrow>
            (\<exists>l. l \<noteq> [] \<and> to_ascii_lowercase h = l @ lit ''.'' @ to_ascii_lowercase d)))"

lemma ends_with_iff: "ends_with s t \<longleftrightarrow> (\<exists>l. s = l @ t)"
proof
  assume "ends_with s t"
  then have "s = take (length s - length t) s @ t"
    unfolding ends_with_def by (metis append_take_drop_id)
  then show "\<exists>l. s = l @ t" by blast
qed (auto simp: ends_with_def)

definition below :: "rstr \<Rightarrow> rstr \<Rightarrow> bool" where
  "below s t \<longleftrightarrow> (\<exists>l. l \<noteq> [] \<and> s = l @ lit ''.'' @ t)"

lemma below_trans: "below s t \<Longrightarrow> below t u \<Longrightarrow> below s u"
  unfolding below_def by (metis append_assoc append_is_Nil_conv)

lemma below_length: "below s t \<Longrightarrow> length t + 2 \<le> length s"
  by (auto simp: below_def lit_def Suc_le_eq)

lemma ends_with_below: "s \<noteq> [] \<Longrightarrow> hd s \<noteq> 46 \<Longrightarrow> ends_with s (lit ''.'' @ t) \<longleftrightarrow> below s t"
  by (auto simp: ends_with_iff below_def lit_def)

lemma lower_dot [simp]: "ascii_lower_char c = 46 \<longleftrightarrow> c = 46"
  by (auto simp: ascii_lower_char_def)

lemma lower_char_idem [simp]: "ascii_lower_char (ascii_lower_char c) = ascii_lower_char c"
  by (auto simp: ascii_lower_char_def)

lemma literal_domainD:
  assumes "literal_domain d"
  shows "to_ascii_lowercase d = d" "normalize_domain d = d" "d \<noteq> []" "hd d \<noteq> 46" "plain_glob d" "ascii_str d"
proof -
  have "to_ascii_lowercase (normalize_domain d) = normalize_domain d"
    by (simp add: normalize_domain_def to_ascii_lowercase_def)
  then show "to_ascii_lowercase d = d" "normalize_domain d = d" "d \<noteq> []" "hd d \<noteq> 46" "plain_glob d" "ascii_str d"
    using assms by (simp_all add: literal_domain_def plain_glob_def)
qed

lemma subdomain_below:
  assumes "literal_domain c" "literal_domain d"
  shows "is_subdomain_or_equal c d \<longleftrightarrow> c = d \<or> below c d" "is_strict_subdomain c d \<longleftrightarrow> below c d" "domain_eq c d \<longleftrightarrow> c = d"
  using below_length [of d d]
  by (auto simp: is_subdomain_or_equal_def is_strict_subdomain_def domain_eq_def literal_domainD [OF assms(1)]
      literal_domainD [OF assms(2)] ends_with_below)

fun stands_for :: "domain_pattern \<Rightarrow> rstr \<Rightarrow> bool" where
  "stands_for (Exact d) s \<longleftrightarrow> s = d"
| "stands_for (SubdomainsOnly d) s \<longleftrightarrow> below s d"
| "stands_for (ApexAndSubdomains d) s \<longleftrightarrow> s = d \<or> below s d"

lemma candidates_stand_for:
  assumes "globset_laws gl" "literal_domain (pattern_domain p)" "ascii_str h"
  shows "set_is_match gl (pattern_candidates p) h \<longleftrightarrow> stands_for p (to_ascii_lowercase h)"
  using assms(1) [unfolded globset_laws_def, rule_format, OF conjI, OF literal_domainD(5) [OF assms(2)] assms(3)]
    literal_domainD(1) [OF assms(2)]
  by (cases p) (auto simp: set_is_match_def below_def)

text \<open>The names of a pattern that decide whether it is allowed: the domain and two names below it.\<close>

lemma allows_stands_for:
  assumes m: "literal_domain (pattern_domain m)" and c: "literal_domain (pattern_domain c)"
  defines "n \<equiv> pattern_domain c"
  shows "allows m c \<longleftrightarrow> list_all (\<lambda>s. stands_for c s \<longrightarrow> stands_for m s) [n, 97 # 46 # n, 98 # 46 # n]"
proof -
  have up: "below (x # 46 # n) d \<longleftrightarrow> n = d \<or> below n d" if "literal_domain d" for x d
  proof
    assume "below (x # 46 # n) d"
    then obtain l where "x # 46 # n = l @ lit ''.'' @ d" "l \<noteq> []" by (auto simp: below_def)
    then show "n = d \<or> below n d" using literal_domainD(3,4) [OF c]
      by (cases l; cases "tl l"; cases "tl (tl l)") (auto simp: lit_def below_def n_def)
  next
    have step: "below (x # 46 # n) n" by (auto simp: below_def lit_def intro: exI [of _ "[x]"])
    assume "n = d \<or> below n d"
    then show "below (x # 46 # n) d" using step below_trans by blast
  qed
  have self: "\<not> below n n" "n \<noteq> x # 46 # n" for x using below_length [of n n] by auto
  show ?thesis
    using m c up [of "pattern_domain m"] up [OF c] self subdomain_below [OF c m]
    by (cases m; cases c) (auto simp: n_def)
qed

lemma allows_stands_for_mono:
  assumes "literal_domain (pattern_domain m)" "literal_domain (pattern_domain c)" "allows m c" "stands_for c s"
  shows "stands_for m s"
  using assms subdomain_below [OF assms(2,1)] by (cases m; cases c) (auto dest: below_trans)

text \<open>
  C23. Narrowing a managed allowlist: a managed pattern allows a pattern of the user exactly if every
  ASCII host that the globs of the user's pattern match is matched by the globs of the managed pattern,
  for patterns whose domains are in lower case without final dots, do not start with a dot and contain
  no glob characters, and globs that mean what the documentation of \<open>globset\<close> says.
\<close>

theorem allows_iff_matches:
  assumes "globset_laws gl" "literal_domain (pattern_domain managed)" "literal_domain (pattern_domain candidate)"
  shows "allows managed candidate \<longleftrightarrow>
    {h. ascii_str h \<and> set_is_match gl (pattern_candidates candidate) h} \<subseteq> {h. set_is_match gl (pattern_candidates managed) h}"
proof
  assume "allows managed candidate"
  then show "{h. ascii_str h \<and> set_is_match gl (pattern_candidates candidate) h} \<subseteq> {h. set_is_match gl (pattern_candidates managed) h}"
    using allows_stands_for_mono [OF assms(2,3)] candidates_stand_for [OF assms(1,2)] candidates_stand_for [OF assms(1,3)] by blast
next
  assume sub: "{h. ascii_str h \<and> set_is_match gl (pattern_candidates candidate) h} \<subseteq> {h. set_is_match gl (pattern_candidates managed) h}"
  have "stands_for managed s" if s: "s \<in> set [pattern_domain candidate, 97 # 46 # pattern_domain candidate,
      98 # 46 # pattern_domain candidate]" "stands_for candidate s" for s
  proof -
    have "ascii_str s" "to_ascii_lowercase s = s"
      using s(1) literal_domainD(1,6) [OF assms(3)] by (auto simp: ascii_str_def to_ascii_lowercase_def ascii_lower_char_def)
    then show ?thesis using sub s(2) candidates_stand_for [OF assms(1,2), of s] candidates_stand_for [OF assms(1,3), of s] by auto
  qed
  then show "allows managed candidate" unfolding allows_stands_for [OF assms(2,3)] list_all_iff by blast
qed

text \<open>Globs of the two forms the patterns need.\<close>

definition suffix_globs :: globs where
  "suffix_globs = \<lparr>glob_builds = (\<lambda>_. True), glob_set_builds = (\<lambda>_. True),
     glob_matches = (\<lambda>g h. case strip_prefix g (lit ''?*.'') of
        Some d \<Rightarrow> length d + 1 < length h \<and> ends_with (to_ascii_lowercase h) (lit ''.'' @ to_ascii_lowercase d)
      | None \<Rightarrow> to_ascii_lowercase h = to_ascii_lowercase g)\<rparr>"

lemma suffix_globs_laws: "globset_laws suffix_globs"
proof -
  have "strip_prefix d (lit ''?*.'') = None" if "plain_glob d" for d
    using that by (cases d) (auto simp: strip_prefix_def starts_with_def plain_glob_def lit_def)
  moreover have "length d + 1 < length h \<and> ends_with (to_ascii_lowercase h) (lit ''.'' @ to_ascii_lowercase d) \<longleftrightarrow>
      (\<exists>l. l \<noteq> [] \<and> to_ascii_lowercase h = l @ lit ''.'' @ to_ascii_lowercase d)" for d h
  proof -
    have "length d + 1 < length h \<longleftrightarrow> l \<noteq> []" if "to_ascii_lowercase h = l @ lit ''.'' @ to_ascii_lowercase d" for l
      using arg_cong [OF that, of length] by (cases l) (simp_all add: to_ascii_lowercase_def lit_def)
    then show ?thesis unfolding ends_with_iff by blast
  qed
  ultimately show ?thesis unfolding globset_laws_def suffix_globs_def by simp
qed

theorem allows_iff_matches_witness:
  "{h. ascii_str h \<and> set_is_match suffix_globs (pattern_candidates (ApexAndSubdomains (lit ''api.example.com''))) h}
      \<subseteq> {h. set_is_match suffix_globs (pattern_candidates (SubdomainsOnly (lit ''example.com''))) h}
   \<and> \<not> {h. ascii_str h \<and> set_is_match suffix_globs (pattern_candidates (SubdomainsOnly (lit ''example.com''))) h}
      \<subseteq> {h. set_is_match suffix_globs (pattern_candidates (Exact (lit ''example.com''))) h}"
proof -
  have "literal_domain (pattern_domain (ApexAndSubdomains (lit ''api.example.com'')))"
    "literal_domain (pattern_domain (SubdomainsOnly (lit ''example.com'')))"
    "literal_domain (pattern_domain (Exact (lit ''example.com'')))"
    "allows (SubdomainsOnly (lit ''example.com'')) (ApexAndSubdomains (lit ''api.example.com''))"
    "\<not> allows (Exact (lit ''example.com'')) (SubdomainsOnly (lit ''example.com''))"
    by code_simp+
  then show ?thesis using allows_iff_matches [OF suffix_globs_laws] by blast
qed

end
