(* ===== verification/Network_Hooks.thy ===== *)
theory Network_Hooks
  imports Network_Address Absolute_Path
begin

text \<open>
  Hooks on intercepted requests (\<open>network-proxy/src/mitm_hook.rs\<close>): an administrator lets requests to a
  host through by method, path, query and headers, and has secrets added to them. The configuration is
  validated and compiled, and a request is matched by the first hook of its host. A path is only
  matched if an upstream server cannot read it as another one (\<open>authorization_path.rs\<close>).

  Header names and values, globs and the decoding of a query string are parameters, as are the
  environment and the files that hold secrets.
\<close>

section \<open>Paths that can be authorized\<close>

text \<open>
  The bytes of a character outside ASCII are all neither a dot, a backslash, a percent sign nor a hex
  digit, so that reading characters instead of bytes makes no difference.
\<close>

definition decode_hex_digit :: "nat \<Rightarrow> nat option" where
  "decode_hex_digit byte =
     (if 48 \<le> byte \<and> byte \<le> 57 then Some (byte - 48)
      else if 97 \<le> byte \<and> byte \<le> 102 then Some (byte - 97 + 10)
      else if 65 \<le> byte \<and> byte \<le> 70 then Some (byte - 65 + 10)
      else None)"

fun scan_segment :: "rstr \<Rightarrow> nat \<Rightarrow> bool \<Rightarrow> bool" where
  "scan_segment [] decoded_dots has_non_dot = (has_non_dot \<or> \<not> (decoded_dots = 1 \<or> decoded_dots = 2))"
| "scan_segment (c # s) decoded_dots has_non_dot =
     (if c = 46 then scan_segment s (decoded_dots + 1) has_non_dot
      else if c = 92 then False
      else if c = 37 then
        (case s of
           high # low # rest \<Rightarrow>
             (case (decode_hex_digit high, decode_hex_digit low) of
                (Some h, Some l) \<Rightarrow>
                  (let decoded = 16 * h + l in
                   if decoded = 37 \<or> decoded = 47 \<or> decoded = 92 then False
                   else if decoded = 46 then scan_segment rest (decoded_dots + 1) has_non_dot
                   else scan_segment rest decoded_dots True)
              | _ \<Rightarrow> False)
         | _ \<Rightarrow> False)
      else scan_segment s decoded_dots True)"

definition is_safe_segment_for_authorization :: "rstr \<Rightarrow> bool" where
  "is_safe_segment_for_authorization segment = scan_segment segment 0 False"

definition is_safe_for_authorization :: "rstr \<Rightarrow> bool" where
  "is_safe_for_authorization path = list_all is_safe_segment_for_authorization (split_char 47 path)"

section \<open>Configured and compiled hooks\<close>

record injected_header_config =
  injected_name :: rstr
  secret_env_var :: "rstr option"
  secret_file :: "rstr option"
  value_prefix :: "rstr option"

text \<open>The body of a matcher is a JSON value, of which only the presence is read.\<close>

record hook_config =
  hook_host :: rstr
  hook_methods :: "rstr list"
  hook_path_prefixes :: "rstr list"
  hook_query :: "(rstr \<times> rstr list) list"
  hook_headers :: "(rstr \<times> rstr list) list"
  hook_has_body :: bool
  strip_request_headers :: "rstr list"
  inject_request_headers :: "injected_header_config list"

datatype matcher_pattern = LiteralPattern rstr | GlobPattern rstr

datatype path_matcher = PrefixPath rstr | GlobPath rstr

datatype value_matcher = ExactValue rstr | GlobValue rstr

datatype secret_source = EnvVar rstr | SecretFile path

record resolved_header =
  resolved_name :: rstr
  resolved_value :: rstr
  resolved_source :: secret_source

record hook_actions =
  strip_headers :: "rstr list"
  inject_headers :: "resolved_header list"

record mitm_hook =
  mh_host :: rstr
  mh_methods :: "rstr list"
  mh_path_prefixes :: "path_matcher list"
  mh_query :: "(rstr \<times> value_matcher list) list"
  mh_headers :: "(rstr \<times> value_matcher list) list"
  mh_actions :: hook_actions

datatype hook_error =
    HooksRequireMitm
  | EmptyHost
  | WildcardHost
  | EmptyMethod
  | NoMethods
  | EmptyPathPrefix
  | NoPathPrefixes
  | BodyUnsupported
  | EmptyGlob
  | InvalidHookGlob rstr
  | EmptyQueryKey
  | NoQueryValues rstr
  | InvalidHeaderName rstr
  | EmptySecretEnvVar
  | EmptySecretFile
  | RelativeSecretFile
  | NotOneSecret
  | MissingEnvVar rstr
  | UnreadableSecret path
  | InvalidHeaderValue rstr

text \<open>
  A glob is built with or without literal separators. A header name is given by its canonical text.
\<close>

record hook_ops =
  hook_glob_builds :: "bool \<Rightarrow> rstr \<Rightarrow> bool"
  hook_glob_matches :: "bool \<Rightarrow> rstr \<Rightarrow> rstr \<Rightarrow> bool"
  header_name :: "rstr \<Rightarrow> rstr option"
  header_value_ok :: "rstr \<Rightarrow> bool"
  query_pairs :: "rstr \<Rightarrow> (rstr \<times> rstr) list"
  env_var :: "rstr \<Rightarrow> rstr option"
  read_secret :: "path \<Rightarrow> rstr option"

subsection \<open>Validation\<close>

definition to_ascii_uppercase :: "rstr \<Rightarrow> rstr" where
  "to_ascii_uppercase s = map (\<lambda>c. if 97 \<le> c \<and> c \<le> 122 then c - 32 else c) s"

definition normalize_hook_host :: "rstr \<Rightarrow> hook_error + rstr" where
  "normalize_hook_host host =
     (let normalized = normalize_host host in
      if normalized = [] then Inl EmptyHost
      else if 42 \<in> set normalized then Inl WildcardHost
      else Inr normalized)"

definition normalize_method :: "rstr \<Rightarrow> hook_error + rstr" where
  "normalize_method meth =
     (let normalized = to_ascii_uppercase (trim meth) in
      if normalized = [] then Inl EmptyMethod else Inr normalized)"

definition normalize_methods :: "rstr list \<Rightarrow> hook_error + rstr list" where
  "normalize_methods methods = collect_res normalize_method methods"

definition parse_matcher_pattern :: "rstr \<Rightarrow> hook_error + matcher_pattern" where
  "parse_matcher_pattern pat =
     (case strip_prefix pat (lit ''literal:'') of
        Some literal \<Rightarrow> Inr (LiteralPattern literal)
      | None \<Rightarrow>
          (case strip_prefix pat (lit ''pattern:'') of
             None \<Rightarrow> Inr (LiteralPattern pat)
           | Some glob \<Rightarrow> if glob = [] then Inl EmptyGlob else Inr (GlobPattern glob)))"

definition compile_glob_matcher :: "hook_ops \<Rightarrow> rstr \<Rightarrow> bool \<Rightarrow> hook_error + rstr" where
  "compile_glob_matcher ops pat literal_separator =
     (if hook_glob_builds ops literal_separator pat then Inr pat else Inl (InvalidHookGlob pat))"

definition compile_path_matcher :: "hook_ops \<Rightarrow> rstr \<Rightarrow> hook_error + path_matcher" where
  "compile_path_matcher ops entry =
     res_bind (parse_matcher_pattern entry) (\<lambda>pat.
       case pat of
         LiteralPattern literal \<Rightarrow> if literal = [] then Inl EmptyPathPrefix else Inr (PrefixPath literal)
       | GlobPattern glob \<Rightarrow> res_bind (compile_glob_matcher ops glob True) (\<lambda>g. Inr (GlobPath g)))"

definition compile_path_matchers :: "hook_ops \<Rightarrow> rstr list \<Rightarrow> hook_error + path_matcher list" where
  "compile_path_matchers ops path_prefixes = collect_res (compile_path_matcher ops) path_prefixes"

definition compile_value_matcher :: "hook_ops \<Rightarrow> rstr \<Rightarrow> hook_error + value_matcher" where
  "compile_value_matcher ops value =
     res_bind (parse_matcher_pattern value) (\<lambda>pat.
       case pat of
         LiteralPattern literal \<Rightarrow> Inr (ExactValue literal)
       | GlobPattern glob \<Rightarrow> res_bind (compile_glob_matcher ops glob False) (\<lambda>g. Inr (GlobValue g)))"

definition compile_value_matchers :: "hook_ops \<Rightarrow> rstr list \<Rightarrow> hook_error + value_matcher list" where
  "compile_value_matchers ops values = collect_res (compile_value_matcher ops) values"

definition normalize_query_name :: "rstr \<Rightarrow> hook_error + rstr" where
  "normalize_query_name name = (if name = [] then Inl EmptyQueryKey else Inr name)"

fun validate_query_constraints :: "hook_ops \<Rightarrow> (rstr \<times> rstr list) list \<Rightarrow> hook_error + unit" where
  "validate_query_constraints ops [] = Inr ()"
| "validate_query_constraints ops ((name, values) # rest) =
     res_bind (normalize_query_name name) (\<lambda>normalized.
       if normalized = [] then Inl EmptyQueryKey
       else if values = [] then Inl (NoQueryValues name)
       else res_bind (compile_value_matchers ops values) (\<lambda>_. validate_query_constraints ops rest))"

definition parse_header_name :: "hook_ops \<Rightarrow> rstr \<Rightarrow> hook_error + rstr" where
  "parse_header_name ops name =
     (case header_name ops name of Some n \<Rightarrow> Inr n | None \<Rightarrow> Inl (InvalidHeaderName name))"

fun validate_header_constraints :: "hook_ops \<Rightarrow> (rstr \<times> rstr list) list \<Rightarrow> hook_error + unit" where
  "validate_header_constraints ops [] = Inr ()"
| "validate_header_constraints ops ((name, values) # rest) =
     res_bind (parse_header_name ops name) (\<lambda>_.
     res_bind (compile_value_matchers ops values) (\<lambda>_. validate_header_constraints ops rest))"

fun validate_strip_request_headers :: "hook_ops \<Rightarrow> rstr list \<Rightarrow> hook_error + unit" where
  "validate_strip_request_headers ops [] = Inr ()"
| "validate_strip_request_headers ops (name # rest) =
     res_bind (parse_header_name ops name) (\<lambda>_. validate_strip_request_headers ops rest)"

text \<open>An absolute path is not subject to the expansion of a home directory nor to the current directory.\<close>

definition parse_secret_file :: "rstr \<Rightarrow> hook_error + path" where
  "parse_secret_file file =
     (if trim file = [] then Inl EmptySecretFile
      else if \<not> is_absolute (path_of file) then Inl RelativeSecretFile
      else from_absolute_path None (Inl RelativeSecretFile) file)"

definition validate_injected_header :: "hook_ops \<Rightarrow> injected_header_config \<Rightarrow> hook_error + unit" where
  "validate_injected_header ops header =
     res_bind (parse_header_name ops (injected_name header)) (\<lambda>_.
       case (secret_env_var header, secret_file header) of
         (Some var, None) \<Rightarrow> if trim var = [] then Inl EmptySecretEnvVar else Inr ()
       | (None, Some file) \<Rightarrow> res_bind (parse_secret_file file) (\<lambda>_. Inr ())
       | _ \<Rightarrow> Inl NotOneSecret)"

fun validate_injected_headers :: "hook_ops \<Rightarrow> injected_header_config list \<Rightarrow> hook_error + unit" where
  "validate_injected_headers ops [] = Inr ()"
| "validate_injected_headers ops (header # rest) =
     res_bind (validate_injected_header ops header) (\<lambda>_. validate_injected_headers ops rest)"

definition validate_hook :: "hook_ops \<Rightarrow> hook_config \<Rightarrow> hook_error + unit" where
  "validate_hook ops hook =
     res_bind (normalize_hook_host (hook_host hook)) (\<lambda>host.
     res_bind (normalize_methods (hook_methods hook)) (\<lambda>methods.
     if methods = [] then Inl NoMethods else
     res_bind (compile_path_matchers ops (hook_path_prefixes hook)) (\<lambda>path_prefixes.
     if path_prefixes = [] then Inl NoPathPrefixes
     else if hook_has_body hook then Inl BodyUnsupported else
     res_bind (validate_query_constraints ops (hook_query hook)) (\<lambda>_.
     res_bind (validate_header_constraints ops (hook_headers hook)) (\<lambda>_.
     res_bind (validate_strip_request_headers ops (strip_request_headers hook)) (\<lambda>_.
     res_bind (validate_injected_headers ops (inject_request_headers hook)) (\<lambda>_.
     if host = [] then Inl EmptyHost else Inr ())))))))"

fun validate_hooks :: "hook_ops \<Rightarrow> hook_config list \<Rightarrow> hook_error + unit" where
  "validate_hooks ops [] = Inr ()"
| "validate_hooks ops (hook # hooks) = res_bind (validate_hook ops hook) (\<lambda>_. validate_hooks ops hooks)"

definition validate_mitm_hook_config :: "hook_ops \<Rightarrow> bool \<Rightarrow> hook_config list \<Rightarrow> hook_error + unit" where
  "validate_mitm_hook_config ops mitm hooks =
     (if hooks = [] then Inr ()
      else if \<not> mitm then Inl HooksRequireMitm
      else validate_hooks ops hooks)"

subsection \<open>Compilation\<close>

definition compile_injected_header :: "hook_ops \<Rightarrow> injected_header_config \<Rightarrow> hook_error + resolved_header" where
  "compile_injected_header ops header =
     res_bind (parse_header_name ops (injected_name header)) (\<lambda>name.
     res_bind
       (case (secret_env_var header, secret_file header) of
          (Some var, None) \<Rightarrow>
            (case env_var ops var of
               Some secret \<Rightarrow> Inr (secret, EnvVar var)
             | None \<Rightarrow> Inl (MissingEnvVar var))
        | (None, Some file) \<Rightarrow>
            res_bind (parse_secret_file file) (\<lambda>path.
              case read_secret ops path of
                Some contents \<Rightarrow> Inr (trim contents, SecretFile path)
              | None \<Rightarrow> Inl (UnreadableSecret path))
        | _ \<Rightarrow> Inl NotOneSecret) (\<lambda>(secret, source).
       let value = (case value_prefix header of Some p \<Rightarrow> p | None \<Rightarrow> []) @ secret in
       if header_value_ok ops value
       then Inr \<lparr>resolved_name = name, resolved_value = value, resolved_source = source\<rparr>
       else Inl (InvalidHeaderValue (injected_name header))))"

definition compile_query :: "hook_ops \<Rightarrow> rstr \<times> rstr list \<Rightarrow> hook_error + rstr \<times> value_matcher list" where
  "compile_query ops nv =
     res_bind (normalize_query_name (fst nv)) (\<lambda>name.
     res_bind (compile_value_matchers ops (snd nv)) (\<lambda>values. Inr (name, values)))"

definition compile_header :: "hook_ops \<Rightarrow> rstr \<times> rstr list \<Rightarrow> hook_error + rstr \<times> value_matcher list" where
  "compile_header ops nv =
     res_bind (parse_header_name ops (fst nv)) (\<lambda>name.
     res_bind (compile_value_matchers ops (snd nv)) (\<lambda>values. Inr (name, values)))"

definition compile_hook :: "hook_ops \<Rightarrow> hook_config \<Rightarrow> hook_error + mitm_hook" where
  "compile_hook ops hook =
     res_bind (normalize_hook_host (hook_host hook)) (\<lambda>host.
     res_bind (normalize_methods (hook_methods hook)) (\<lambda>methods.
     res_bind (compile_path_matchers ops (hook_path_prefixes hook)) (\<lambda>path_prefixes.
     res_bind (collect_res (compile_query ops) (hook_query hook)) (\<lambda>query.
     res_bind (collect_res (compile_header ops) (hook_headers hook)) (\<lambda>headers.
     res_bind (collect_res (parse_header_name ops) (strip_request_headers hook)) (\<lambda>strip.
     res_bind (collect_res (compile_injected_header ops) (inject_request_headers hook)) (\<lambda>inject.
       Inr \<lparr>mh_host = host, mh_methods = methods, mh_path_prefixes = path_prefixes, mh_query = query,
            mh_headers = headers, mh_actions = \<lparr>strip_headers = strip, inject_headers = inject\<rparr>\<rparr>)))))))"

type_synonym hooks_by_host = "(rstr \<times> mitm_hook list) list"

fun push_hook :: "mitm_hook \<Rightarrow> hooks_by_host \<Rightarrow> hooks_by_host" where
  "push_hook hook [] = [(mh_host hook, [hook])]"
| "push_hook hook ((host, hooks) # rest) =
     (if host = mh_host hook then (host, hooks @ [hook]) # rest
      else (host, hooks) # push_hook hook rest)"

fun compile_hooks :: "hook_ops \<Rightarrow> hook_config list \<Rightarrow> hooks_by_host \<Rightarrow> hook_error + hooks_by_host" where
  "compile_hooks ops [] by_host = Inr by_host"
| "compile_hooks ops (hook # hooks) by_host =
     res_bind (compile_hook ops hook) (\<lambda>compiled. compile_hooks ops hooks (push_hook compiled by_host))"

definition compile_mitm_hooks :: "hook_ops \<Rightarrow> bool \<Rightarrow> hook_config list \<Rightarrow> hook_error + hooks_by_host" where
  "compile_mitm_hooks ops mitm hooks =
     res_bind (validate_mitm_hook_config ops mitm hooks) (\<lambda>_. compile_hooks ops hooks [])"

subsection \<open>Matching\<close>

text \<open>A header of a request with its value, if the value is text.\<close>

record http_request =
  request_method :: rstr
  request_path :: rstr
  request_query :: "rstr option"
  request_headers :: "(rstr \<times> rstr option) list"

fun path_matcher_matches :: "hook_ops \<Rightarrow> path_matcher \<Rightarrow> rstr \<Rightarrow> bool" where
  "path_matcher_matches ops (PrefixPath p) candidate = starts_with candidate p"
| "path_matcher_matches ops (GlobPath glob) candidate = hook_glob_matches ops True glob candidate"

fun value_matcher_matches :: "hook_ops \<Rightarrow> value_matcher \<Rightarrow> rstr \<Rightarrow> bool" where
  "value_matcher_matches ops (ExactValue value) candidate = (value = candidate)"
| "value_matcher_matches ops (GlobValue glob) candidate = hook_glob_matches ops False glob candidate"

definition path_matches :: "hook_ops \<Rightarrow> path_matcher list \<Rightarrow> rstr \<Rightarrow> bool" where
  "path_matches ops path_prefixes path = list_ex (\<lambda>m. path_matcher_matches ops m path) path_prefixes"

text \<open>The values of a name in the order of the query, where the source collects them in a tree map.\<close>

definition query_matches :: "hook_ops \<Rightarrow> (rstr \<times> value_matcher list) list \<Rightarrow> http_request \<Rightarrow> bool" where
  "query_matches ops query req =
     (if query = [] then True
      else let actual = query_pairs ops (case request_query req of Some q \<Rightarrow> q | None \<Rightarrow> []) in
        list_all (\<lambda>(name, allowed_values).
          list_ex (\<lambda>candidate. list_ex (\<lambda>allowed. value_matcher_matches ops allowed candidate) allowed_values)
            (map snd (filter (\<lambda>(n, _). n = name) actual))) query)"

definition headers_match :: "hook_ops \<Rightarrow> (rstr \<times> value_matcher list) list \<Rightarrow> http_request \<Rightarrow> bool" where
  "headers_match ops headers req =
     list_all (\<lambda>(name, allowed_values).
       let actual = map snd (filter (\<lambda>(n, _). n = name) (request_headers req)) in
       if actual = [] then False
       else if allowed_values = [] then True
       else list_ex (\<lambda>value.
              case value of
                Some candidate \<Rightarrow> list_ex (\<lambda>allowed. value_matcher_matches ops allowed candidate) allowed_values
              | None \<Rightarrow> False) actual) headers"

definition hook_matches :: "hook_ops \<Rightarrow> mitm_hook \<Rightarrow> http_request \<Rightarrow> bool" where
  "hook_matches ops hook req =
     (if \<not> list_ex (\<lambda>allowed. allowed = to_ascii_uppercase (request_method req)) (mh_methods hook) then False
      else if \<not> is_safe_for_authorization (request_path req)
              \<or> \<not> path_matches ops (mh_path_prefixes hook) (request_path req) then False
      else if \<not> query_matches ops (mh_query hook) req then False
      else headers_match ops (mh_headers hook) req)"

datatype hook_evaluation = NoHooksForHost | Matched hook_actions | HookedHostNoMatch

definition evaluate_mitm_hooks :: "hook_ops \<Rightarrow> hooks_by_host \<Rightarrow> rstr \<Rightarrow> http_request \<Rightarrow> hook_evaluation" where
  "evaluate_mitm_hooks ops by_host host req =
     (case map_of by_host (normalize_host host) of
        None \<Rightarrow> NoHooksForHost
      | Some hooks \<Rightarrow>
          (case find (\<lambda>hook. hook_matches ops hook req) hooks of
             Some hook \<Rightarrow> Matched (mh_actions hook)
           | None \<Rightarrow> HookedHostNoMatch))"

section \<open>What an upstream server can read\<close>

text \<open>Percent decoding as an upstream server does it, before or after it splits the path; nothing for a
  malformed escape.\<close>

fun percent_decode :: "rstr \<Rightarrow> rstr option" where
  "percent_decode [] = Some []"
| "percent_decode (c # s) =
     (if c = 37 then
        (case s of
           high # low # rest \<Rightarrow>
             (case (decode_hex_digit high, decode_hex_digit low) of
                (Some h, Some l) \<Rightarrow> map_option (Cons (16 * h + l)) (percent_decode rest)
              | _ \<Rightarrow> None)
         | _ \<Rightarrow> None)
      else map_option (Cons c) (percent_decode s))"

definition plain_segment :: "rstr \<Rightarrow> bool" where
  "plain_segment d \<longleftrightarrow> 37 \<notin> set d \<and> 47 \<notin> set d \<and> 92 \<notin> set d \<and> d \<noteq> lit ''.'' \<and> d \<noteq> lit ''..''"

lemma scan_segment_iff:
  "47 \<notin> set s \<Longrightarrow> scan_segment s n b \<longleftrightarrow>
     (\<exists>d. percent_decode s = Some d \<and> 37 \<notin> set d \<and> 47 \<notin> set d \<and> 92 \<notin> set d
        \<and> (b \<or> (\<exists>x\<in>set d. x \<noteq> 46) \<or> n + length d \<notin> {1, 2}))"
proof (induction s n b rule: scan_segment.induct)
  case (2 c s n b)
  consider "c = 46" | "c = 92" | "c = 37" | "c \<noteq> 46" "c \<noteq> 92" "c \<noteq> 37" by blast
  then show ?case
  proof cases
    case 1
    then show ?thesis using 2 by (auto simp: ex_simps simp del: insert_iff)
  next
    case 3
    show ?thesis
    proof (cases "\<exists>high low rest h l. s = high # low # rest \<and> decode_hex_digit high = Some h \<and> decode_hex_digit low = Some l")
      case True
      then obtain high low rest h l where s: "s = high # low # rest"
        "decode_hex_digit high = Some h" "decode_hex_digit low = Some l" by blast
      define v where "v = 16 * h + l"
      have dec: "percent_decode (c # s) = map_option (Cons v) (percent_decode rest)"
        using 3 s by (simp add: v_def)
      have scan: "scan_segment (c # s) n b = (if v = 37 \<or> v = 47 \<or> v = 92 then False
          else if v = 46 then scan_segment rest (n + 1) b else scan_segment rest n True)"
        using 3 s by (simp add: v_def Let_def)
      have rest: "47 \<notin> set rest" using 2(5) s by simp
      note IH = 2(2) [OF _ _ 3 s(1) refl refl s(2,3) v_def _ _ rest] 2(3) [OF _ _ 3 s(1) refl refl s(2,3) v_def _ _ rest]
      show ?thesis
        unfolding dec scan using IH 3 by (cases "v = 46") (auto simp del: insert_iff)
    next
      case False
      then show ?thesis using 3 by (auto split: list.splits option.splits)
    qed
  next
    case 4
    then show ?thesis using 2 by (auto simp del: insert_iff)
  qed auto
qed simp

lemma safe_segment_iff:
  assumes "47 \<notin> set s"
  shows "is_safe_segment_for_authorization s \<longleftrightarrow> (\<exists>d. percent_decode s = Some d \<and> plain_segment d)"
proof -
  have "(\<exists>x\<in>set d. x \<noteq> 46) \<or> length d \<notin> {1, 2} \<longleftrightarrow> d \<noteq> lit ''.'' \<and> d \<noteq> lit ''..''" for d :: rstr
    by (cases d; cases "tl d"; cases "tl (tl d)") (auto simp: lit_def)
  then show ?thesis
    by (simp add: is_safe_segment_for_authorization_def scan_segment_iff [OF assms] plain_segment_def)
qed

lemma percent_decode_append:
  "percent_decode s = Some d \<Longrightarrow> percent_decode (s @ t) = map_option (append d) (percent_decode t)"
proof (induction s arbitrary: d rule: percent_decode.induct)
  case (2 c s)
  have eta: "(@) (x # xs) = (\<lambda>ys. x # xs @ ys)" for x and xs :: rstr by auto
  from 2 show ?case
    by (auto simp: eta option.map_comp comp_def split: if_splits list.splits option.splits)
qed (cases "percent_decode t"; simp)

lemma percent_decode_join:
  "map percent_decode segs = map Some ds \<Longrightarrow> segs \<noteq> [] \<Longrightarrow>
     percent_decode (join [47] segs) = Some (join [47] ds)"
proof (induction segs arbitrary: ds)
  case (Cons seg segs)
  then obtain d ds' where ds: "ds = d # ds'" "percent_decode seg = Some d" by (cases ds) auto
  then have IH: "segs \<noteq> [] \<Longrightarrow> percent_decode (join [47] segs) = Some (join [47] ds')"
    using Cons by auto
  have join: "join [47] (x # xs) = x @ 47 # join [47] xs" if "xs \<noteq> []" for x and xs :: "rstr list"
    using that by (cases xs) (simp_all add: join_def)
  show ?case
  proof (cases "segs = []")
    case True
    then show ?thesis using Cons.prems ds by (simp add: join_def)
  next
    case False
    then have "ds' \<noteq> []" using Cons.prems ds by auto
    then show ?thesis
      using False IH ds by (simp add: join percent_decode_append)
  qed
qed simp

lemma decoded_segments:
  "(\<forall>s\<in>set segs. \<exists>d. f s = Some d \<and> P d) \<longleftrightarrow> (\<exists>ds. map f segs = map Some ds \<and> list_all P ds)"
proof (induction segs)
  case (Cons s segs)
  have "(\<exists>ds. map f (s # segs) = map Some ds \<and> list_all P ds) \<longleftrightarrow>
      (\<exists>d ds. f s = Some d \<and> P d \<and> map f segs = map Some ds \<and> list_all P ds)"
    by (auto simp: Cons_eq_map_conv; metis list.pred_inject(2) list.simps(9))
  then show ?case using Cons by auto
qed simp

text \<open>
  C12. A path is accepted for authorization exactly if an upstream server can read it in one way only:
  all escapes are well formed, splitting the decoded path gives the same segments as decoding the
  segments of the path, decoding again would change nothing, and no segment is a dot segment or has a
  backslash, so that normalising the path would change nothing either.
\<close>

theorem authorized_path_unambiguous:
  "is_safe_for_authorization path \<longleftrightarrow>
     (\<exists>d. percent_decode path = Some d
        \<and> map percent_decode (split_char 47 path) = map Some (split_char 47 d)
        \<and> 37 \<notin> set d \<and> 92 \<notin> set d
        \<and> lit ''.'' \<notin> set (split_char 47 d) \<and> lit ''..'' \<notin> set (split_char 47 d))"
  (is "_ \<longleftrightarrow> ?unambiguous")
proof -
  have "is_safe_for_authorization path \<longleftrightarrow>
      (\<forall>s\<in>set (split_char 47 path). \<exists>d. percent_decode s = Some d \<and> plain_segment d)"
    using safe_segment_iff split_char_members [of _ 47 path]
    by (auto simp: is_safe_for_authorization_def list_all_iff)
  also have "\<dots> \<longleftrightarrow> (\<exists>ds. map percent_decode (split_char 47 path) = map Some ds \<and> list_all plain_segment ds)"
    by (rule decoded_segments)
  also have "\<dots> \<longleftrightarrow> ?unambiguous"
  proof
    assume "\<exists>ds. map percent_decode (split_char 47 path) = map Some ds \<and> list_all plain_segment ds"
    then obtain ds where ds: "map percent_decode (split_char 47 path) = map Some ds" "list_all plain_segment ds"
      by blast
    then have "percent_decode path = Some (join [47] ds)"
      using percent_decode_join [OF ds(1)] by (simp add: join_split_char)
    moreover have "ds \<noteq> []" using ds(1) by auto
    then have "split_char 47 (join [47] ds) = ds"
      using ds(2) by (intro split_char_join_sep) (auto simp: list_all_iff plain_segment_def)
    moreover have "37 \<notin> set (join [47] ds)" "92 \<notin> set (join [47] ds)"
      using ds(2) set_join [of "[47]" ds] by (auto simp: list_all_iff plain_segment_def)
    ultimately show ?unambiguous
      using ds by (auto simp: list_all_iff plain_segment_def)
  next
    assume ?unambiguous
    then obtain d where d: "map percent_decode (split_char 47 path) = map Some (split_char 47 d)"
        "37 \<notin> set d" "92 \<notin> set d" "lit ''.'' \<notin> set (split_char 47 d)" "lit ''..'' \<notin> set (split_char 47 d)"
      by blast
    have "plain_segment seg" if "seg \<in> set (split_char 47 d)" for seg
      using d(2-5) that split_char_subset [OF that] split_char_members [OF that]
      unfolding plain_segment_def by blast
    then show "\<exists>ds. map percent_decode (split_char 47 path) = map Some ds \<and> list_all plain_segment ds"
      using d(1) by (auto simp: list_all_iff)
  qed
  finally show ?thesis .
qed

section \<open>Hooks in force\<close>

lemma map_of_push_hook:
  "map_of (push_hook h by_host) k =
     (if k = mh_host h then Some (case map_of by_host k of None \<Rightarrow> [h] | Some hs \<Rightarrow> hs @ [h])
      else map_of by_host k)"
  by (induction h by_host rule: push_hook.induct) auto

lemma hooks_of_host:
  "map_of (foldl (\<lambda>b h. push_hook h b) [] hs) k =
     (let mine = filter (\<lambda>h. mh_host h = k) hs in if mine = [] then None else Some mine)"
proof (induction hs rule: rev_induct)
  case (snoc h hs)
  then show ?case by (auto simp: map_of_push_hook Let_def)
qed simp

lemma compile_hooks_fold:
  "compile_hooks ops cs by_host = Inr result \<Longrightarrow>
     \<exists>hs. list_all2 (\<lambda>c h. compile_hook ops c = Inr h) cs hs \<and> result = foldl (\<lambda>b h. push_hook h b) by_host hs"
proof (induction cs arbitrary: by_host)
  case (Cons c cs)
  then obtain h where h: "compile_hook ops c = Inr h" "compile_hooks ops cs (push_hook h by_host) = Inr result"
    by (auto simp: res_iffs)
  from Cons.IH [OF h(2)] obtain hs where "list_all2 (\<lambda>c h. compile_hook ops c = Inr h) cs hs"
      "result = foldl (\<lambda>b h. push_hook h b) (push_hook h by_host) hs" by blast
  then show ?case using h(1) by (intro exI [of _ "h # hs"]) simp
qed simp

lemma compile_hook_fields:
  assumes "compile_hook ops c = Inr h"
  shows "mh_host h = normalize_host (hook_host c)"
    "mh_methods h = map (\<lambda>m. to_ascii_uppercase (trim m)) (hook_methods c)"
    "list_all2 (\<lambda>p m. compile_path_matcher ops p = Inr m) (hook_path_prefixes c) (mh_path_prefixes h)"
    "list_all2 (\<lambda>i r. compile_injected_header ops i = Inr r) (inject_request_headers c) (inject_headers (mh_actions h))"
proof -
  have methods: "list_all2 (\<lambda>m n. normalize_method m = Inr n) ms ns \<Longrightarrow>
      ns = map (\<lambda>m. to_ascii_uppercase (trim m)) ms" for ms ns
    by (induction rule: list_all2_induct) (auto simp: normalize_method_def Let_def split: if_splits)
  show "mh_host h = normalize_host (hook_host c)"
    "mh_methods h = map (\<lambda>m. to_ascii_uppercase (trim m)) (hook_methods c)"
    "list_all2 (\<lambda>p m. compile_path_matcher ops p = Inr m) (hook_path_prefixes c) (mh_path_prefixes h)"
    "list_all2 (\<lambda>i r. compile_injected_header ops i = Inr r) (inject_request_headers c) (inject_headers (mh_actions h))"
    using assms methods
    by (auto simp: compile_hook_def res_iffs normalize_hook_host_def normalize_methods_def
        compile_path_matchers_def collect_res_eq_Inr_iff Let_def split: if_splits)
qed

lemma evaluate_matchedE:
  assumes "compile_mitm_hooks ops mitm cs = Inr by_host" "evaluate_mitm_hooks ops by_host host req = Matched actions"
  obtains c h where "c \<in> set cs" "compile_hook ops c = Inr h" "mh_host h = normalize_host host"
    "hook_matches ops h req" "actions = mh_actions h"
proof -
  have "compile_hooks ops cs [] = Inr by_host"
    using assms(1) by (simp add: compile_mitm_hooks_def res_iffs)
  then obtain hs where hs: "list_all2 (\<lambda>c h. compile_hook ops c = Inr h) cs hs"
      "by_host = foldl (\<lambda>b h. push_hook h b) [] hs"
    using compile_hooks_fold [of ops cs "[]" by_host] by blast
  obtain h where h: "find (\<lambda>h. hook_matches ops h req) (filter (\<lambda>h. mh_host h = normalize_host host) hs) = Some h"
      "actions = mh_actions h"
    using assms(2) unfolding evaluate_mitm_hooks_def hs(2) hooks_of_host
    by (auto simp: Let_def split: if_splits option.splits)
  from h(1) have "hook_matches ops h req" "h \<in> set hs" "mh_host h = normalize_host host"
    unfolding find_Some_iff using nth_mem by fastforce+
  moreover obtain c where "c \<in> set cs" "compile_hook ops c = Inr h"
    using list_all2_member [OF hs(1) \<open>h \<in> set hs\<close>] by blast
  ultimately show ?thesis using that h(2) by blast
qed

text \<open>
  C13. A secret is added to a request only where a configured hook says so: the hook is one for the host
  of the request, lists its method, has a path prefix or pattern that matches its path, which an upstream
  server can read in one way only, and asks for this header with this source of the secret.
\<close>

theorem secrets_only_where_configured:
  assumes "compile_mitm_hooks ops mitm cs = Inr by_host"
    and "evaluate_mitm_hooks ops by_host host req = Matched actions"
    and "header \<in> set (inject_headers actions)"
  shows "\<exists>c\<in>set cs. normalize_host (hook_host c) = normalize_host host
     \<and> (\<exists>m\<in>set (hook_methods c). to_ascii_uppercase (trim m) = to_ascii_uppercase (request_method req))
     \<and> (\<exists>p\<in>set (hook_path_prefixes c). \<exists>m. compile_path_matcher ops p = Inr m
          \<and> path_matcher_matches ops m (request_path req))
     \<and> is_safe_for_authorization (request_path req)
     \<and> (\<exists>i\<in>set (inject_request_headers c). compile_injected_header ops i = Inr header)"
proof -
  obtain c h where c: "c \<in> set cs" "compile_hook ops c = Inr h" "mh_host h = normalize_host host"
      "hook_matches ops h req" "actions = mh_actions h"
    using evaluate_matchedE [OF assms(1,2)] .
  note fields = compile_hook_fields [OF c(2)]
  have matches: "to_ascii_uppercase (request_method req) \<in> set (mh_methods h)"
      "is_safe_for_authorization (request_path req)" "path_matches ops (mh_path_prefixes h) (request_path req)"
    using c(4) by (auto simp: hook_matches_def list_ex_iff split: if_splits)
  obtain m where m: "m \<in> set (mh_path_prefixes h)" "path_matcher_matches ops m (request_path req)"
    using matches(3) by (auto simp: path_matches_def list_ex_iff)
  obtain p where "p \<in> set (hook_path_prefixes c)" "compile_path_matcher ops p = Inr m"
    using list_all2_member [OF fields(3) m(1)] by blast
  moreover have "\<exists>i\<in>set (inject_request_headers c). compile_injected_header ops i = Inr header"
    using list_all2_member [OF fields(4)] assms(3) c(5) by blast
  moreover have "\<exists>m\<in>set (hook_methods c). to_ascii_uppercase (trim m) = to_ascii_uppercase (request_method req)"
    using matches(1) fields(2) by auto
  ultimately show ?thesis
    using c(1,3) fields(1) matches(2) m(2) by metis
qed

definition plain_hook_ops :: hook_ops where
  "plain_hook_ops = \<lparr>hook_glob_builds = (\<lambda>_ _. True), hook_glob_matches = (\<lambda>_ p s. p = s),
     header_name = (\<lambda>n. Some (to_ascii_lowercase n)), header_value_ok = (\<lambda>_. True),
     query_pairs = (\<lambda>_. []), env_var = (\<lambda>_. Some (lit ''t'')), read_secret = (\<lambda>_. None)\<rparr>"

definition sample_hook :: hook_config where
  "sample_hook = \<lparr>hook_host = lit ''Api.Example.com'', hook_methods = [lit ''post''],
     hook_path_prefixes = [lit ''/repos/''], hook_query = [], hook_headers = [], hook_has_body = False,
     strip_request_headers = [], inject_request_headers =
       [\<lparr>injected_name = lit ''X-Key'', secret_env_var = Some (lit ''KEY''), secret_file = None,
         value_prefix = Some (lit ''k '')\<rparr>]\<rparr>"

definition sample_hook_request :: http_request where
  "sample_hook_request = \<lparr>request_method = lit ''POST'', request_path = lit ''/repos/a%20b'',
     request_query = None, request_headers = []\<rparr>"

theorem secrets_only_where_configured_witness:
  "\<exists>i\<in>set (inject_request_headers sample_hook). compile_injected_header plain_hook_ops i =
     Inr \<lparr>resolved_name = lit ''x-key'', resolved_value = lit ''k t'', resolved_source = EnvVar (lit ''KEY'')\<rparr>"
proof -
  let ?header = "\<lparr>resolved_name = lit ''x-key'', resolved_value = lit ''k t'', resolved_source = EnvVar (lit ''KEY'')\<rparr>"
  let ?actions = "\<lparr>strip_headers = [], inject_headers = [?header]\<rparr>"
  let ?by_host = "projr (compile_mitm_hooks plain_hook_ops True [sample_hook])"
  have compiled: "compile_mitm_hooks plain_hook_ops True [sample_hook] = Inr ?by_host"
    by code_simp
  have matched: "evaluate_mitm_hooks plain_hook_ops ?by_host (lit ''api.example.com:443'') sample_hook_request = Matched ?actions"
    by code_simp
  have header: "?header \<in> set (inject_headers ?actions)"
    by simp
  obtain c where "c \<in> set [sample_hook]"
      "\<exists>i\<in>set (inject_request_headers c). compile_injected_header plain_hook_ops i = Inr ?header"
    using secrets_only_where_configured [OF compiled matched header] by blast
  then show ?thesis
    by (metis empty_iff empty_set set_ConsD)
qed

end
