(* ===== verification/Network_Policy.thy ===== *)
theory Network_Policy
  imports Network_Hooks
begin

text \<open>
  The decisions of the network proxy: its configuration (\<open>network-proxy/src/config.rs\<close>), the limits an
  administrator puts on it (\<open>state.rs\<close>), the state of the running proxy with the decision whether a
  host is blocked and the operations that change the policy (\<open>runtime.rs\<close>), the evaluation of a request
  with an optional decider (\<open>network_policy.rs\<close>), and the check of the address that is finally connected
  to (\<open>connect_policy.rs\<close>).

  \<open>globset\<close>, \<open>url\<close> and the start of the interception are parameters. Name resolution, reloads of the
  configuration, the decider and the interference of other tasks are arguments of the operations that
  meet them. Logging is left out.
\<close>

section \<open>Configuration\<close>

datatype domain_permission = NoPermission | AllowDomain | DenyDomain

fun permission_rank :: "domain_permission \<Rightarrow> nat" where
  "permission_rank NoPermission = 0"
| "permission_rank AllowDomain = 1"
| "permission_rank DenyDomain = 2"

record domain_entry =
  entry_pattern :: rstr
  entry_permission :: domain_permission

datatype socket_permission = AllowSocket | DenySocket

datatype network_mode = Limited | Full

record proxy_config =
  enabled :: bool
  proxy_url :: rstr
  enable_socks5 :: bool
  socks_url :: rstr
  enable_socks5_udp :: bool
  allow_upstream_proxy :: bool
  dangerously_allow_non_loopback_proxy :: bool
  dangerously_allow_all_unix_sockets :: bool
  net_mode :: network_mode
  domains :: "domain_entry list option"
  unix_sockets :: "(rstr \<times> socket_permission) list option"
  allow_local_binding :: bool
  mitm :: bool
  credential_broker :: bool
  credential_broker_openai_host :: "rstr option"
  dangerously_allow_plaintext_credential_injection :: bool
  mitm_hooks :: "hook_config list"

text \<open>
  The patterns in the order of their first entry with the permission that takes precedence: the
  vector of patterns and the tree map of the source as one association list.
\<close>

fun merge_entry :: "(rstr \<times> domain_permission) list \<Rightarrow> domain_entry \<Rightarrow> (rstr \<times> domain_permission) list" where
  "merge_entry [] e = [(entry_pattern e, entry_permission e)]"
| "merge_entry ((pat, perm) # rest) e =
     (if pat = entry_pattern e
      then (pat, if permission_rank (entry_permission e) > permission_rank perm
                 then entry_permission e else perm) # rest
      else (pat, perm) # merge_entry rest e)"

definition effective_entries :: "domain_entry list \<Rightarrow> (rstr \<times> domain_permission) list" where
  "effective_entries entries = foldl merge_entry [] entries"

definition domain_entries :: "proxy_config \<Rightarrow> domain_permission \<Rightarrow> rstr list option" where
  "domain_entries cfg permission =
     (case domains cfg of
        None \<Rightarrow> None
      | Some entries \<Rightarrow>
          (let pats = map fst (filter (\<lambda>(_, perm). perm = permission) (effective_entries entries))
           in if pats \<noteq> [] then Some pats else None))"

definition allowed_domains :: "proxy_config \<Rightarrow> rstr list option" where
  "allowed_domains cfg = domain_entries cfg AllowDomain"

definition denied_domains :: "proxy_config \<Rightarrow> rstr list option" where
  "denied_domains cfg = domain_entries cfg DenyDomain"

text \<open>\<open>Option::unwrap_or_default\<close> on a vector\<close>

fun or_default :: "'a list option \<Rightarrow> 'a list" where
  "or_default None = []"
| "or_default (Some xs) = xs"

definition allow_unix_sockets :: "proxy_config \<Rightarrow> rstr list" where
  "allow_unix_sockets cfg =
     (case unix_sockets cfg of
        None \<Rightarrow> []
      | Some entries \<Rightarrow> map fst (filter (\<lambda>(_, perm). perm = AllowSocket) entries))"

definition nonempty_entries :: "domain_entry list \<Rightarrow> domain_entry list option" where
  "nonempty_entries entries = (if entries \<noteq> [] then Some entries else None)"

fun push_missing :: "domain_permission \<Rightarrow> rstr list \<Rightarrow> domain_entry list \<Rightarrow> domain_entry list" where
  "push_missing permission [] entries = entries"
| "push_missing permission (pat # pats) entries =
     push_missing permission pats
       (if list_ex (\<lambda>e. entry_pattern e = pat \<and> entry_permission e = permission) entries
        then entries
        else entries @ [\<lparr>entry_pattern = pat, entry_permission = permission\<rparr>])"

definition set_domain_entries ::
  "rstr list \<Rightarrow> domain_permission \<Rightarrow> proxy_config \<Rightarrow> proxy_config" where
  "set_domain_entries pats permission cfg =
     cfg\<lparr>domains := nonempty_entries (push_missing permission pats
            (filter (\<lambda>e. entry_permission e \<noteq> permission) (or_default (domains cfg))))\<rparr>"

definition set_allowed_domains :: "rstr list \<Rightarrow> proxy_config \<Rightarrow> proxy_config" where
  "set_allowed_domains pats cfg = set_domain_entries pats AllowDomain cfg"

definition upsert_domain_permission ::
  "rstr \<Rightarrow> domain_permission \<Rightarrow> (rstr \<Rightarrow> rstr) \<Rightarrow> proxy_config \<Rightarrow> proxy_config" where
  "upsert_domain_permission host permission norm_host cfg =
     (let normalized_host = norm_host host;
          kept = filter (\<lambda>e. norm_host (entry_pattern e) \<noteq> normalized_host) (or_default (domains cfg))
      in cfg\<lparr>domains := nonempty_entries
               (kept @ [\<lparr>entry_pattern = host, entry_permission = permission\<rparr>])\<rparr>)"

fun allows_method :: "network_mode \<Rightarrow> rstr \<Rightarrow> bool" where
  "allows_method Full meth = True"
| "allows_method Limited meth = (meth \<in> {lit ''GET'', lit ''HEAD'', lit ''OPTIONS''})"

record socket_addr =
  addr_ip :: ip_addr
  addr_port :: nat

definition loopback_addr :: "nat \<Rightarrow> socket_addr" where
  "loopback_addr port = \<lparr>addr_ip = V4 (ipv4_of_octets [127, 0, 0, 1]), addr_port = port\<rparr>"

definition clamp_non_loopback :: "socket_addr \<Rightarrow> bool \<Rightarrow> socket_addr" where
  "clamp_non_loopback addr allow_non_loopback =
     (if ip_is_loopback (addr_ip addr) then addr
      else if allow_non_loopback then addr
      else loopback_addr (addr_port addr))"

definition clamp_bind_addrs ::
  "socket_addr \<Rightarrow> socket_addr \<Rightarrow> proxy_config \<Rightarrow> socket_addr \<times> socket_addr" where
  "clamp_bind_addrs http_addr socks_addr cfg =
     (let http_addr = clamp_non_loopback http_addr (dangerously_allow_non_loopback_proxy cfg);
          socks_addr = clamp_non_loopback socks_addr (dangerously_allow_non_loopback_proxy cfg)
      in if allow_unix_sockets cfg = [] \<and> \<not> dangerously_allow_all_unix_sockets cfg
         then (http_addr, socks_addr)
         else (loopback_addr (addr_port http_addr), loopback_addr (addr_port socks_addr)))"

text \<open>On Unix a socket path is accepted if it is absolute.\<close>

definition validate_unix_socket_allowlist_paths :: "proxy_config \<Rightarrow> bool" where
  "validate_unix_socket_allowlist_paths cfg =
     list_all (\<lambda>path. starts_with path (lit ''/'')) (allow_unix_sockets cfg)"

section \<open>Managed constraints\<close>

record network_constraints =
  max_enabled :: "bool option"
  max_mode :: "network_mode option"
  max_upstream_proxy :: "bool option"
  max_non_loopback_proxy :: "bool option"
  max_all_unix_sockets :: "bool option"
  managed_allowed_domains :: "rstr list option"
  allowlist_expansion_enabled :: "bool option"
  managed_denied_domains :: "rstr list option"
  denylist_expansion_enabled :: "bool option"
  managed_unix_sockets :: "rstr list option"
  max_local_binding :: "bool option"

text \<open>An error names its field; the texts, which list sets in no fixed order, are left out.\<close>

datatype constraint_error = InvalidValue rstr

record proxy_ops =
  proxy_globs :: globs
  url_host :: "rstr \<Rightarrow> rstr option"
  proxy_hook_ops :: hook_ops
  mitm_starts :: "bool \<Rightarrow> bool"

fun network_mode_rank :: "network_mode \<Rightarrow> nat" where
  "network_mode_rank Limited = 0"
| "network_mode_rank Full = 1"

definition validate_value :: "rstr \<Rightarrow> bool \<Rightarrow> constraint_error + unit" where
  "validate_value field ok = (if ok then Inr () else Inl (InvalidValue field))"

definition validate_non_global_wildcard_domain_patterns ::
  "rstr \<Rightarrow> rstr list \<Rightarrow> constraint_error + unit" where
  "validate_non_global_wildcard_domain_patterns field pats =
     validate_value field (\<not> list_ex is_global_wildcard_domain_pattern pats)"

definition lower_set :: "rstr list \<Rightarrow> rstr set" where
  "lower_set entries = set (map to_ascii_lowercase entries)"

definition validate_allowed_domains ::
  "proxy_ops \<Rightarrow> proxy_config \<Rightarrow> network_constraints \<Rightarrow> constraint_error + unit" where
  "validate_allowed_domains ops cfg constraints =
     (let candidate = or_default (allowed_domains cfg);
          denied_overrides = lower_set (or_default (denied_domains cfg));
          field = lit ''network.allowed_domains''
      in case managed_allowed_domains constraints of
           None \<Rightarrow> Inr ()
         | Some managed \<Rightarrow>
             res_bind (validate_non_global_wildcard_domain_patterns field managed) (\<lambda>_.
               case allowlist_expansion_enabled constraints of
                 Some True \<Rightarrow>
                   validate_value field (lower_set managed - lower_set candidate - denied_overrides = {})
               | Some False \<Rightarrow>
                   validate_value field (lower_set candidate = lower_set managed - denied_overrides)
               | None \<Rightarrow>
                   validate_value field
                     (list_all (\<lambda>entry. list_ex (\<lambda>pat.
                        allows (parse_for_constraints (url_host ops) pat)
                          (parse_for_constraints (url_host ops) entry)) managed) candidate)))"

definition validate_denied_domains ::
  "proxy_config \<Rightarrow> network_constraints \<Rightarrow> constraint_error + unit" where
  "validate_denied_domains cfg constraints =
     (let candidate = or_default (denied_domains cfg); field = lit ''network.denied_domains''
      in case managed_denied_domains constraints of
           None \<Rightarrow> Inr ()
         | Some managed \<Rightarrow>
             res_bind (validate_non_global_wildcard_domain_patterns field managed) (\<lambda>_.
               case denylist_expansion_enabled constraints of
                 Some False \<Rightarrow> validate_value field (lower_set candidate = lower_set managed)
               | _ \<Rightarrow> validate_value field (lower_set managed - lower_set candidate = {})))"

definition validate_policy_against_constraints ::
  "proxy_ops \<Rightarrow> proxy_config \<Rightarrow> network_constraints \<Rightarrow> constraint_error + unit" where
  "validate_policy_against_constraints ops cfg constraints =
     res_bind (validate_value (lit ''network.mitm_hooks'') (res_ok (validate_mitm_hook_config (proxy_hook_ops ops) (mitm cfg) (mitm_hooks cfg)))) (\<lambda>_.
     res_bind (validate_non_global_wildcard_domain_patterns (lit ''network.denied_domains'')
                 (or_default (denied_domains cfg))) (\<lambda>_.
     res_bind (case max_enabled constraints of
                 None \<Rightarrow> Inr ()
               | Some limit \<Rightarrow> validate_value (lit ''network.enabled'') (\<not> (enabled cfg \<and> \<not> limit))) (\<lambda>_.
     res_bind (case max_mode constraints of
                 None \<Rightarrow> Inr ()
               | Some limit \<Rightarrow> validate_value (lit ''network.mode'')
                                (\<not> network_mode_rank (net_mode cfg) > network_mode_rank limit)) (\<lambda>_.
     res_bind (case max_upstream_proxy constraints of
                 Some False \<Rightarrow> validate_value (lit ''network.allow_upstream_proxy'') (\<not> allow_upstream_proxy cfg)
               | _ \<Rightarrow> Inr ()) (\<lambda>_.
     res_bind (case max_non_loopback_proxy constraints of
                 Some False \<Rightarrow> validate_value (lit ''network.dangerously_allow_non_loopback_proxy'')
                                (\<not> dangerously_allow_non_loopback_proxy cfg)
               | _ \<Rightarrow> Inr ()) (\<lambda>_.
     res_bind (validate_value (lit ''network.dangerously_allow_all_unix_sockets'')
                 (\<not> (dangerously_allow_all_unix_sockets cfg \<and>
                    \<not> (case max_all_unix_sockets constraints of
                         Some limit \<Rightarrow> limit
                       | None \<Rightarrow> managed_unix_sockets constraints = None)))) (\<lambda>_.
     res_bind (case max_local_binding constraints of
                 None \<Rightarrow> Inr ()
               | Some limit \<Rightarrow> validate_value (lit ''network.allow_local_binding'')
                                (\<not> (allow_local_binding cfg \<and> \<not> limit))) (\<lambda>_.
     res_bind (validate_allowed_domains ops cfg constraints) (\<lambda>_.
     res_bind (validate_denied_domains cfg constraints) (\<lambda>_.
       case managed_unix_sockets constraints of
         None \<Rightarrow> Inr ()
       | Some managed \<Rightarrow>
           validate_value (lit ''network.allow_unix_sockets'')
             (list_all (\<lambda>entry. to_ascii_lowercase entry \<in> lower_set managed)
                (allow_unix_sockets cfg))))))))))))"

section \<open>The state of the proxy\<close>

record blocked_request =
  blocked_host :: rstr
  blocked_reason :: rstr
  blocked_client :: "rstr option"
  blocked_method :: "rstr option"
  blocked_mode :: "network_mode option"
  blocked_protocol :: rstr
  blocked_execution_id :: "rstr option"
  blocked_decision :: "rstr option"
  blocked_source :: "rstr option"
  blocked_port :: "nat option"
  blocked_timestamp :: int

record config_state =
  config :: "proxy_config"
  brokerage_created_default_allowlist :: bool
  allow_set :: glob_set
  deny_set :: glob_set
  compiled_hooks :: hooks_by_host
  constraints :: network_constraints
  blocked :: "blocked_request list"
  blocked_total :: nat

datatype proxy_error =
    InvalidSocketPath
  | BrokerRequiresMitm
  | GlobFailed glob_error
  | ConstraintFailed constraint_error
  | MitmHooksFailed hook_error
  | MitmFailed
  | InvalidHost
  | ReloadFailed

definition brokered_config :: "proxy_config \<Rightarrow> network_constraints \<Rightarrow> proxy_config \<times> bool" where
  "brokered_config cfg cs =
     (let cfg = (if max_enabled cs = Some False then cfg\<lparr>credential_broker := False\<rparr> else cfg);
          created_proxy = (credential_broker cfg \<and> \<not> enabled cfg);
          created_allowlist = (created_proxy \<and> allowed_domains cfg = None
                                \<and> managed_allowed_domains cs = None);
          cfg = (if created_proxy then cfg\<lparr>enabled := True\<rparr> else cfg);
          cfg = (if created_allowlist then set_allowed_domains [lit ''*''] cfg else cfg)
      in (cfg, created_allowlist))"

definition build_config_state ::
  "proxy_ops \<Rightarrow> proxy_config \<Rightarrow> network_constraints \<Rightarrow> proxy_error + config_state" where
  "build_config_state ops cfg cs =
     (let (cfg, created_allowlist) = brokered_config cfg cs in
      if \<not> validate_unix_socket_allowlist_paths cfg then Inl InvalidSocketPath
      else if credential_broker cfg \<and> \<not> mitm cfg then Inl BrokerRequiresMitm
      else
        res_bind (map_err ConstraintFailed
                   (validate_non_global_wildcard_domain_patterns (lit ''network.denied_domains'')
                      (or_default (denied_domains cfg)))) (\<lambda>_.
        res_bind (map_err GlobFailed
                   (compile_denylist_globset (proxy_globs ops) (or_default (denied_domains cfg)))) (\<lambda>deny.
        res_bind (map_err GlobFailed
                   (compile_allowlist_globset (proxy_globs ops) (or_default (allowed_domains cfg)))) (\<lambda>allow.
        res_bind (map_err MitmHooksFailed
                   (compile_mitm_hooks (proxy_hook_ops ops) (mitm cfg) (mitm_hooks cfg))) (\<lambda>hooks.
          if mitm cfg \<and> \<not> mitm_starts ops (allow_upstream_proxy cfg) then Inl MitmFailed
          else Inr \<lparr>config = cfg, brokerage_created_default_allowlist = created_allowlist,
                   allow_set = allow, deny_set = deny, compiled_hooks = hooks,
                   constraints = cs, blocked = [], blocked_total = 0\<rparr>)))))"

text \<open>
  The reloader reports an error, that nothing changed, or a freshly built state, which takes over
  the recorded requests.
\<close>

type_synonym reload = "proxy_error + config_state option"

definition reload_if_needed ::
  "reload \<Rightarrow> config_state \<Rightarrow> config_state \<times> (proxy_error + unit)" where
  "reload_if_needed reload st =
     (case reload of
        Inl e \<Rightarrow> (st, Inl e)
      | Inr None \<Rightarrow> (st, Inr ())
      | Inr (Some new_state) \<Rightarrow>
          (new_state\<lparr>blocked := blocked st, blocked_total := blocked_total st\<rparr>, Inr ()))"

definition replace_config_state ::
  "reload \<Rightarrow> config_state \<Rightarrow> config_state \<Rightarrow> config_state \<times> (proxy_error + unit)" where
  "replace_config_state reload new_state st =
     (case reload_if_needed reload st of
        (st, Inl e) \<Rightarrow> (st, Inl e)
      | (st, Inr _) \<Rightarrow> (new_state\<lparr>blocked := blocked st, blocked_total := blocked_total st\<rparr>, Inr ()))"

definition force_reload ::
  "proxy_error + config_state \<Rightarrow> config_state \<Rightarrow> config_state \<times> (proxy_error + unit)" where
  "force_reload reloaded st =
     (case reloaded of
        Inl e \<Rightarrow> (st, Inl e)
      | Inr new_state \<Rightarrow> (new_state\<lparr>blocked := blocked st\<rparr>, Inr ()))"

subsection \<open>Blocked hosts\<close>

datatype host_block_reason = Denied | NotAllowed | NotAllowedLocal

datatype host_block_decision = Allowed | Blocked host_block_reason

datatype lookup_result = Resolved "ip_addr list" | LookupFailed | LookupTimedOut

definition host_resolves_to_non_public_ip :: "(rstr \<Rightarrow> nat \<Rightarrow> lookup_result) \<Rightarrow> rstr \<Rightarrow> nat \<Rightarrow> bool" where
  "host_resolves_to_non_public_ip lookup host port =
     (case parse_ip_addr host of
        Some ip \<Rightarrow> is_non_public_ip ip
      | None \<Rightarrow>
          (case lookup host port of
             Resolved addrs \<Rightarrow> list_ex is_non_public_ip addrs
           | LookupFailed \<Rightarrow> True
           | LookupTimedOut \<Rightarrow> True))"

definition is_explicit_local_allowlisted :: "rstr list \<Rightarrow> rstr \<Rightarrow> bool" where
  "is_explicit_local_allowlisted allowed host =
     list_ex (\<lambda>pat.
       let pat = trim pat in
       if pat = lit ''*'' \<or> starts_with pat (lit ''*.'') \<or> starts_with pat (lit ''**.'') then False
       else if 42 \<in> set pat \<or> 63 \<in> set pat then False
       else normalize_host pat = host
            \<or> (case unscoped_ip_literal host of Some ip \<Rightarrow> normalize_host pat = ip | None \<Rightarrow> False))
     allowed"

definition is_local_literal :: "rstr \<Rightarrow> bool" where
  "is_local_literal host =
     (let host_no_scope = (case unscoped_ip_literal host of Some ip \<Rightarrow> ip | None \<Rightarrow> host) in
      if is_loopback_host host then True
      else (case parse_ip_addr host_no_scope of Some ip \<Rightarrow> is_non_public_ip ip | None \<Rightarrow> False))"

definition decide_host ::
  "proxy_ops \<Rightarrow> config_state \<Rightarrow> (rstr \<Rightarrow> nat \<Rightarrow> lookup_result) \<Rightarrow> rstr \<Rightarrow> nat \<Rightarrow> host_block_decision" where
  "decide_host ops st lookup host port =
     (let allowed = allowed_domains (config st);
          is_allowlisted = globset_matches_host_or_unscoped (proxy_globs ops) (allow_set st) host
      in if globset_matches_host_or_unscoped (proxy_globs ops) (deny_set st) host
         then Blocked Denied
         else if \<not> allow_local_binding (config st) \<and>
                 (if is_local_literal host
                  then \<not> is_explicit_local_allowlisted (or_default allowed) host
                  else host_resolves_to_non_public_ip lookup host port)
         then Blocked NotAllowedLocal
         else if allowed = None \<or> \<not> is_allowlisted then Blocked NotAllowed
         else Allowed)"

definition host_blocked ::
  "proxy_ops \<Rightarrow> reload \<Rightarrow> (rstr \<Rightarrow> nat \<Rightarrow> lookup_result) \<Rightarrow> rstr \<Rightarrow> nat \<Rightarrow> config_state
   \<Rightarrow> config_state \<times> (proxy_error + host_block_decision)" where
  "host_blocked ops reload lookup host port st =
     (case reload_if_needed reload st of
        (st, Inl e) \<Rightarrow> (st, Inl e)
      | (st, Inr _) \<Rightarrow>
          (st, case parse_host host of
                 Inl _ \<Rightarrow> Inr (Blocked NotAllowed)
               | Inr host \<Rightarrow> Inr (decide_host ops st lookup host port)))"

subsection \<open>Recording blocked requests\<close>

definition MAX_BLOCKED_EVENTS :: nat where "MAX_BLOCKED_EVENTS = 200"

definition record_blocked ::
  "reload \<Rightarrow> rstr option \<Rightarrow> blocked_request \<Rightarrow> config_state \<Rightarrow> config_state \<times> (proxy_error + unit)" where
  "record_blocked reload execution_id entry st =
     (case reload_if_needed reload st of
        (st, Inl e) \<Rightarrow> (st, Inl e)
      | (st, Inr _) \<Rightarrow>
          (let entry = entry\<lparr>blocked_execution_id := execution_id\<rparr>;
               entries = blocked st @ [entry]
           in (st\<lparr>blocked := drop (length entries - MAX_BLOCKED_EVENTS) entries,
                  blocked_total := saturating_add (blocked_total st) 1\<rparr>, Inr ())))"

definition drain_blocked ::
  "reload \<Rightarrow> config_state \<Rightarrow> config_state \<times> (proxy_error + blocked_request list)" where
  "drain_blocked reload st =
     (case reload_if_needed reload st of
        (st, Inl e) \<Rightarrow> (st, Inl e)
      | (st, Inr _) \<Rightarrow> (st\<lparr>blocked := []\<rparr>, Inr (blocked st)))"

subsection \<open>Changing the policy\<close>

text \<open>
  A change is computed from a snapshot of the state and written later, when other tasks may have
  changed the state. An attempt is given what the reloader reports and what the others do in between;
  when the snapshot is outdated the loop tries again. The result is nothing while it still tries.
\<close>

record attempt =
  attempt_reload :: "reload"
  interference :: "config_state \<Rightarrow> config_state"

datatype domain_list_kind = AllowList | DenyList

fun list_permission :: "domain_list_kind \<Rightarrow> domain_permission" where
  "list_permission AllowList = AllowDomain"
| "list_permission DenyList = DenyDomain"

fun list_entries :: "domain_list_kind \<Rightarrow> proxy_config \<Rightarrow> rstr list" where
  "list_entries AllowList cfg = or_default (allowed_domains cfg)"
| "list_entries DenyList cfg = or_default (denied_domains cfg)"

fun opposite_entries :: "domain_list_kind \<Rightarrow> proxy_config \<Rightarrow> rstr list" where
  "opposite_entries AllowList cfg = or_default (denied_domains cfg)"
| "opposite_entries DenyList cfg = or_default (allowed_domains cfg)"

fun update_loop ::
  "proxy_ops \<Rightarrow> rstr \<Rightarrow> domain_list_kind \<Rightarrow> attempt list \<Rightarrow> config_state
   \<Rightarrow> config_state \<times> (proxy_error + unit) option" where
  "update_loop ops host target [] st = (st, None)"
| "update_loop ops host target (a # attempts) st =
     (case reload_if_needed (attempt_reload a) st of
        (st, Inl e) \<Rightarrow> (st, Some (Inl e))
      | (st, Inr _) \<Rightarrow>
          (let target_contains = list_ex (\<lambda>e. normalize_host e = host) (list_entries target (config st));
               opposite_contains = list_ex (\<lambda>e. normalize_host e = host) (opposite_entries target (config st));
               candidate = upsert_domain_permission host (list_permission target) normalize_host (config st)
           in if target_contains \<and> \<not> opposite_contains then (st, Some (Inr ()))
              else case validate_policy_against_constraints ops candidate (constraints st) of
                     Inl e \<Rightarrow> (st, Some (Inl (ConstraintFailed e)))
                   | Inr _ \<Rightarrow>
                       (case build_config_state ops candidate (constraints st) of
                          Inl e \<Rightarrow> (st, Some (Inl e))
                        | Inr built \<Rightarrow>
                            (let new_state = built\<lparr>blocked := blocked st, blocked_total := blocked_total st\<rparr>;
                                 now = interference a st
                             in if constraints now \<noteq> constraints st \<or> config now \<noteq> config st
                                then update_loop ops host target attempts now
                                else (new_state, Some (Inr ()))))))"

definition update_domain_list ::
  "proxy_ops \<Rightarrow> rstr \<Rightarrow> domain_list_kind \<Rightarrow> attempt list \<Rightarrow> config_state
   \<Rightarrow> config_state \<times> (proxy_error + unit) option" where
  "update_domain_list ops host target attempts st =
     (case parse_host host of
        Inl _ \<Rightarrow> (st, Some (Inl InvalidHost))
      | Inr host \<Rightarrow> update_loop ops host target attempts st)"

definition add_allowed_domain where
  "add_allowed_domain ops host attempts st = update_domain_list ops host AllowList attempts st"

definition add_denied_domain where
  "add_denied_domain ops host attempts st = update_domain_list ops host DenyList attempts st"

fun set_network_mode ::
  "proxy_ops \<Rightarrow> network_mode \<Rightarrow> attempt list \<Rightarrow> config_state
   \<Rightarrow> config_state \<times> (proxy_error + unit) option" where
  "set_network_mode ops new_mode [] st = (st, None)"
| "set_network_mode ops new_mode (a # attempts) st =
     (case reload_if_needed (attempt_reload a) st of
        (st, Inl e) \<Rightarrow> (st, Some (Inl e))
      | (st, Inr _) \<Rightarrow>
          (case validate_policy_against_constraints ops ((config st)\<lparr>net_mode := new_mode\<rparr>) (constraints st) of
             Inl e \<Rightarrow> (st, Some (Inl (ConstraintFailed e)))
           | Inr _ \<Rightarrow>
               (let now = interference a st in
                if constraints now \<noteq> constraints st
                then set_network_mode ops new_mode attempts now
                else (now\<lparr>config := (config now)\<lparr>net_mode := new_mode\<rparr>\<rparr>, Some (Inr ())))))"

subsection \<open>Hooks\<close>

definition evaluate_mitm_hook_request ::
  "proxy_ops \<Rightarrow> reload \<Rightarrow> rstr \<Rightarrow> http_request \<Rightarrow> config_state
   \<Rightarrow> config_state \<times> (proxy_error + hook_evaluation)" where
  "evaluate_mitm_hook_request ops reload host req st =
     (case reload_if_needed reload st of
        (st, Inl e) \<Rightarrow> (st, Inl e)
      | (st, Inr _) \<Rightarrow> (st, Inr (evaluate_mitm_hooks (proxy_hook_ops ops) (compiled_hooks st) host req)))"

section \<open>Evaluating a request\<close>

datatype network_protocol = Http | HttpsConnect | Socks5Tcp | Socks5Udp

datatype decision_source = BaselinePolicy | ModeGuard | ProxyState | Decider

datatype policy_decision = DenyRequest | AskUser

datatype network_decision =
    AllowRequest
  | RefuseRequest (refusal_reason: rstr) (refusal_source: decision_source) (refusal_decision: policy_decision)

record policy_request =
  req_protocol :: network_protocol
  req_host :: rstr
  req_port :: nat
  req_environment_id :: "rstr option"
  req_client_addr :: "rstr option"
  req_method :: "rstr option"
  req_command :: "rstr option"
  req_exec_policy_hint :: "rstr option"
  req_execution_id :: "rstr option"

text \<open>The event without its time.\<close>

record audit_event =
  event_scope :: rstr
  event_decision :: rstr
  event_source :: decision_source
  event_reason :: rstr
  event_protocol :: network_protocol
  event_host :: rstr
  event_port :: nat
  event_method :: "rstr option"
  event_client :: "rstr option"
  policy_override :: bool

fun block_reason_as_str :: "host_block_reason \<Rightarrow> rstr" where
  "block_reason_as_str Denied = lit ''denied''"
| "block_reason_as_str NotAllowed = lit ''not_allowed''"
| "block_reason_as_str NotAllowedLocal = lit ''not_allowed_local''"

fun policy_decision_as_str :: "policy_decision \<Rightarrow> rstr" where
  "policy_decision_as_str DenyRequest = lit ''deny''"
| "policy_decision_as_str AskUser = lit ''ask''"

definition deny_with_source :: "rstr \<Rightarrow> decision_source \<Rightarrow> network_decision" where
  "deny_with_source reason source =
     RefuseRequest (if reason = [] then lit ''policy_denied'' else reason) source DenyRequest"

fun map_decider_decision :: "network_decision \<Rightarrow> network_decision" where
  "map_decider_decision AllowRequest = AllowRequest"
| "map_decider_decision (RefuseRequest reason _ decision) = RefuseRequest reason Decider decision"

record proxy_ids =
  environment_id :: "rstr option"
  execution_id :: "rstr option"

definition decider_request :: "proxy_ids \<Rightarrow> policy_request \<Rightarrow> policy_request" where
  "decider_request ids req =
     (let req = (if req_environment_id req = None \<and> environment_id ids \<noteq> None
                 then req\<lparr>req_environment_id := environment_id ids\<rparr> else req)
      in req\<lparr>req_execution_id := execution_id ids\<rparr>)"

definition resolve_decision ::
  "proxy_ids \<Rightarrow> (policy_request \<Rightarrow> network_decision) option \<Rightarrow> policy_request \<Rightarrow> host_block_decision
   \<Rightarrow> network_decision \<times> bool" where
  "resolve_decision ids decider req host_decision =
     (case host_decision of
        Allowed \<Rightarrow> (AllowRequest, False)
      | Blocked NotAllowed \<Rightarrow>
          (case decider of
             Some decide \<Rightarrow>
               (let decided = map_decider_decision (decide (decider_request ids req))
                in (decided, decided = AllowRequest))
           | None \<Rightarrow> (deny_with_source (block_reason_as_str NotAllowed) BaselinePolicy, False))
      | Blocked reason \<Rightarrow> (deny_with_source (block_reason_as_str reason) BaselinePolicy, False))"

definition decision_event :: "policy_request \<Rightarrow> network_decision \<Rightarrow> bool \<Rightarrow> audit_event" where
  "decision_event req decision override =
     (let (policy_decision, source, reason) =
        (case decision of
           AllowRequest \<Rightarrow>
             (lit ''allow'', if override then Decider else BaselinePolicy,
              if override then block_reason_as_str NotAllowed else lit ''allow'')
         | RefuseRequest reason source decided \<Rightarrow> (policy_decision_as_str decided, source, reason))
      in \<lparr>event_scope = lit ''domain'', event_decision = policy_decision, event_source = source,
          event_reason = reason, event_protocol = req_protocol req, event_host = req_host req,
          event_port = req_port req, event_method = req_method req, event_client = req_client_addr req,
          policy_override = override\<rparr>)"

definition evaluate_host_policy ::
  "proxy_ops \<Rightarrow> reload \<Rightarrow> (rstr \<Rightarrow> nat \<Rightarrow> lookup_result) \<Rightarrow> proxy_ids
   \<Rightarrow> (policy_request \<Rightarrow> network_decision) option \<Rightarrow> policy_request \<Rightarrow> config_state
   \<Rightarrow> config_state \<times> (proxy_error + network_decision \<times> audit_event)" where
  "evaluate_host_policy ops reload lookup ids decider req st =
     (case host_blocked ops reload lookup (req_host req) (req_port req) st of
        (st, Inl e) \<Rightarrow> (st, Inl e)
      | (st, Inr host_decision) \<Rightarrow>
          (let (decision, override) = resolve_decision ids decider req host_decision
           in (st, Inr (decision, decision_event req decision override))))"

section \<open>Connecting\<close>

text \<open>
  The host of a target as the networking library has it, with the text it prints for it a parameter.
  A connection is dialled, rejected by policy, or fails with an error of the state.
\<close>

datatype target_host = Address ip_addr | Name rstr

datatype connect_outcome = Dials socket_addr | RejectedByPolicy | ConnectError proxy_error

definition names_localhost :: "rstr \<Rightarrow> bool" where
  "names_localhost name =
     (to_ascii_lowercase (trim_end_matches (\<lambda>c. c = 46) name) = lit ''localhost'')"

fun is_non_public_target :: "target_host \<Rightarrow> bool" where
  "is_non_public_target (Address ip) = is_non_public_ip ip"
| "is_non_public_target (Name name) = names_localhost name"

fun target_matches_non_public_addr :: "target_host \<Rightarrow> ip_addr \<Rightarrow> bool" where
  "target_matches_non_public_addr (Address ip) addr = (ip = addr)"
| "target_matches_non_public_addr (Name name) addr = (names_localhost name \<and> ip_is_loopback addr)"

definition read_allow_local_binding ::
  "reload \<Rightarrow> config_state \<Rightarrow> config_state \<times> (proxy_error + bool)" where
  "read_allow_local_binding reload st =
     (case reload_if_needed reload st of
        (st, Inl e) \<Rightarrow> (st, Inl e)
      | (st, Inr _) \<Rightarrow> (st, Inr (allow_local_binding (config st))))"

definition allows_non_public_target ::
  "proxy_ops \<Rightarrow> (target_host \<Rightarrow> rstr) \<Rightarrow> reload \<Rightarrow> reload \<Rightarrow> (rstr \<Rightarrow> nat \<Rightarrow> lookup_result)
   \<Rightarrow> target_host \<Rightarrow> nat \<Rightarrow> ip_addr \<Rightarrow> config_state \<Rightarrow> config_state \<times> (proxy_error + bool)" where
  "allows_non_public_target ops display reload reload' lookup target port addr st =
     (case read_allow_local_binding reload st of
        (st, Inl e) \<Rightarrow> (st, Inl e)
      | (st, Inr True) \<Rightarrow> (st, Inr True)
      | (st, Inr False) \<Rightarrow>
          if \<not> target_matches_non_public_addr target addr then (st, Inr False)
          else (case host_blocked ops reload' lookup (display target) port st of
                  (st, Inl e) \<Rightarrow> (st, Inl e)
                | (st, Inr decision) \<Rightarrow> (st, Inr (decision = Allowed))))"

definition connect ::
  "proxy_ops \<Rightarrow> (target_host \<Rightarrow> rstr) \<Rightarrow> reload \<Rightarrow> reload \<Rightarrow> (rstr \<Rightarrow> nat \<Rightarrow> lookup_result)
   \<Rightarrow> target_host \<Rightarrow> nat \<Rightarrow> socket_addr \<Rightarrow> config_state \<Rightarrow> config_state \<times> connect_outcome" where
  "connect ops display reload reload' lookup target port addr st =
     (if \<not> is_non_public_ip (addr_ip addr) then (st, Dials addr)
      else case allows_non_public_target ops display reload reload' lookup target port (addr_ip addr) st of
             (st, Inl e) \<Rightarrow> (st, ConnectError e)
           | (st, Inr True) \<Rightarrow> (st, Dials addr)
           | (st, Inr False) \<Rightarrow> (st, RejectedByPolicy))"

text \<open>
  One attempt of the connector, at the address that the networking library chose. A request that is to
  go through an upstream proxy is not checked: the address is that of the proxy. The target is what the
  library reads from the request: an error, or a host with or without a port.
\<close>

datatype serve_outcome = DialsUpstream socket_addr | TargetError rstr | Attempted connect_outcome

definition serve ::
  "proxy_ops \<Rightarrow> (target_host \<Rightarrow> rstr) \<Rightarrow> reload \<Rightarrow> reload \<Rightarrow> (rstr \<Rightarrow> nat \<Rightarrow> lookup_result)
   \<Rightarrow> bool \<Rightarrow> rstr + (target_host \<times> nat) option \<Rightarrow> socket_addr \<Rightarrow> config_state
   \<Rightarrow> config_state \<times> serve_outcome" where
  "serve ops display reload reload' lookup has_proxy_address target addr st =
     (if has_proxy_address then (st, DialsUpstream addr)
      else case target of
             Inl _ \<Rightarrow> (st, TargetError (lit ''read network target''))
           | Inr None \<Rightarrow> (st, TargetError (lit ''network target is missing a port''))
           | Inr (Some (host, port)) \<Rightarrow>
               map_prod id Attempted (connect ops display reload reload' lookup host port addr st))"

section \<open>What a decision rests on\<close>

definition resolves_public :: "(rstr \<Rightarrow> nat \<Rightarrow> lookup_result) \<Rightarrow> rstr \<Rightarrow> nat \<Rightarrow> bool" where
  "resolves_public lookup host port =
     (case parse_ip_addr host of
        Some ip \<Rightarrow> \<not> is_non_public_ip ip
      | None \<Rightarrow>
          (case lookup host port of
             Resolved addrs \<Rightarrow> list_all (\<lambda>ip. \<not> is_non_public_ip ip) addrs
           | _ \<Rightarrow> False))"

definition local_access_granted ::
  "config_state \<Rightarrow> (rstr \<Rightarrow> nat \<Rightarrow> lookup_result) \<Rightarrow> rstr \<Rightarrow> nat \<Rightarrow> bool" where
  "local_access_granted st lookup host port \<longleftrightarrow>
     allow_local_binding (config st)
     \<or> is_local_literal host \<and> is_explicit_local_allowlisted (or_default (allowed_domains (config st))) host
     \<or> \<not> is_local_literal host \<and> resolves_public lookup host port"

abbreviation denied where
  "denied ops st host \<equiv> globset_matches_host_or_unscoped (proxy_globs ops) (deny_set st) host"

abbreviation allowlisted where
  "allowlisted ops st host \<equiv> allowed_domains (config st) \<noteq> None
     \<and> globset_matches_host_or_unscoped (proxy_globs ops) (allow_set st) host"

lemma resolves_public_iff:
  "resolves_public lookup host port \<longleftrightarrow> \<not> host_resolves_to_non_public_ip lookup host port"
  by (auto simp: resolves_public_def host_resolves_to_non_public_ip_def list_all_iff list_ex_iff
      split: option.splits lookup_result.splits)

lemma decide_host_cases:
  "decide_host ops st lookup host port =
     (if denied ops st host then Blocked Denied
      else if \<not> local_access_granted st lookup host port then Blocked NotAllowedLocal
      else if allowlisted ops st host then Allowed else Blocked NotAllowed)"
  by (auto simp: decide_host_def local_access_granted_def resolves_public_iff Let_def)

lemma map_decider_allow [simp]: "map_decider_decision d = AllowRequest \<longleftrightarrow> d = AllowRequest"
  by (cases d) auto

lemma event_override [simp]: "policy_override (decision_event req d ov) = ov"
  by (simp add: decision_event_def split: network_decision.splits)

text \<open>
  C9. A request for a host is allowed exactly if no deny pattern matches the host, access to the local
  network is not at stake or granted, and the host is on the allowlist or the decider allows it: the
  decider is never able to override a deny pattern or the protection of the local network. The audit
  event reports an override exactly for the requests that only the decider allowed.
\<close>

theorem evaluate_host_policy_allows:
  assumes "reload_if_needed reload st = (st', Inr ())"
    and "parse_host (req_host req) = Inr host"
  shows "\<exists>decision event. evaluate_host_policy ops reload lookup ids decider req st = (st', Inr (decision, event))
     \<and> (decision = AllowRequest \<longleftrightarrow>
          \<not> denied ops st' host \<and> local_access_granted st' lookup host (req_port req)
          \<and> (allowlisted ops st' host
             \<or> (\<exists>decide. decider = Some decide \<and> decide (decider_request ids req) = AllowRequest)))
     \<and> (policy_override event \<longleftrightarrow> decision = AllowRequest \<and> \<not> allowlisted ops st' host)"
  using assms
  by (cases decider)
    (simp_all add: evaluate_host_policy_def host_blocked_def decide_host_cases resolve_decision_def
      deny_with_source_def Let_def)

text \<open>
  An instance for the witnesses: globs without wildcards, no hooks, a proxy that denies one name and
  allows a second name and a local address.
\<close>

definition plain_globs :: globs where
  "plain_globs = \<lparr>glob_builds = (\<lambda>_. True), glob_set_builds = (\<lambda>_. True),
     glob_matches = (\<lambda>p h. to_ascii_lowercase p = to_ascii_lowercase h)\<rparr>"

definition plain_ops :: "proxy_ops" where
  "plain_ops = \<lparr>proxy_globs = plain_globs, url_host = Some, proxy_hook_ops = plain_hook_ops,
     mitm_starts = (\<lambda>_. True)\<rparr>"

definition plain_config :: "domain_entry list \<Rightarrow> proxy_config" where
  "plain_config entries = \<lparr>enabled = True, proxy_url = [], enable_socks5 = True, socks_url = [],
     enable_socks5_udp = True, allow_upstream_proxy = True, dangerously_allow_non_loopback_proxy = False,
     dangerously_allow_all_unix_sockets = False, net_mode = Full, domains = Some entries, unix_sockets = None,
     allow_local_binding = False, mitm = False, credential_broker = False,
     credential_broker_openai_host = None, dangerously_allow_plaintext_credential_injection = False,
     mitm_hooks = []\<rparr>"

definition no_constraints :: network_constraints where
  "no_constraints = \<lparr>max_enabled = None, max_mode = None, max_upstream_proxy = None,
     max_non_loopback_proxy = None, max_all_unix_sockets = None, managed_allowed_domains = None,
     allowlist_expansion_enabled = None, managed_denied_domains = None,
     denylist_expansion_enabled = None, managed_unix_sockets = None, max_local_binding = None\<rparr>"

definition plain_state :: "config_state" where
  "plain_state = \<lparr>config = plain_config
       [\<lparr>entry_pattern = lit ''a.b'', entry_permission = AllowDomain\<rparr>,
        \<lparr>entry_pattern = lit ''10.0.0.1'', entry_permission = AllowDomain\<rparr>,
        \<lparr>entry_pattern = lit ''c.d'', entry_permission = DenyDomain\<rparr>],
     brokerage_created_default_allowlist = False, allow_set = [lit ''a.b'', lit ''10.0.0.1''],
     deny_set = [lit ''c.d''], compiled_hooks = [], constraints = no_constraints, blocked = [], blocked_total = 0\<rparr>"

definition plain_request :: "rstr \<Rightarrow> policy_request" where
  "plain_request host = \<lparr>req_protocol = Http, req_host = host, req_port = 80, req_environment_id = None,
     req_client_addr = None, req_method = None, req_command = None, req_exec_policy_hint = None,
     req_execution_id = None\<rparr>"

definition plain_ids :: proxy_ids where
  "plain_ids = \<lparr>environment_id = None, execution_id = None\<rparr>"

theorem evaluate_host_policy_allows_witness:
  "\<exists>decision event. evaluate_host_policy plain_ops (Inr None) (\<lambda>_ _. Resolved []) plain_ids
        (Some (\<lambda>_. AllowRequest)) (plain_request (lit ''C.d'')) plain_state = (plain_state, Inr (decision, event))
     \<and> decision \<noteq> AllowRequest \<and> \<not> policy_override event"
proof -
  have "reload_if_needed (Inr None) plain_state = (plain_state, Inr ())"
    by (simp add: reload_if_needed_def)
  moreover have "parse_host (req_host (plain_request (lit ''C.d''))) = Inr (lit ''c.d'')"
    by code_simp
  moreover have "denied plain_ops plain_state (lit ''c.d'')"
    by code_simp
  ultimately show ?thesis
    using evaluate_host_policy_allows [of "Inr None" plain_state plain_state
        "plain_request (lit ''C.d'')" "lit ''c.d''" plain_ops "\<lambda>_ _. Resolved []" plain_ids
        "Some (\<lambda>_. AllowRequest)"]
    by auto
qed

section \<open>The address that is dialled\<close>

lemma host_blocked_allowedE:
  assumes "host_blocked ops reload lookup host port st = (st', Inr Allowed)"
  obtains h where "parse_host host = Inr h" "reload_if_needed reload st = (st', Inr ())"
    "decide_host ops st' lookup h port = Allowed"
  using assms by (auto simp: host_blocked_def split: prod.splits sum.splits)

lemma explicit_allowlistedD:
  assumes "is_explicit_local_allowlisted allowed host"
  shows "\<exists>pat\<in>set allowed. 42 \<notin> set (trim pat) \<and> 63 \<notin> set (trim pat)
     \<and> (normalize_host (trim pat) = host \<or> Some (normalize_host (trim pat)) = unscoped_ip_literal host)"
  using assms unfolding is_explicit_local_allowlisted_def list_ex_iff Let_def
  by (force split: if_splits option.splits)

lemma not_colon_lower: "ascii_lower_char c \<noteq> 58 \<longleftrightarrow> c \<noteq> 58"
  by (auto simp: ascii_lower_char_def)

lemma trim_end_matches_split: "\<exists>n. s = trim_end_matches (\<lambda>c. c = x) s @ replicate n x"
proof -
  have "s = rev (dropWhile (\<lambda>c. c = x) (rev s)) @ rev (takeWhile (\<lambda>c. c = x) (rev s))"
    by (metis rev_append rev_rev_ident takeWhile_dropWhile_id)
  moreover have "rev (takeWhile (\<lambda>c. c = x) (rev s)) = replicate (length (takeWhile (\<lambda>c. c = x) (rev s))) x"
    by (rule replicate_eqI) (auto dest: set_takeWhileD)
  ultimately show ?thesis
    unfolding trim_end_matches_def by metis
qed

lemma trim_end_dots_lower:
  "trim_end_matches (\<lambda>c. c = 46) (to_ascii_lowercase s) = to_ascii_lowercase (trim_end_matches (\<lambda>c. c = 46) s)"
  by (simp add: trim_end_matches_def to_ascii_lowercase_def rev_map dropWhile_map comp_def)

lemma names_localhost_chars:
  assumes "names_localhost name" "c \<in> set name"
  shows "\<not> is_whitespace c \<and> c \<noteq> 91 \<and> c \<noteq> 58"
proof -
  obtain n where "name = trim_end_matches (\<lambda>c. c = 46) name @ replicate n 46"
    using trim_end_matches_split by blast
  then have "c \<in> set (trim_end_matches (\<lambda>c. c = 46) name) \<or> c = 46"
    using assms(2) by (metis UnE in_set_replicate set_append)
  then have "ascii_lower_char c \<in> set (lit ''localhost'') \<or> c = 46"
    using assms(1) unfolding names_localhost_def to_ascii_lowercase_def by (metis imageI set_map)
  then show ?thesis
    by (auto simp: lit_def ascii_lower_char_def is_whitespace_def split: if_splits)
qed

lemma normalize_host_localhost:
  assumes "names_localhost name"
  shows "normalize_host name = lit ''localhost''"
proof -
  note chars = names_localhost_chars [OF assms]
  have ne: "name \<noteq> []"
    using assms by (auto simp: names_localhost_def trim_end_matches_def to_ascii_lowercase_def lit_def)
  have "trim name = name"
    using ne chars by (simp add: trim_both)
  moreover have "\<not> starts_with name (lit ''['')"
    using ne chars [of "hd name"] by (cases name) (auto simp: starts_with_def lit_def)
  moreover have "filter (\<lambda>c. c = 58) name = []"
    using chars by (auto simp: filter_empty_conv)
  moreover have "normalize_ip_literal (lit ''localhost'') = None"
    by code_simp
  ultimately show ?thesis
    using assms
    by (simp add: normalize_host_def normalize_dns_host_or_ip_literal_def trim_end_dots_lower
        names_localhost_def Let_def)
qed

lemma localhost_local_literal: "is_local_literal (lit ''localhost'')"
  by code_simp

text \<open>What the networking library promises of the text of a host: an address prints as a literal that
  parses back, a name prints as itself.\<close>

fun displays_host :: "(target_host \<Rightarrow> rstr) \<Rightarrow> target_host \<Rightarrow> bool" where
  "displays_host display (Address ip) = (parse_ip_addr (normalize_host (display (Address ip))) = Some ip)"
| "displays_host display (Name name) = (display (Name name) = name)"

lemma non_public_target_explicit:
  assumes "displays_host display target" "target_matches_non_public_addr target addr" "is_non_public_ip addr"
    and "local_access_granted st lookup (normalize_host (display target)) port"
    and "\<not> allow_local_binding (config st)"
  shows "is_explicit_local_allowlisted (or_default (allowed_domains (config st))) (normalize_host (display target))"
proof (cases target)
  case (Address ip)
  then show ?thesis
    using assms by (auto simp: local_access_granted_def resolves_public_def)
next
  case (Name name)
  then have "normalize_host (display target) = lit ''localhost''"
    using assms by (auto simp: normalize_host_localhost)
  then show ?thesis
    using assms localhost_local_literal by (auto simp: local_access_granted_def)
qed

lemma connect_dialsE:
  assumes "connect ops display reload reload' lookup target port addr st = (st', Dials a)"
    and "is_non_public_ip (addr_ip addr)" "\<not> allow_local_binding (config st')"
  shows "a = addr \<and> target_matches_non_public_addr target (addr_ip addr)
     \<and> (\<exists>h. parse_host (display target) = Inr h \<and> decide_host ops st' lookup h port = Allowed)"
  using assms
  by (auto simp: connect_def allows_non_public_target_def read_allow_local_binding_def
      split: prod.splits sum.splits bool.splits if_splits elim!: host_blocked_allowedE)

text \<open>
  C8. Protection against rebinding: whatever the name of the target resolved to when the request was
  checked and when the connection is made, an address that is not public is dialled only if local
  binding is allowed, or the target is that very address, or \<open>localhost\<close> for a loopback address, no
  deny pattern matches it, and an entry of the allowlist without wildcards names it.
\<close>

theorem connect_non_public:
  assumes "displays_host display target"
    and "connect ops display reload reload' lookup target port addr st = (st', Dials a)"
    and "is_non_public_ip (addr_ip a)"
    and "\<not> allow_local_binding (config st')"
  shows "a = addr
     \<and> (target = Address (addr_ip a)
        \<or> (\<exists>name. target = Name name \<and> names_localhost name \<and> ip_is_loopback (addr_ip a)))
     \<and> \<not> denied ops st' (normalize_host (display target))
     \<and> (\<exists>pat\<in>set (or_default (allowed_domains (config st'))).
          42 \<notin> set (trim pat) \<and> 63 \<notin> set (trim pat)
          \<and> (normalize_host (trim pat) = normalize_host (display target)
             \<or> Some (normalize_host (trim pat)) = unscoped_ip_literal (normalize_host (display target))))"
proof -
  have addr: "is_non_public_ip (addr_ip addr)"
    using assms(2,3) by (auto simp: connect_def split: prod.splits sum.splits bool.splits if_splits)
  obtain h where *: "a = addr" "target_matches_non_public_addr target (addr_ip addr)"
      "parse_host (display target) = Inr h" "decide_host ops st' lookup h port = Allowed"
    using connect_dialsE [OF assms(2) addr assms(4)] by blast
  have "h = normalize_host (display target)"
    using *(3) by (auto simp: parse_host_def Let_def split: if_splits)
  then have granted: "\<not> denied ops st' (normalize_host (display target))"
      "local_access_granted st' lookup (normalize_host (display target)) port"
    using *(4) by (auto simp: decide_host_cases split: if_splits)
  have "target = Address (addr_ip a)
      \<or> (\<exists>name. target = Name name \<and> names_localhost name \<and> ip_is_loopback (addr_ip a))"
    using *(1,2) by (cases target) auto
  then show ?thesis
    using *(1) granted explicit_allowlistedD
      [OF non_public_target_explicit [OF assms(1) *(2) addr granted(2) assms(4)]]
    by blast
qed

theorem connect_non_public_witness:
  "\<exists>pat\<in>set (or_default (allowed_domains (config plain_state))).
     normalize_host (trim pat) = lit ''10.0.0.1'' \<and> 42 \<notin> set (trim pat) \<and> 63 \<notin> set (trim pat)"
proof -
  let ?target = "Address (V4 (ipv4_of_octets [10, 0, 0, 1]))"
  let ?addr = "\<lparr>addr_ip = V4 (ipv4_of_octets [10, 0, 0, 1]), addr_port = 80\<rparr>"
  let ?display = "\<lambda>_. lit ''10.0.0.1''"
  have "displays_host ?display ?target"
    by code_simp
  moreover have "connect plain_ops ?display (Inr None) (Inr None) (\<lambda>_ _. LookupFailed) ?target 80 ?addr plain_state
      = (plain_state, Dials ?addr)"
    by code_simp
  moreover have "is_non_public_ip (addr_ip ?addr)"
    by code_simp
  moreover have "\<not> allow_local_binding (config plain_state)"
    by code_simp
  moreover have "normalize_host (lit ''10.0.0.1'') = lit ''10.0.0.1'' \<and> unscoped_ip_literal (lit ''10.0.0.1'') = None"
    by code_simp
  ultimately show ?thesis
    using connect_non_public [of ?display ?target plain_ops "Inr None" "Inr None" "\<lambda>_ _. LookupFailed" 80
        ?addr plain_state plain_state ?addr]
    by auto
qed

section \<open>Effective permissions\<close>

lemma map_of_merge_entry:
  "map_of (merge_entry acc e) p =
     (if p = entry_pattern e
      then Some (case map_of acc p of
                   None \<Rightarrow> entry_permission e
                 | Some q \<Rightarrow> if permission_rank (entry_permission e) > permission_rank q
                            then entry_permission e else q)
      else map_of acc p)"
  by (induction acc e rule: merge_entry.induct) auto

lemma distinct_merge_entry:
  "distinct (map fst acc) \<Longrightarrow> distinct (map fst (merge_entry acc e))
     \<and> fst ` set (merge_entry acc e) = insert (entry_pattern e) (fst ` set acc)"
  by (induction acc e rule: merge_entry.induct) auto

lemma distinct_effective: "distinct (map fst (effective_entries es))"
  unfolding effective_entries_def
  by (induction es rule: rev_induct) (simp_all add: distinct_merge_entry)

definition has_entry :: "domain_entry list \<Rightarrow> rstr \<Rightarrow> domain_permission \<Rightarrow> bool" where
  "has_entry es p permission \<longleftrightarrow> (\<exists>e\<in>set es. entry_pattern e = p \<and> entry_permission e = permission)"

lemma has_entry_simps [simp]:
  "has_entry [] p permission = False"
  "has_entry (es @ es') p permission = (has_entry es p permission \<or> has_entry es' p permission)"
  "has_entry [e] p permission = (entry_pattern e = p \<and> entry_permission e = permission)"
  by (auto simp: has_entry_def)

lemma effective_lookup:
  "map_of (effective_entries es) p =
     (if has_entry es p DenyDomain then Some DenyDomain
      else if has_entry es p AllowDomain then Some AllowDomain
      else if has_entry es p NoPermission then Some NoPermission else None)"
proof (induction es rule: rev_induct)
  case (snoc e es)
  then show ?case
    by (cases "entry_permission e") (auto simp: effective_entries_def map_of_merge_entry)
qed (simp add: effective_entries_def)

lemma set_domain_entries_lookup:
  "p \<in> set (or_default (domain_entries cfg permission)) \<longleftrightarrow>
     map_of (effective_entries (or_default (domains cfg))) p = Some permission"
proof (cases "domains cfg")
  case (Some es)
  have "set (or_default (domain_entries cfg permission)) =
      fst ` {x \<in> set (effective_entries es). snd x = permission}"
    by (auto simp: domain_entries_def Some Let_def filter_empty_conv case_prod_beta)
  then show ?thesis
    by (force simp: Some map_of_eq_Some_iff [OF distinct_effective])
qed (simp add: domain_entries_def effective_entries_def)

lemma denied_iff:
  "p \<in> set (or_default (denied_domains cfg)) \<longleftrightarrow> has_entry (or_default (domains cfg)) p DenyDomain"
  unfolding denied_domains_def set_domain_entries_lookup effective_lookup by simp

lemma allowed_iff:
  "p \<in> set (or_default (allowed_domains cfg)) \<longleftrightarrow>
     has_entry (or_default (domains cfg)) p AllowDomain \<and> \<not> has_entry (or_default (domains cfg)) p DenyDomain"
  unfolding allowed_domains_def set_domain_entries_lookup effective_lookup by simp

section \<open>Managed constraints hold\<close>

definition state_ok :: "proxy_ops \<Rightarrow> config_state \<Rightarrow> bool" where
  "state_ok ops st \<longleftrightarrow>
     validate_policy_against_constraints ops (config st) (constraints st) = Inr ()
     \<and> compile_denylist_globset (proxy_globs ops) (or_default (denied_domains (config st))) = Inr (deny_set st)
     \<and> compile_allowlist_globset (proxy_globs ops) (or_default (allowed_domains (config st))) = Inr (allow_set st)
     \<and> compile_mitm_hooks (proxy_hook_ops ops) (mitm (config st)) (mitm_hooks (config st)) = Inr (compiled_hooks st)"

lemma validate_value_ok [simp]: "validate_value field ok = Inr u \<longleftrightarrow> ok"
  by (simp add: validate_value_def)

lemma state_ok_blocked [simp]:
  "state_ok ops (st\<lparr>blocked := b\<rparr>) = state_ok ops st"
  "state_ok ops (st\<lparr>blocked_total := n\<rparr>) = state_ok ops st"
  by (simp_all add: state_ok_def)

lemma default_allowlist_denied:
  "set (or_default (denied_domains (set_allowed_domains pats cfg))) = set (or_default (denied_domains cfg))"
proof -
  have push: "has_entry (push_missing AllowDomain pats es) p DenyDomain = has_entry es p DenyDomain" for es p
    by (induction AllowDomain pats es rule: push_missing.induct) auto
  have filt: "has_entry (filter (\<lambda>e. entry_permission e \<noteq> AllowDomain) es) p DenyDomain = has_entry es p DenyDomain"
    for es p by (auto simp: has_entry_def)
  have entries: "or_default (nonempty_entries es) = es" for es
    by (simp add: nonempty_entries_def)
  show ?thesis
    by (rule set_eqI, unfold denied_iff)
      (simp add: set_allowed_domains_def set_domain_entries_def entries push filt)
qed

lemma validate_denied_cong:
  "set (or_default (denied_domains cfg')) = set (or_default (denied_domains cfg)) \<Longrightarrow>
     validate_denied_domains cfg' cs = validate_denied_domains cfg cs"
  by (auto simp: validate_denied_domains_def lower_set_def Let_def split: option.splits bool.splits)

lemma validate_allowed_cong:
  "managed_allowed_domains cs = None
     \<or> set (or_default (allowed_domains cfg')) = set (or_default (allowed_domains cfg))
       \<and> set (or_default (denied_domains cfg')) = set (or_default (denied_domains cfg)) \<Longrightarrow>
     validate_allowed_domains ops cfg' cs = validate_allowed_domains ops cfg cs"
  by (auto simp: validate_allowed_domains_def lower_set_def list_all_iff Let_def
      split: option.splits bool.splits)

lemma wildcard_cong:
  "set pats' = set pats \<Longrightarrow>
     validate_non_global_wildcard_domain_patterns field pats' = validate_non_global_wildcard_domain_patterns field pats"
  by (simp add: validate_non_global_wildcard_domain_patterns_def list_ex_iff)

text \<open>A configuration stays valid when only what the constraints do not limit changes.\<close>

definition enabled_within :: "network_constraints \<Rightarrow> bool \<Rightarrow> bool" where
  "enabled_within cs on \<longleftrightarrow> max_enabled cs = Some False \<longrightarrow> \<not> on"

definition mode_within :: "network_constraints \<Rightarrow> network_mode \<Rightarrow> bool" where
  "mode_within cs m \<longleftrightarrow> (\<forall>limit. max_mode cs = Some limit \<longrightarrow> network_mode_rank m \<le> network_mode_rank limit)"

lemma enabled_within_iff:
  "(case max_enabled cs of None \<Rightarrow> Inr () | Some limit \<Rightarrow> validate_value field (\<not> (on \<and> \<not> limit))) = Inr ()
     \<longleftrightarrow> enabled_within cs on"
  by (auto simp: enabled_within_def split: option.splits)

lemma mode_within_iff:
  "(case max_mode cs of None \<Rightarrow> Inr ()
    | Some limit \<Rightarrow> validate_value field (\<not> network_mode_rank m > network_mode_rank limit)) = Inr ()
     \<longleftrightarrow> mode_within cs m"
  by (auto simp: mode_within_def not_less split: option.splits)

lemma res_bind_unit: "res_bind r (\<lambda>_. k) = Inr u \<longleftrightarrow> r = Inr () \<and> k = Inr u" for r :: "'e + unit"
  by (cases r) simp_all

lemmas policy_valid_iffs = validate_policy_against_constraints_def res_bind_unit enabled_within_iff mode_within_iff

lemma policy_validD:
  assumes "validate_policy_against_constraints ops cfg cs = Inr ()"
  shows "enabled_within cs (enabled cfg)" "mode_within cs (net_mode cfg)"
  using assms by (simp_all only: policy_valid_iffs)

lemma policy_valid_changed:
  assumes valid: "validate_policy_against_constraints ops cfg cs = Inr ()"
    and within: "enabled_within cs (enabled cfg')" "mode_within cs (net_mode cfg')"
    and same: "mitm cfg' = mitm cfg" "mitm_hooks cfg' = mitm_hooks cfg"
      "allow_upstream_proxy cfg' = allow_upstream_proxy cfg"
      "dangerously_allow_non_loopback_proxy cfg' = dangerously_allow_non_loopback_proxy cfg"
      "dangerously_allow_all_unix_sockets cfg' = dangerously_allow_all_unix_sockets cfg"
      "allow_local_binding cfg' = allow_local_binding cfg" "unix_sockets cfg' = unix_sockets cfg"
    and denied: "set (or_default (denied_domains cfg')) = set (or_default (denied_domains cfg))"
    and allowed: "managed_allowed_domains cs = None
      \<or> set (or_default (allowed_domains cfg')) = set (or_default (allowed_domains cfg))"
  shows "validate_policy_against_constraints ops cfg' cs = Inr ()"
proof -
  have "allow_unix_sockets cfg' = allow_unix_sockets cfg"
    by (simp add: same allow_unix_sockets_def)
  moreover have "validate_allowed_domains ops cfg' cs = validate_allowed_domains ops cfg cs"
    using denied allowed by (intro validate_allowed_cong) auto
  ultimately show ?thesis
    using valid within
    by (simp only: policy_valid_iffs same wildcard_cong [OF denied] validate_denied_cong [OF denied])
qed

lemma domains_of_fields:
  "denied_domains (cfg\<lparr>enabled := b\<rparr>) = denied_domains cfg"
  "denied_domains (cfg\<lparr>credential_broker := b\<rparr>) = denied_domains cfg"
  "denied_domains (cfg\<lparr>net_mode := m\<rparr>) = denied_domains cfg"
  "allowed_domains (cfg\<lparr>enabled := b\<rparr>) = allowed_domains cfg"
  "allowed_domains (cfg\<lparr>credential_broker := b\<rparr>) = allowed_domains cfg"
  "allowed_domains (cfg\<lparr>net_mode := m\<rparr>) = allowed_domains cfg"
  by (simp_all add: denied_domains_def allowed_domains_def domain_entries_def)

lemma brokered_config_denied:
  "set (or_default (denied_domains (fst (brokered_config cfg cs)))) = set (or_default (denied_domains cfg))"
  by (simp add: brokered_config_def Let_def default_allowlist_denied domains_of_fields)

lemma brokered_config_valid:
  assumes "validate_policy_against_constraints ops cfg cs = Inr ()"
  shows "validate_policy_against_constraints ops (fst (brokered_config cfg cs)) cs = Inr ()"
proof (rule policy_valid_changed [OF assms])
  let ?cfg' = "fst (brokered_config cfg cs)"
  show "set (or_default (denied_domains ?cfg')) = set (or_default (denied_domains cfg))"
    by (rule brokered_config_denied)
  show "managed_allowed_domains cs = None
      \<or> set (or_default (allowed_domains ?cfg')) = set (or_default (allowed_domains cfg))"
    by (simp add: brokered_config_def Let_def domains_of_fields)
  show "enabled_within cs (enabled ?cfg')"
    using policy_validD(1) [OF assms]
    by (auto simp: brokered_config_def Let_def enabled_within_def set_allowed_domains_def set_domain_entries_def)
  show "mode_within cs (net_mode ?cfg')"
    using policy_validD(2) [OF assms]
    by (simp add: brokered_config_def Let_def set_allowed_domains_def set_domain_entries_def)
qed (simp_all add: brokered_config_def Let_def set_allowed_domains_def set_domain_entries_def)

lemma build_config_state_ok:
  assumes "validate_policy_against_constraints ops cfg cs = Inr ()" "build_config_state ops cfg cs = Inr st"
  shows "state_ok ops st" "constraints st = cs" "config st = fst (brokered_config cfg cs)"
  using brokered_config_valid [OF assms(1)] assms(2)
  by (auto simp: build_config_state_def state_ok_def res_iffs split: prod.splits if_splits)

definition attempt_ok :: "proxy_ops \<Rightarrow> attempt \<Rightarrow> bool" where
  "attempt_ok ops a \<longleftrightarrow>
     (\<forall>st. attempt_reload a = Inr (Some st) \<longrightarrow> state_ok ops st)
     \<and> (\<forall>st. state_ok ops st \<longrightarrow> state_ok ops (interference a st))"

lemma reload_ok:
  assumes "state_ok ops st" "attempt_ok ops a" "reload_if_needed (attempt_reload a) st = (st', r)"
  shows "state_ok ops st'"
  using assms by (auto simp: reload_if_needed_def attempt_ok_def split: sum.splits option.splits)

lemma update_loop_ok:
  "state_ok ops st \<Longrightarrow> list_all (attempt_ok ops) attempts \<Longrightarrow>
     state_ok ops (fst (update_loop ops host target attempts st))"
proof (induction attempts arbitrary: st)
  case (Cons a attempts)
  obtain st' r where reload: "reload_if_needed (attempt_reload a) st = (st', r)" by fastforce
  let ?cfg = "upsert_domain_permission host (list_permission target) normalize_host (config st')"
  have ok: "state_ok ops st'" "state_ok ops (interference a st')"
    using reload_ok [OF _ _ reload] Cons.prems by (auto simp: attempt_ok_def)
  have built: "state_ok ops built"
    if "validate_policy_against_constraints ops ?cfg (constraints st') = Inr ()"
      "build_config_state ops ?cfg (constraints st') = Inr built" for built
    using build_config_state_ok(1) [OF that] .
  show ?case
    using Cons ok built by (auto simp: reload Let_def split: sum.splits)
qed simp

lemma mode_change_ok:
  assumes "state_ok ops st" "mode_within (constraints st) m"
  shows "state_ok ops (st\<lparr>config := (config st)\<lparr>net_mode := m\<rparr>\<rparr>)"
proof -
  have valid: "validate_policy_against_constraints ops (config st) (constraints st) = Inr ()"
    using assms(1) by (simp add: state_ok_def)
  have "validate_policy_against_constraints ops ((config st)\<lparr>net_mode := m\<rparr>) (constraints st) = Inr ()"
    using policy_validD(1) [OF valid] assms(2)
    by (intro policy_valid_changed [OF valid]) (simp_all add: domains_of_fields)
  then show ?thesis
    using assms(1) by (simp add: state_ok_def domains_of_fields)
qed

lemma set_network_mode_ok:
  "state_ok ops st \<Longrightarrow> list_all (attempt_ok ops) attempts \<Longrightarrow>
     state_ok ops (fst (set_network_mode ops new_mode attempts st))"
proof (induction attempts arbitrary: st)
  case (Cons a attempts)
  obtain st' r where reload: "reload_if_needed (attempt_reload a) st = (st', r)" by fastforce
  have ok: "state_ok ops st'" "state_ok ops (interference a st')"
    using reload_ok [OF _ _ reload] Cons.prems by (auto simp: attempt_ok_def)
  have within: "mode_within (constraints st') new_mode"
    if "validate_policy_against_constraints ops ((config st')\<lparr>net_mode := new_mode\<rparr>) (constraints st') = Inr ()"
    using policy_validD(2) [OF that] by simp
  show ?case
    using Cons ok within mode_change_ok [OF ok(2), of new_mode]
    by (auto simp: reload Let_def split: sum.splits)
qed simp

text \<open>
  C10. Managed constraints always hold. While other tasks change the state between the snapshot an
  operation reads and the state it writes, and the reloader replaces it, changing the domain lists and
  changing the mode leave a state whose configuration satisfies the constraints of that state and whose
  pattern sets and hooks are the ones compiled from its configuration, on every path, errors and retries
  included. This covers the credential broker, which enables the proxy by itself when it builds a state.
\<close>

theorem policy_changes_respect_constraints:
  assumes "state_ok ops st" and "list_all (attempt_ok ops) attempts"
  shows "state_ok ops (fst (update_domain_list ops host target attempts st))
     \<and> state_ok ops (fst (set_network_mode ops new_mode attempts st))"
  using update_loop_ok [OF assms] set_network_mode_ok [OF assms] assms(1)
  by (auto simp: update_domain_list_def split: sum.splits)

theorem policy_changes_respect_constraints_witness:
  "state_ok plain_ops (fst (update_domain_list plain_ops (lit ''e.f'') DenyList
      [\<lparr>attempt_reload = Inr None,
        interference = (\<lambda>st. fst (set_network_mode plain_ops Limited
          [\<lparr>attempt_reload = Inr None, interference = (\<lambda>st. st)\<rparr>] st))\<rparr>] plain_state))"
proof -
  let ?a = "\<lparr>attempt_reload = Inr None, interference = (\<lambda>st. st)\<rparr> :: attempt"
  let ?b = "\<lparr>attempt_reload = Inr None,
    interference = (\<lambda>st. fst (set_network_mode plain_ops Limited [?a] st))\<rparr>"
  have st: "state_ok plain_ops plain_state" by code_simp
  have "attempt_ok plain_ops ?b"
    by (auto simp: attempt_ok_def intro!: set_network_mode_ok simp del: set_network_mode.simps)
  then have "list_all (attempt_ok plain_ops) [?b]" by simp
  from policy_changes_respect_constraints [OF st this] show ?thesis by blast
qed

section \<open>Denied domains are blocked\<close>

lemma add_candidates_covers:
  "add_candidates gl cands built = Inr b \<Longrightarrow> set built \<union> set cands \<subseteq> set b"
  by (induction gl cands built rule: add_candidates.induct) (auto split: if_splits)

lemma add_patterns_covers:
  "add_patterns gl w pats built = Inr b \<Longrightarrow>
     set built \<subseteq> set b \<and> (\<forall>p\<in>set pats. set (expand_domain_pattern (normalize_pattern p)) \<subseteq> set b)"
proof (induction pats arbitrary: built)
  case (Cons p pats)
  obtain c where "add_candidates gl (expand_domain_pattern (normalize_pattern p)) built = Inr c"
      "add_patterns gl w pats c = Inr b"
    using Cons.prems by (auto simp: res_iffs split: if_splits)
  then show ?case
    using add_candidates_covers Cons.IH by (metis (no_types, lifting) Un_subset_iff dual_order.trans set_ConsD)
qed simp

lemma denylist_covers:
  "compile_denylist_globset gl pats = Inr b \<Longrightarrow> p \<in> set pats \<Longrightarrow>
     set (expand_domain_pattern (normalize_pattern p)) \<subseteq> set b"
  by (auto simp: compile_denylist_globset_def compile_globset_with_policy_def res_iffs
      split: if_splits dest!: add_patterns_covers)

lemma parse_ip_star: "parse_ip_addr (42 # s) = None"
proof -
  have number: "read_number 10 m z l (42 # s) = None" "read_number 16 m z l (42 # s) = None" for m z l
    by (simp_all add: read_number_def digit_value_def)
  have octets: "read_octets (Suc n) 0 (42 # s) = None" for n
    by (simp add: read_separator_def number)
  have v4: "read_ipv4_addr (42 # s) = None"
    using octets [of 3] by (simp add: read_ipv4_addr_def)
  have groups: "read_groups (Suc n) 0 (42 # s) = ([], False, 42 # s)" for n
    by (simp add: read_separator_def number v4)
  have "read_ipv6_addr (42 # s) = None"
    using groups [of 7] by (simp add: read_ipv6_addr_def split: list.splits)
  then show ?thesis
    by (simp add: parse_ip_addr_def v4)
qed

lemma split_once_star: "d \<noteq> [] \<Longrightarrow> hd d \<noteq> 42 \<Longrightarrow> split_once_str d (42 # s) = Some (a, b) \<Longrightarrow> \<exists>a'. a = 42 # a'"
  by (cases d) (auto simp: starts_with_def)

lemma normalize_dns_star: "42 \<in> set (normalize_dns_host_or_ip_literal (42 # s))"
proof -
  obtain n where n: "to_ascii_lowercase (42 # s)
      = trim_end_matches (\<lambda>c. c = 46) (to_ascii_lowercase (42 # s)) @ replicate n 46"
    using trim_end_matches_split by blast
  have lower: "to_ascii_lowercase (42 # s) = 42 # to_ascii_lowercase s"
    by (simp add: to_ascii_lowercase_def ascii_lower_char_def)
  obtain t where t: "trim_end_matches (\<lambda>c. c = 46) (to_ascii_lowercase (42 # s)) = 42 # t"
    using n unfolding lower
    by (cases "trim_end_matches (\<lambda>c. c = 46) (42 # to_ascii_lowercase s)"; cases n) auto
  have "scoped_literal (42 # t) d = None" if "d \<noteq> []" "hd d = 37" for d
    using split_once_star [of d t] that parse_ip_star
    by (fastforce simp: scoped_literal_def split: option.splits)
  then have "normalize_ip_literal (42 # t) = None"
    by (simp add: normalize_ip_literal_def parse_ip_star lit_def)
  then show ?thesis
    by (simp add: normalize_dns_host_or_ip_literal_def t Let_def)
qed

lemma normalize_star:
  assumes "trim e = 42 # s"
  shows "42 \<in> set (normalize_host e)"
proof -
  obtain r where "hd (split_char 58 (42 # s)) = 42 # r"
    by (cases "split_char 58 s") auto
  then show ?thesis
    using assms by (simp add: normalize_host_def starts_with_def lit_def normalize_dns_star Let_def)
qed

text \<open>A host without characters that are special in a glob, which normalises to itself.\<close>

definition plain_host :: "rstr \<Rightarrow> bool" where
  "plain_host h \<longleftrightarrow> h \<noteq> [] \<and> normalize_host h = h
     \<and> list_all (\<lambda>c. \<not> is_whitespace c \<and> c \<notin> set (lit ''*?[]{}'') \<and> c \<noteq> 92) h"

text \<open>What \<open>globset\<close> promises: a glob without special characters matches its own text.\<close>

definition literal_globs :: "globs \<Rightarrow> bool" where
  "literal_globs gl \<longleftrightarrow>
     (\<forall>p. list_all (\<lambda>c. c \<notin> set (lit ''*?[]{}'') \<and> c \<noteq> 92) p \<longrightarrow> glob_matches gl p p)"

lemma plain_host_expand:
  assumes "plain_host h" "normalize_host e = h"
  shows "expand_domain_pattern (normalize_pattern e) = [h]"
proof -
  have star: "42 \<notin> set h"
    using assms(1) by (auto simp: plain_host_def list_all_iff lit_def)
  have no_prefix: "strip_prefix s (42 # p) = None" if "\<forall>r. s \<noteq> 42 # r" for s p
    using that by (cases s) (auto simp: strip_prefix_def starts_with_def)
  have "\<forall>r. trim e \<noteq> 42 # r"
    using normalize_star star assms(2) by blast
  then have "normalize_pattern e = normalize_host (trim e)"
    by (auto simp: normalize_pattern_def Let_def lit_def no_prefix)
  then have pat: "normalize_pattern e = h"
    using assms(2) by (simp add: normalize_host_def trim_idem)
  have "trim h = h"
    using assms(1) by (intro trim_both) (auto simp: plain_host_def list_all_iff)
  moreover have "\<forall>r. h \<noteq> 42 # r" "h \<noteq> []"
    using star assms(1) by (auto simp: plain_host_def)
  ultimately show ?thesis
    by (simp add: pat expand_domain_pattern_def parse_domain_pattern_def Let_def lit_def no_prefix)
qed

lemma update_loop_denied:
  assumes "normalize_host h = h"
  shows "update_loop ops h DenyList attempts st = (st', Some (Inr ())) \<Longrightarrow>
    \<exists>e\<in>set (or_default (denied_domains (config st'))). normalize_host e = h"
proof (induction attempts arbitrary: st)
  case (Cons a attempts)
  obtain s r where reload: "reload_if_needed (attempt_reload a) st = (s, r)" by fastforce
  let ?cfg = "upsert_domain_permission h DenyDomain normalize_host (config s)"
  have "h \<in> set (or_default (denied_domains ?cfg))"
    unfolding denied_iff by (simp add: upsert_domain_permission_def nonempty_entries_def Let_def)
  then have built: "h \<in> set (or_default (denied_domains (config b)))"
    if "validate_policy_against_constraints ops ?cfg (constraints s) = Inr ()"
      "build_config_state ops ?cfg (constraints s) = Inr b" for b
    by (simp add: build_config_state_ok(3) [OF that] brokered_config_denied)
  show ?case
    using Cons built assms
    by (auto simp: reload Let_def list_ex_iff split: sum.splits if_splits)
qed simp

text \<open>
  C11. Once \<open>add_denied_domain\<close> succeeds for a plain host, one whose normal form normalises to itself and
  contains neither white space nor glob characters, a request for it is blocked as denied in the state
  it leaves, whatever other tasks did to the state meanwhile: under any spelling with the same normal
  form, on every port, whatever the name resolves to and whatever the allowlist contains. Two spellings
  of one IPv6 address have different normal forms, and only the one that was added is denied.
\<close>

theorem denied_domain_is_blocked:
  assumes "literal_globs (proxy_globs ops)"
    and "state_ok ops st" and "list_all (attempt_ok ops) attempts"
    and "parse_host host = Inr h" and "plain_host h"
    and "add_denied_domain ops host attempts st = (st', Some (Inr ()))"
    and "parse_host spelling = Inr h"
  shows "host_blocked ops (Inr None) lookup spelling port st' = (st', Inr (Blocked Denied))"
proof -
  have run: "update_loop ops h DenyList attempts st = (st', Some (Inr ()))"
    using assms(4,6) by (simp add: add_denied_domain_def update_domain_list_def)
  have "state_ok ops st'"
    using update_loop_ok [OF assms(2,3), of h DenyList] run by simp
  then have compiled: "compile_denylist_globset (proxy_globs ops) (or_default (denied_domains (config st')))
      = Inr (deny_set st')"
    by (simp add: state_ok_def)
  have plain: "normalize_host h = h" "list_all (\<lambda>c. c \<notin> set (lit ''*?[]{}'') \<and> c \<noteq> 92) h"
    using assms(5) unfolding plain_host_def list_all_iff by blast+
  obtain e where "e \<in> set (or_default (denied_domains (config st')))" "normalize_host e = h"
    using update_loop_denied [OF plain(1) run] by blast
  then have "h \<in> set (deny_set st')"
    using denylist_covers [OF compiled, of e] plain_host_expand [OF assms(5), of e] by simp
  moreover have "glob_matches (proxy_globs ops) h h"
    using assms(1) plain(2) unfolding literal_globs_def by blast
  ultimately have "denied ops st' h"
    by (auto simp: globset_matches_host_or_unscoped_def set_is_match_def list_ex_iff)
  then show ?thesis
    using assms(7) by (simp add: host_blocked_def reload_if_needed_def decide_host_cases)
qed

theorem denied_domain_is_blocked_witness:
  "host_blocked plain_ops (Inr None) (\<lambda>_ _. Resolved []) (lit ''a.B.'') 443
     (fst (add_denied_domain plain_ops (lit ''A.b:80'') [\<lparr>attempt_reload = Inr None, interference = (\<lambda>st. st)\<rparr>] plain_state))
   = (fst (add_denied_domain plain_ops (lit ''A.b:80'') [\<lparr>attempt_reload = Inr None, interference = (\<lambda>st. st)\<rparr>] plain_state),
      Inr (Blocked Denied))"
proof (rule denied_domain_is_blocked [where h = "lit ''a.b''" and host = "lit ''A.b:80''" and st = plain_state
      and attempts = "[\<lparr>attempt_reload = Inr None, interference = (\<lambda>st. st)\<rparr>]"])
  show "literal_globs (proxy_globs plain_ops)"
    by (simp add: literal_globs_def plain_ops_def plain_globs_def)
  show "state_ok plain_ops plain_state" by code_simp
  show "list_all (attempt_ok plain_ops) [\<lparr>attempt_reload = Inr None, interference = (\<lambda>st. st)\<rparr>]"
    by (simp add: attempt_ok_def)
  show "parse_host (lit ''A.b:80'') = Inr (lit ''a.b'')" by code_simp
  show "parse_host (lit ''a.B.'') = Inr (lit ''a.b'')" by code_simp
  show "plain_host (lit ''a.b'')" by code_simp
  have "snd (add_denied_domain plain_ops (lit ''A.b:80'')
      [\<lparr>attempt_reload = Inr None, interference = (\<lambda>st. st)\<rparr>] plain_state) = Some (Inr ())"
    by code_simp
  then show "add_denied_domain plain_ops (lit ''A.b:80'')
      [\<lparr>attempt_reload = Inr None, interference = (\<lambda>st. st)\<rparr>] plain_state =
    (fst (add_denied_domain plain_ops (lit ''A.b:80'')
      [\<lparr>attempt_reload = Inr None, interference = (\<lambda>st. st)\<rparr>] plain_state), Some (Inr ()))"
    by (metis prod.collapse)
qed

section \<open>Recorded requests and listeners\<close>

text \<open>Without a reload, the buffer holds the last 200 of all recorded requests, oldest first.\<close>

lemma record_blocked_last:
  assumes "blocked st = drop (length es - MAX_BLOCKED_EVENTS) es"
  shows "record_blocked (Inr None) eid e st =
    (st\<lparr>blocked := drop (length (es @ [e\<lparr>blocked_execution_id := eid\<rparr>]) - MAX_BLOCKED_EVENTS)
                    (es @ [e\<lparr>blocked_execution_id := eid\<rparr>]),
        blocked_total := saturating_add (blocked_total st) 1\<rparr>, Inr ())"
proof -
  have "drop (Suc (min (length es) MAX_BLOCKED_EVENTS) - MAX_BLOCKED_EVENTS)
        (drop (length es - MAX_BLOCKED_EVENTS) es @ [x])
      = drop (Suc (length es) - MAX_BLOCKED_EVENTS) (es @ [x])" for x :: blocked_request
  proof (cases "length es \<le> MAX_BLOCKED_EVENTS")
    case False
    then have "Suc (length es - 200) = length es - 199" by (simp add: MAX_BLOCKED_EVENTS_def)
    then show ?thesis using False by (simp add: MAX_BLOCKED_EVENTS_def min_def)
  qed (simp add: MAX_BLOCKED_EVENTS_def min_def)
  moreover have "length (drop (length es - MAX_BLOCKED_EVENTS) es) = min (length es) MAX_BLOCKED_EVENTS"
    by simp
  ultimately show ?thesis
    by (simp add: record_blocked_def reload_if_needed_def assms Let_def del: length_drop drop_append)
qed

text \<open>The listeners are on loopback addresses unless the configuration asks otherwise, and always
  when Unix sockets are reachable through the proxy.\<close>

lemma loopback_addr_loopback [simp]: "ip_is_loopback (addr_ip (loopback_addr port))"
proof -
  have "ip_is_loopback (V4 (ipv4_of_octets [127, 0, 0, 1]))" by code_simp
  then show ?thesis by (simp add: loopback_addr_def)
qed

lemma clamp_bind_addrs_loopback:
  assumes "\<not> dangerously_allow_non_loopback_proxy cfg \<or> allow_unix_sockets cfg \<noteq> []
      \<or> dangerously_allow_all_unix_sockets cfg"
    and "clamp_bind_addrs http socks cfg = (http', socks')"
  shows "ip_is_loopback (addr_ip http') \<and> ip_is_loopback (addr_ip socks')
     \<and> addr_port http' = addr_port http \<and> addr_port socks' = addr_port socks"
proof -
  have "addr_port (clamp_non_loopback a b) = addr_port a" for a b
    by (simp add: clamp_non_loopback_def loopback_addr_def)
  moreover have "addr_port (loopback_addr p) = p" for p
    by (simp add: loopback_addr_def)
  moreover have "ip_is_loopback (addr_ip (clamp_non_loopback a False))" for a
    by (simp add: clamp_non_loopback_def)
  ultimately show ?thesis
    using assms by (auto simp: clamp_bind_addrs_def Let_def split: if_splits)
qed

end
