(* ===== verification/Spec2Isabelle.thy ===== *)
theory Spec2Isabelle
  imports Patch_Grammar Exec_Policy_Parser Exec_Approval Diff_Tracker Head_Tail_Buffer
    Output_Truncation Assistant_Text Utf8_Stream Prompt_History Retained_Context
    Network_Policy
begin

text \<open>
  Verification development for the Rust workspace under \<open>src/engine\<close>, an agent that edits files and runs
  commands on behalf of a model. Five groups of components are modelled: three that decide what
  the agent and its commands may do, and two that handle what it tells the model and what the model
  tells the user.

  \<^bold>\<open>Patches.\<close> A patch text is parsed into hunks, each hunk is located in a file and turned into new
  contents, the files are written, and the net diff of the turn is kept up to date from the
  record of what was written.

  \<^item> \<open>Patch_Parser\<close>: \<open>apply-patch/src/parser.rs\<close> and \<open>streaming_parser.rs\<close>. The parser is a record, and
    each character pushed is one step. Chunks of input may be cut anywhere, every parsed hunk is
    well formed, and \<open>Patch_Grammar\<close> adds the printer of the documented grammar: what it prints is
    parsed back.
  \<^item> \<open>Seek_Sequence\<close>: \<open>seek_sequence.rs\<close>, the search for the lines of a chunk with its four passes.
  \<^item> \<open>Text_File\<close>: \<open>text_file.rs\<close>, a file as lines with their endings.
  \<^item> \<open>File_Update\<close>: \<open>file_update.rs\<close>, from chunks to replacements to contents in both update modes,
    compared with a reference that splices all replacements at once.
  \<^item> \<open>Executor_Files\<close>: the interface \<open>ExecutorFileSystem\<close> (\<open>file-system/src/lib.rs\<close>) as a record of
    operations with the locale \<open>text_files\<close> as its contract, and \<open>DirectFileSystem\<close>
    (\<open>exec-server/src/local_file_system.rs\<close>) as its interpretation.
  \<^item> \<open>Apply_Patch\<close>: \<open>lib.rs\<close> and \<open>invocation.rs\<close>, the loop over hunks with its delta, the output and the
    verification of a patch before it runs. The delta is related to the files by replaying it.
  \<^item> \<open>Diff_Tracker\<close>: \<open>core/src/turn_diff_tracker.rs\<close>, with the simulation between the tracker and the
    files, and the cache of rendered diffs compared with rendering anew.

  \<^bold>\<open>Commands.\<close> Policy files give rules; a command line is split into commands that are matched by the
  rules or judged by heuristics; the strictest decision becomes a requirement to run, ask or refuse;
  and an approved amendment is stored in memory and in the policy file.

  \<^item> \<open>Absolute_Path\<close>: \<open>utils/absolute-path\<close>, lexical normalisation and resolution of paths.
  \<^item> \<open>Exec_Rule\<close>: \<open>execpolicy/src/rule.rs\<close>, \<open>decision.rs\<close>, \<open>error.rs\<close> and \<open>executable_name.rs\<close>.
  \<^item> \<open>Exec_Policy\<close>: \<open>execpolicy/src/policy.rs\<close>. The multimap of rules is an association list under the
    locale \<open>value_store\<close>; matching is complete, evaluation takes the strictest match, overlays only add
    rules for the program a command names.
  \<^item> \<open>Exec_Policy_Parser\<close>: \<open>execpolicy/src/parser.rs\<close> and the loader of \<open>execpolicycheck.rs\<close>. A policy file
    is the sequence of builtin calls its evaluation makes.
  \<^item> \<open>Policy_Amend\<close>: \<open>execpolicy/src/amend.rs\<close>, appending rules to the locked policy file.
  \<^item> \<open>Dangerous_Command\<close>: \<open>shell-command/src/command_safety/is_dangerous_command.rs\<close>.
  \<^item> \<open>Exec_Approval\<close>: \<open>core/src/exec_policy.rs\<close> with \<open>model_policy.rs\<close> and \<open>executable_identity.rs\<close>.

  \<^bold>\<open>Network.\<close> Commands reach the network through a proxy that decides on every host: \<open>network-proxy\<close>.

  \<^item> \<open>Network_Address\<close>: \<open>policy.rs\<close>, the classification of addresses as words of 32 and 128 bits, compared
    with a list of address blocks; IP literals, hosts and domain patterns, with the order on patterns
    compared with the hosts that their globs match; and the compilation of patterns into sets of globs.
  \<^item> \<open>Network_Hooks\<close>: \<open>mitm_hook.rs\<close> and \<open>authorization_path.rs\<close>, the hooks that let intercepted requests
    through and add secrets to them, and the paths that an upstream server can read in one way only.
  \<^item> \<open>Network_Policy\<close>: \<open>config.rs\<close>, \<open>state.rs\<close>, \<open>runtime.rs\<close>, \<open>network_policy.rs\<close> and
    \<open>connect_policy.rs\<close>. What a decision on a host rests on, also with a decider, and on which terms an
    address of the local network is dialled; a request that goes through an upstream proxy is dialled
    unchecked, as \<open>serve\<close> has it. Operations that change the policy work on a snapshot: the
    list of their attempts has, for each, what the reloader reports and what other tasks do to the state
    before it is written, and managed constraints hold whatever these are. Reading the state after a
    reload and the reload itself are single steps.

  \<^bold>\<open>What the model is shown.\<close> The output of a command is buffered and truncated to a budget; the
  history is made consistent and stripped of media the model does not support; and facts about the
  user are kept beside it.

  \<^item> \<open>Head_Tail_Buffer\<close>: \<open>core/src/unified_exec/head_tail_buffer.rs\<close>, the beginning and the end of the
    output of a command. The locale \<open>stream_summary\<close> is its contract: the buffer is a function of the
    output, whatever chunks and intermediate buffers it came in.
  \<^item> \<open>Output_Truncation\<close>: \<open>utils/string/src/truncate.rs\<close> and \<open>utils/output-truncation\<close>, texts and content
    items within a byte or token budget.
  \<^item> \<open>Prompt_History\<close>: \<open>core/src/context_manager/normalize.rs\<close> with \<open>for_prompt\<close> and
    \<open>remove_first_item\<close> of \<open>history.rs\<close>. The passes with their index arithmetic equal operations on the
    whole list; afterwards calls and outputs correspond, and the passes change nothing more.
  \<^item> \<open>Retained_Context\<close>: \<open>history/src/retained_context.rs\<close>. Both families of records are instances of the
    locale \<open>retained_family\<close>; they are related to the unbounded log of everything recorded.

  \<^bold>\<open>What the model says.\<close> The text of the model arrives in pieces cut anywhere, even inside a character
  or a tag, and is shown while it arrives: \<open>utils/stream-parser\<close>.

  \<^item> \<open>Stream_Text\<close>: the interface of the parsers with the locale \<open>stream_text_parser\<close> as its contract: what
    a parser has shown and extracted in the end is a function of the text.
  \<^item> \<open>Hidden_Tags\<close>: \<open>inline_hidden_tag.rs\<close> and \<open>citation.rs\<close>, compared with a search of the complete text.
  \<^item> \<open>Tagged_Lines\<close>: \<open>tagged_line_parser.rs\<close> and \<open>proposed_plan.rs\<close>, compared with reading line by line.
  \<^item> \<open>Assistant_Text\<close>: \<open>assistant_text.rs\<close>, the composition of the two.
  \<^item> \<open>Utf8_Stream\<close>: \<open>utf8_stream.rs\<close>, any of the parsers fed with bytes, with the decoding of UTF-8.

  \<open>Hexa_Prelude\<close> holds what all of them share: strings as lists of Unicode scalar values with the
  operations of \<open>str\<close> that the sources use, results, machine integers, lengths in bytes, and the
  contract of a component that is fed symbol by symbol.

  \<^bold>\<open>Conventions.\<close> A method on \<open>&mut self\<close> takes the state and returns it with its result. \<open>Inl\<close> is \<open>Err\<close>. A
  Rust panic is a value: \<open>Inl Panic\<close> for patches, \<open>Inl\<close> of a \<open>history_panic\<close> for the history, \<open>None\<close> for the
  evaluation of no command and for slices of a text inside a character. A hash
  map is a function or an association list with distinct keys. The properties about error paths
  therefore speak of the state that a failed operation leaves behind.

  \<^bold>\<open>Bounds.\<close> No function uses fuel except \<open>ancestors\<close>, where the length of the path bounds the chain of
  parents, and the two loops that change the policy of the proxy, where the list of attempts is the
  fuel: they retry as long as other tasks interfere, and the result is \<open>None\<close> while they do. The depth limit of wrapped commands is the constant of the source, and the recursion is
  shown to end by the distance to it. Line numbers, indices and revisions are natural numbers: the
  sources count lines of a text in memory and changes of one turn, far below \<open>2 ^ 64\<close>. Where the
  sources saturate, so do the definitions. Two loops could run forever and are partial functions with
  \<open>None\<close> for not returning: the loop over the tags of a text, which returns for all delimiters that
  the constructor accepts, and the eviction of retained records, which returns when the empty family
  fits.

  \<^bold>\<open>Parameters.\<close> Third-party code enters as arguments: the Starlark interpreter, \<open>shlex\<close>, \<open>serde_json\<close> and the lengths of what it writes, the text diff, the object id,
  version 5 UUIDs, the heredoc query, \<open>globset\<close>, header names and values, decoded query strings and the
  printed hosts of \<open>url\<close> and of the networking library. So do the outcomes of file operations on the policy file, name resolution, reloads of the
  proxy configuration, the environment and the faults of the operating system.
  \<open>PathUri\<close> is built on the crate \<open>url\<close> and enters patches as the record \<open>uri_ops\<close>. The readers of shell and
  PowerShell scripts (\<open>shell-command/src/bash.rs\<close> and its siblings) walk the syntax trees of the \<open>tree-sitter\<close>
  parsers and enter as the record \<open>shell_parsers\<close>. The text diff of a turn is taken as a function of the
  texts: the source stops comparing after 100 ms and falls back to a coarser diff.

  \<^bold>\<open>Not modelled.\<close> The Windows branches, symbolic links (a delta over one is never exact, and the file
  system of the model has none), concurrent changes by other processes, loading the policy from
  configuration layers, sandboxed and remote file systems, the transports of the proxy (HTTP, SOCKS5,
  interception of TLS) with its credential broker, and the rest of the workspace: the
  terminal interface, the model client, the servers and their protocols.
\<close>

section \<open>Properties that span components\<close>

text \<open>
  C1. No update hunk of a parsed patch makes the computation of a file's new contents panic: for
  every patch text the parser accepts, every contents of the file and both update modes, the
  slices, subtractions, insertions and the assertion on source order are all in range.
\<close>

theorem parsed_updates_never_panic:
  assumes "parse_patch txt = Inr args" "UpdateFile path move_path chunks \<in> set (args_hunks args)"
  shows "new_contents_from_chunks contents shown_path chunks mode \<noteq> Inl Panic"
proof -
  have "list_all wf_hunk (args_hunks args)"
    using assms(1) unfolding parse_patch_def by (rule parsed_hunks_wf)
  then have "list_all wf_chunk chunks" using assms(2) by (auto simp: list_all_iff)
  from preserved_contents_splice [OF this, of contents shown_path] show ?thesis
    using normalized_contents_not_panic [of contents shown_path chunks]
    by (auto simp: new_contents_from_chunks_def split: update_mode.splits sum.splits)
qed

theorem parsed_updates_never_panic_witness:
  "new_contents_from_chunks sample_crlf (lit ''f'') [sample_chunk] PreserveLineEndings \<noteq> Inl Panic"
proof (rule parsed_updates_never_panic)
  show "parse_patch sample_patch = Inr \<lparr>patch = sample_patch,
     args_hunks = [UpdateFile (lit ''f'') None [sample_chunk]], workdir = None, args_environment_id = None\<rparr>"
    unfolding parse_patch_def by (rule parse_sample_patch)
qed simp

text \<open>
  C2. The reported diff of a turn stays true: a tracker that knows the files, given the delta of a patch
  that was applied on the direct file system of one environment, either becomes invalid or knows the
  files after the patch, whether the patch succeeded or failed half way and whatever faults the
  operating system had. Symbolic links are followed, and excluded are patches that rename a file to its
  own path.
\<close>

theorem patches_are_tracked:
  assumes "follows t G0 G" "in_environment env G = os_files s"
    and "os_inv s" "parse_patch txt = Inr args" "follow_symlinks options"
    and "list_all (\<lambda>h. \<not> moves_onto_itself ops cwd h) (args_hunks args)"
    and "apply_patch_with_options ops (direct_fs nf f) txt options cwd (s, out, err) = ((s', out', err'), r)"
  shows "\<not> valid (track_delta diff env (result_delta r) t)
    \<or> follows (track_delta diff env (result_delta r) t) G0 (with_environment env (os_files s') G)"
proof (cases "valid (track_delta diff env (result_delta r) t)")
  case True
  then have v: "valid t" "delta_exact (result_delta r)" using valid_track_delta by blast+
  have "delta_run (in_environment env G) (delta_changes (result_delta r)) (os_files s')"
    using direct_patch_accounts [OF assms(3-7)] v(2) by (auto simp: accounts_def empty_delta_def assms(2))
  then show ?thesis using follows_changes [OF assms(1)] v by (simp add: track_delta_exact follows_refresh)
qed simp

definition path_diff_ops :: "path diff_ops" where
  "path_diff_ops = \<lparr>text_unified_diff = \<lambda>old new a b. a @ [NL] @ b @ [NL] @ old @ new, git_blob_oid = \<lambda>c. c,
     relative_path_from = \<lambda>u root. None, native_path_string = path_string\<rparr>"

theorem patches_are_tracked_witness:
  "follows (track_delta path_diff_ops [] (result_delta (snd (sample_move ''b''))) (new_tracker []))
     (\<lambda>p. os_files sample_os (tracked_uri p))
     (with_environment [] (os_files (fst (fst (sample_move ''b'')))) (\<lambda>p. os_files sample_os (tracked_uri p)))"
proof -
  let ?G = "\<lambda>p :: path tracked_path. os_files sample_os (tracked_uri p)"
  have "parse_patch (sample_move_patch ''b'') = Inr (projr (parse_patch (sample_move_patch ''b'')))" by code_simp
  moreover have "list_all (\<lambda>h. \<not> moves_onto_itself posix_ops sample_dir h) (args_hunks (projr (parse_patch (sample_move_patch ''b''))))"
    by code_simp
  moreover have "follow_symlinks default_patch_options" by code_simp
  moreover have "apply_patch_with_options posix_ops (direct_fs unsupported_fs no_os_faults) (sample_move_patch ''b'') default_patch_options
      sample_dir (sample_os, sample_writer, sample_writer)
    = ((fst (fst (sample_move ''b'')), fst (snd (fst (sample_move ''b''))), snd (snd (fst (sample_move ''b'')))), snd (sample_move ''b''))"
    by (simp add: sample_move_def sample_fs_def)
  moreover have "in_environment [] ?G = os_files sample_os" by (simp add: in_environment_def fun_eq_iff)
  moreover have "valid (track_delta path_diff_ops [] (result_delta (snd (sample_move ''b''))) (new_tracker []))" by code_simp
  ultimately show ?thesis using patches_are_tracked [OF follows_new _ sample_os_inv] by blast
qed

end
